(* ===== verification/Go_Prelude.thy ===== *)
theory Go_Prelude
  imports Main "HOL-Library.AList" "HOL-Library.Char_ord" "HOL-Library.List_Lexorder"
    "HOL-Library.Multiset" "HOL-Library.Sublist"
  "HOL-Library.Code_Target_Nat"
begin

text \<open>
  The parts of the Go language and of its standard library that the operator's code uses, and
  the lemmas the component theories share.

  \<^item> Errors. \<open>fmt.Errorf\<close> becomes a value of \<open>go_error\<close> that keeps the format string and the
    arguments; \<open>%w\<close> wraps another error. A function that returns \<open>(T, error)\<close> returns
    \<open>T res\<close>, with \<open>Inl\<close> for the error.
  \<^item> Integers. \<open>int64\<close> is \<open>int\<close> with \<open>i64\<close> written where an operation of the source may
    wrap around; \<open>uint32\<close> and \<open>uint64\<close> values are \<open>nat\<close>, with the width checked where the
    source parses them and the wrap-around written out where it can happen.
  \<^item> Strings are byte lists. Case mapping and white-space removal are those of ASCII.
  \<^item> A Go map is an association list with distinct keys whose order is the order in which
    \<open>range\<close> visits it: a statement about every association list is a statement about every
    iteration order. Reading an absent key gives the zero value of the element type.
\<close>

section \<open>Errors\<close>

datatype go_error = Errorf string "string list" | Wrapf string "string list" go_error

type_synonym 'a res = "go_error + 'a"

definition bind_res :: "'a res \<Rightarrow> ('a \<Rightarrow> 'b res) \<Rightarrow> 'b res" where
  "bind_res r f = (case r of Inl e \<Rightarrow> Inl e | Inr x \<Rightarrow> f x)"

definition is_ok :: "'a res \<Rightarrow> bool" where
  "is_ok r = (case r of Inl _ \<Rightarrow> False | Inr _ \<Rightarrow> True)"

text \<open>\<open>errors.Is\<close> on the chain of wrapped errors.\<close>

fun errors_Is :: "go_error \<Rightarrow> go_error \<Rightarrow> bool" where
  "errors_Is (Errorf f args) target = (Errorf f args = target)"
| "errors_Is (Wrapf f args e) target = (Wrapf f args e = target \<or> errors_Is e target)"

section \<open>Integers\<close>

definition MaxInt64 :: int where
  "MaxInt64 = 9223372036854775807"

definition MaxInt32 :: int where
  "MaxInt32 = 2147483647"

text \<open>The value an \<open>int64\<close> operation leaves when its exact result is \<open>x\<close>.\<close>

definition i64 :: "int \<Rightarrow> int" where
  "i64 x = (x + 9223372036854775808) mod 18446744073709551616 - 9223372036854775808"

text \<open>The value an \<open>uint64\<close> operation leaves when its exact result is \<open>x\<close>.\<close>

definition u64 :: "int \<Rightarrow> nat" where
  "u64 x = nat (x mod 18446744073709551616)"

section \<open>Strings\<close>

definition is_digit :: "char \<Rightarrow> bool" where
  "is_digit c \<longleftrightarrow> CHR ''0'' \<le> c \<and> c \<le> CHR ''9''"

definition digit_val :: "char \<Rightarrow> nat" where
  "digit_val c = of_char c - 48"

definition digit_char :: "nat \<Rightarrow> char" where
  "digit_char d = char_of (48 + d)"

fun parse_digits :: "nat \<Rightarrow> string \<Rightarrow> nat option" where
  "parse_digits acc [] = Some acc"
| "parse_digits acc (c # cs) =
     (if is_digit c then parse_digits (10 * acc + digit_val c) cs else None)"

definition parse_dec :: "string \<Rightarrow> nat option" where
  "parse_dec s = (if s = [] then None else parse_digits 0 s)"

text \<open>\<open>strconv.ParseUint(s, 10, bits)\<close>.\<close>

definition ParseUint :: "string \<Rightarrow> nat \<Rightarrow> nat res" where
  "ParseUint s bits =
     (case parse_dec s of
        None \<Rightarrow> Inl (Errorf ''strconv.ParseUint: parsing %q: invalid syntax'' [s])
      | Some n \<Rightarrow> if n < 2 ^ bits then Inr n
                  else Inl (Errorf ''strconv.ParseUint: parsing %q: value out of range'' [s]))"

text \<open>\<open>strconv.ParseInt(s, 10, 64)\<close>: an optional sign, digits, and the range check.\<close>

definition ParseInt :: "string \<Rightarrow> int res" where
  "ParseInt s =
     (let neg = (s \<noteq> [] \<and> hd s = CHR ''-'');
          body = (if s \<noteq> [] \<and> (hd s = CHR ''-'' \<or> hd s = CHR ''+'') then tl s else s)
      in case parse_dec body of
           None \<Rightarrow> Inl (Errorf ''strconv.ParseInt: parsing %q: invalid syntax'' [s])
         | Some n \<Rightarrow>
             if (if neg then int n > MaxInt64 + 1 else int n > MaxInt64)
             then Inl (Errorf ''strconv.ParseInt: parsing %q: value out of range'' [s])
             else Inr (if neg then - int n else int n))"

text \<open>\<open>strconv.Atoi(s)\<close> on a 64-bit platform: \<open>ParseInt\<close> under another name.\<close>

definition Atoi :: "string \<Rightarrow> int res" where
  "Atoi s =
     (case ParseInt s of
        Inr n \<Rightarrow> Inr n
      | Inl e \<Rightarrow>
          Inl (if e = Errorf ''strconv.ParseInt: parsing %q: invalid syntax'' [s]
               then Errorf ''strconv.Atoi: parsing %q: invalid syntax'' [s]
               else Errorf ''strconv.Atoi: parsing %q: value out of range'' [s]))"

text \<open>\<open>strconv.FormatUint(n, 10)\<close> and \<open>strconv.FormatInt(n, 10)\<close>.\<close>

fun FormatUint :: "nat \<Rightarrow> string" where
  "FormatUint n =
     (if n < 10 then [digit_char n] else FormatUint (n div 10) @ [digit_char (n mod 10)])"

declare FormatUint.simps [simp del]

definition FormatInt :: "int \<Rightarrow> string" where
  "FormatInt i = (if i < 0 then CHR ''-'' # FormatUint (nat (- i)) else FormatUint (nat i))"

text \<open>\<open>strings.Split\<close> and \<open>strings.Cut\<close> with a one-byte separator, \<open>strings.Join\<close>.\<close>

fun split_on :: "char \<Rightarrow> string \<Rightarrow> string list" where
  "split_on c [] = [[]]"
| "split_on c (x # xs) =
     (if x = c then [] # split_on c xs
      else (case split_on c xs of [] \<Rightarrow> [[x]] | y # ys \<Rightarrow> (x # y) # ys))"

fun cut_at :: "char \<Rightarrow> string \<Rightarrow> string \<times> string \<times> bool" where
  "cut_at c [] = ([], [], False)"
| "cut_at c (x # xs) =
     (if x = c then ([], xs, True)
      else (case cut_at c xs of (lo, hi, found) \<Rightarrow> (x # lo, hi, found)))"

fun join_with :: "string \<Rightarrow> string list \<Rightarrow> string" where
  "join_with sep [] = []"
| "join_with sep [x] = x"
| "join_with sep (x # y # ys) = x @ sep @ join_with sep (y # ys)"

text \<open>\<open>strings.TrimPrefix\<close> and \<open>strings.CutPrefix\<close>.\<close>

definition TrimPrefix :: "string \<Rightarrow> string \<Rightarrow> string" where
  "TrimPrefix s pre = (if prefix pre s then drop (length pre) s else s)"

definition CutPrefix :: "string \<Rightarrow> string \<Rightarrow> string option" where
  "CutPrefix s pre = (if prefix pre s then Some (drop (length pre) s) else None)"

text \<open>The rune mapping both GTID parsers pass to \<open>strings.Map\<close>.\<close>

definition is_gtid_space :: "char \<Rightarrow> bool" where
  "is_gtid_space c \<longleftrightarrow>
     c = CHR '' '' \<or> c = CHR 0x0A \<or> c = CHR 0x0D \<or> c = CHR 0x09"

definition strip_spaces :: "string \<Rightarrow> string" where
  "strip_spaces s = filter (\<lambda>c. \<not> is_gtid_space c) s"

text \<open>\<open>strings.TrimSpace\<close> on ASCII.\<close>

definition is_space :: "char \<Rightarrow> bool" where
  "is_space c \<longleftrightarrow> c = CHR '' '' \<or> (CHR 0x09 \<le> c \<and> c \<le> CHR 0x0D)"

definition TrimSpace :: "string \<Rightarrow> string" where
  "TrimSpace s = rev (dropWhile is_space (rev (dropWhile is_space s)))"

text \<open>\<open>strings.ToLower\<close> on ASCII.\<close>

definition lower_char :: "char \<Rightarrow> char" where
  "lower_char c = (if CHR ''A'' \<le> c \<and> c \<le> CHR ''Z'' then char_of (of_char c + (32::nat)) else c)"

definition to_lower :: "string \<Rightarrow> string" where
  "to_lower s = map lower_char s"

section \<open>Maps\<close>

type_synonym ('k, 'v) gomap = "('k \<times> 'v) list"

definition keys_distinct :: "('k, 'v) gomap \<Rightarrow> bool" where
  "keys_distinct m \<longleftrightarrow> distinct (map fst m)"

text \<open>Reading a key of a map of slices: an absent key reads as the nil slice.\<close>

definition slice_at :: "('k, 'v list) gomap \<Rightarrow> 'k \<Rightarrow> 'v list" where
  "slice_at m k = (case map_of m k of None \<Rightarrow> [] | Some v \<Rightarrow> v)"

text \<open>Reading a key of a map of strings: an absent key reads as the empty string.\<close>

definition string_at :: "('k, string) gomap \<Rightarrow> 'k \<Rightarrow> string" where
  "string_at m k = (case map_of m k of None \<Rightarrow> [] | Some v \<Rightarrow> v)"

text \<open>A loop that ranges over \<open>m\<close> and stores at most one entry per key in \<open>out\<close>.\<close>

definition range_store ::
  "('k \<Rightarrow> 'v \<Rightarrow> 'w option) \<Rightarrow> ('k, 'v) gomap \<Rightarrow> ('k, 'w) gomap \<Rightarrow> ('k, 'w) gomap" where
  "range_store f m out =
     fold (\<lambda>(k, v) out. case f k v of None \<Rightarrow> out | Some w \<Rightarrow> AList.update k w out) m out"

section \<open>Shared lemmas\<close>

named_theorems go_simps \<open>rules that take a call chain with error returns apart\<close>

lemma bind_res_Inl [simp]: "bind_res (Inl e) f = Inl e"
  by (simp add: bind_res_def)

lemma bind_res_Inr [simp]: "bind_res (Inr x) f = f x"
  by (simp add: bind_res_def)

lemma bind_res_eq_Inr [go_simps]:
  "bind_res r f = Inr y \<longleftrightarrow> (\<exists>x. r = Inr x \<and> f x = Inr y)"
  by (cases r) auto

lemma errors_Is_refl [simp]: "errors_Is err err"
  by (cases err) auto

lemma is_ok_simps [simp]: "is_ok (Inr x)" "\<not> is_ok (Inl e)"
  by (simp_all add: is_ok_def)

lemma is_okE: "is_ok r \<Longrightarrow> (\<And>x. r = Inr x \<Longrightarrow> thesis) \<Longrightarrow> thesis"
  by (cases r) auto

subsection \<open>Integers\<close>

lemma i64_id [simp]:
  "- 9223372036854775808 \<le> x \<Longrightarrow> x \<le> 9223372036854775807 \<Longrightarrow> i64 x = x"
  by (simp add: i64_def)

lemma i64_MaxInt64_Suc: "i64 (MaxInt64 + 1) < 0"
  by (simp add: i64_def MaxInt64_def)

lemma MaxInt64_pos [simp]: "0 < MaxInt64" "0 \<le> MaxInt64" "1 \<le> MaxInt64"
  by (simp_all add: MaxInt64_def)

subsection \<open>Decimal numbers\<close>

lemma digit_val_digit_char [simp]: "d < 10 \<Longrightarrow> digit_val (digit_char d) = d"
  by (simp add: digit_val_def digit_char_def)

lemma is_digit_digit_char [simp]: "d < 10 \<Longrightarrow> is_digit (digit_char d)"
  by (simp add: is_digit_def digit_char_def less_eq_char_def)

lemma parse_digits_append:
  "parse_digits acc (xs @ ys) = (case parse_digits acc xs of None \<Rightarrow> None | Some n \<Rightarrow> parse_digits n ys)"
  by (induction acc xs rule: parse_digits.induct) auto

lemma FormatUint_not_Nil [simp]: "FormatUint n \<noteq> []"
  by (subst FormatUint.simps) simp

lemma FormatUint_digits: "c \<in> set (FormatUint n) \<Longrightarrow> is_digit c"
proof (induction n rule: FormatUint.induct)
  case (1 n)
  then show ?case
    by (subst (asm) (2) FormatUint.simps) (auto split: if_splits)
qed

lemma parse_digits_FormatUint: "parse_digits 0 (FormatUint n) = Some n"
proof (induction n rule: FormatUint.induct)
  case (1 n)
  show ?case
  proof (cases "n < 10")
    case True
    then show ?thesis by (subst FormatUint.simps) simp
  next
    case False
    with 1 show ?thesis
      by (subst FormatUint.simps) (simp add: parse_digits_append)
  qed
qed

lemma parse_dec_FormatUint [simp]: "parse_dec (FormatUint n) = Some n"
  by (simp add: parse_dec_def parse_digits_FormatUint)

lemma ParseUint_FormatUint [simp]: "n < 2 ^ bits \<Longrightarrow> ParseUint (FormatUint n) bits = Inr n"
  by (simp add: ParseUint_def)

lemma ParseUint_Inr: "ParseUint s bits = Inr n \<Longrightarrow> n < 2 ^ bits"
  by (auto simp: ParseUint_def split: option.splits if_splits)

lemma not_digit_sign [simp]: "\<not> is_digit CHR ''-''" "\<not> is_digit CHR ''+''" "\<not> is_digit CHR '',''"
  "\<not> is_digit CHR '':''" "\<not> is_digit CHR '' ''" "\<not> is_digit CHR 0x0A" "\<not> is_digit CHR 0x0D"
  "\<not> is_digit CHR 0x09" "\<not> is_digit CHR ''.''"
  by (simp_all add: is_digit_def less_eq_char_def)

lemma FormatUint_notin [simp]: "\<not> is_digit c \<Longrightarrow> c \<notin> set (FormatUint n)"
  using FormatUint_digits by blast

lemma hd_FormatUint_neq [simp]: "\<not> is_digit c \<Longrightarrow> hd (FormatUint n) \<noteq> c"
  using FormatUint_digits [of "hd (FormatUint n)" n] by (metis FormatUint_not_Nil hd_in_set)

lemma ParseInt_FormatInt [simp]:
  "0 \<le> i \<Longrightarrow> i \<le> MaxInt64 \<Longrightarrow> ParseInt (FormatInt i) = Inr i"
  by (simp add: ParseInt_def FormatInt_def Let_def)

lemma ParseInt_Inr_le: "ParseInt s = Inr i \<Longrightarrow> i \<le> MaxInt64"
  by (auto simp: ParseInt_def Let_def MaxInt64_def split: option.splits if_splits)

subsection \<open>Splitting and joining\<close>

lemma split_on_not_Nil [simp]: "split_on c s \<noteq> []"
  by (induction s) (auto split: list.splits)

lemma split_on_notin [simp]: "c \<notin> set s \<Longrightarrow> split_on c s = [s]"
  by (induction s) auto

lemma split_on_append: "c \<notin> set s \<Longrightarrow> split_on c (s @ c # t) = s # split_on c t"
  by (induction s) auto

lemma split_on_parts: "t \<in> set (split_on c s) \<Longrightarrow> c \<notin> set t \<and> set t \<subseteq> set s"
  by (induction s arbitrary: t) (fastforce split: if_splits list.splits)+

lemma split_on_join:
  "xs \<noteq> [] \<Longrightarrow> (\<And>x. x \<in> set xs \<Longrightarrow> c \<notin> set x) \<Longrightarrow> split_on c (join_with [c] xs) = xs"
  by (induction "[c]" xs rule: join_with.induct) (auto simp: split_on_append)

lemma cut_at_notin [simp]: "c \<notin> set s \<Longrightarrow> cut_at c s = (s, [], False)"
  by (induction s) auto

lemma cut_at_append [simp]: "c \<notin> set s \<Longrightarrow> cut_at c (s @ c # t) = (s, t, True)"
  by (induction s) auto

lemma set_join_with: "set (join_with sep xs) \<subseteq> set sep \<union> \<Union> (set ` set xs)"
  by (induction sep xs rule: join_with.induct) auto

lemma join_with_eq_Nil:
  "(\<And>x. x \<in> set xs \<Longrightarrow> x \<noteq> []) \<Longrightarrow> join_with sep xs = [] \<longleftrightarrow> xs = []"
  by (cases "(sep, xs)" rule: join_with.cases) auto

lemma strip_spaces_id [simp]:
  "(\<And>c. c \<in> set s \<Longrightarrow> \<not> is_gtid_space c) \<Longrightarrow> strip_spaces s = s"
  by (simp add: strip_spaces_def)

lemma TrimSpace_id: "(\<And>c. c \<in> set s \<Longrightarrow> \<not> is_space c) \<Longrightarrow> TrimSpace s = s"
proof -
  assume a: "\<And>c. c \<in> set s \<Longrightarrow> \<not> is_space c"
  then have "dropWhile is_space s = s" by (cases s) auto
  moreover have "dropWhile is_space (rev s) = rev s"
    using a by (cases "rev s") (auto simp: rev_eq_Cons_iff)
  ultimately show ?thesis by (simp add: TrimSpace_def)
qed

lemma to_lower_eq_Nil [simp]: "to_lower s = [] \<longleftrightarrow> s = []"
  by (simp add: to_lower_def)

lemma lower_char_upper:
  assumes "CHR ''A'' \<le> c" "c \<le> CHR ''Z''"
  shows "of_char (lower_char c) = (of_char c + 32 :: nat)"
proof -
  from assms have "(of_char c :: nat) \<le> 90"
    by (simp add: less_eq_char_def)
  then show ?thesis
    using assms by (simp add: lower_char_def)
qed

lemma lower_char_idem [simp]: "lower_char (lower_char c) = lower_char c"
proof (cases "CHR ''A'' \<le> c \<and> c \<le> CHR ''Z''")
  case True
  then have "(of_char (lower_char c) :: nat) = of_char c + 32" and "(65::nat) \<le> of_char c"
    by (auto simp: lower_char_upper less_eq_char_def)
  then have "\<not> lower_char c \<le> CHR ''Z''"
    by (simp add: less_eq_char_def)
  then show ?thesis
    by (simp add: lower_char_def [of "lower_char c"])
next
  case False
  then have "lower_char c = c"
    by (auto simp: lower_char_def)
  then show ?thesis by simp
qed

lemma to_lower_idem [simp]: "to_lower (to_lower s) = to_lower s"
  by (simp add: to_lower_def)

lemma lower_char_special:
  assumes "\<not> (CHR ''a'' \<le> d \<and> d \<le> CHR ''z'')"
  shows "lower_char c = d \<longleftrightarrow> c = d \<and> lower_char d = d"
proof (cases "CHR ''A'' \<le> c \<and> c \<le> CHR ''Z''")
  case True
  then have eq: "(of_char (lower_char c) :: nat) = of_char c + 32"
    by (simp add: lower_char_upper)
  moreover from True have "(65::nat) \<le> of_char c" "of_char c \<le> (90::nat)"
    by (auto simp: less_eq_char_def)
  ultimately have "CHR ''a'' \<le> lower_char c" "lower_char c \<le> CHR ''z''"
    by (auto simp: less_eq_char_def)
  with assms have "lower_char c \<noteq> d" by blast
  moreover from eq have "c = d \<Longrightarrow> lower_char d \<noteq> d" by auto
  ultimately show ?thesis by blast
next
  case False
  then show ?thesis by (auto simp: lower_char_def)
qed

subsection \<open>Maps\<close>

lemma map_of_update [simp]: "map_of (AList.update k v m) = (map_of m)(k \<mapsto> v)"
  by (simp add: update_conv')

lemma keys_distinct_Nil [simp]: "keys_distinct []"
  by (simp add: keys_distinct_def)

lemma keys_distinct_Cons [simp]:
  "keys_distinct ((k, v) # m) \<longleftrightarrow> k \<notin> fst ` set m \<and> keys_distinct m"
  by (auto simp: keys_distinct_def)

lemma keys_distinct_update [simp]: "keys_distinct m \<Longrightarrow> keys_distinct (AList.update k v m)"
  by (simp add: keys_distinct_def distinct_update)

lemma keys_distinct_map [simp]: "keys_distinct (map (\<lambda>(k, v). (k, f k v)) m) = keys_distinct m"
  by (simp add: keys_distinct_def comp_def case_prod_beta)

lemma map_of_keys_distinct:
  "keys_distinct m \<Longrightarrow> map_of m k = Some v \<longleftrightarrow> (k, v) \<in> set m"
  by (simp add: keys_distinct_def)

lemma map_of_map_value: "map_of (map (\<lambda>(k, v). (k, f k v)) m) k = map_option (f k) (map_of m k)"
  by (induction m) auto

lemma range_store_Nil [simp]: "range_store f [] out = out"
  by (simp add: range_store_def)

lemma range_store_Cons [simp]:
  "range_store f ((k, v) # m) out =
     range_store f m (case f k v of None \<Rightarrow> out | Some w \<Rightarrow> AList.update k w out)"
  by (simp add: range_store_def)

lemma keys_distinct_range_store [simp]:
  "keys_distinct out \<Longrightarrow> keys_distinct (range_store f m out)"
  by (induction m arbitrary: out) (auto split: option.splits)

lemma map_of_range_store:
  "keys_distinct m \<Longrightarrow>
   map_of (range_store f m out) k =
     (case map_of m k of
        None \<Rightarrow> map_of out k
      | Some v \<Rightarrow> (case f k v of None \<Rightarrow> map_of out k | Some w \<Rightarrow> Some w))"
proof (induction m arbitrary: out)
  case Nil
  then show ?case by simp
next
  case (Cons a m)
  obtain k' v' where a: "a = (k', v')" by force
  have "k = k' \<Longrightarrow> map_of m k = None"
    using Cons.prems a by (auto simp: map_of_eq_None_iff)
  then show ?case
    using Cons a by (auto split: option.splits)
qed

lemma slice_at_simps [simp]:
  "slice_at [] k = []"
  "slice_at (AList.update k' v m) k = (if k = k' then v else slice_at m k)"
  by (simp_all add: slice_at_def)

lemma set_map_of_SomeD: "map_of m k = Some v \<Longrightarrow> (k, v) \<in> set m"
  by (rule map_of_SomeD)

end
