(* ===== verification/Gtid_Set.thy ===== *)
theory Gtid_Set
  imports Go_Prelude
begin

text \<open>
  MySQL GTID sets, from \<open>src/pkg/management/mysql/replication/gtid.go\<close>: the parser, the
  normaliser, the set operations and the canonical printer. A set is a map from a server UUID to
  a list of inclusive intervals. The abstract view of a set is \<open>gtids\<close>, the set of pairs of a
  UUID and a transaction number; \<open>wf_set\<close> is the invariant the parser establishes and every
  operation keeps, and under it each operation is the set operation its name says.
\<close>

section \<open>Data\<close>

record GTIDInterval =
  Start :: int
  End :: int

type_synonym GTIDSet = "(string, GTIDInterval list) gomap"

section \<open>Operations\<close>

definition mk_iv :: "int \<Rightarrow> int \<Rightarrow> GTIDInterval" where
  "mk_iv a b = \<lparr>Start = a, End = b\<rparr>"

text \<open>The loop of \<open>normalizeIntervals\<close>; the first argument is the interval \<open>last\<close> points to.\<close>

fun coalesce :: "GTIDInterval \<Rightarrow> GTIDInterval list \<Rightarrow> GTIDInterval list" where
  "coalesce l [] = [l]"
| "coalesce l (iv # ivs) =
     (if End l = MaxInt64 \<or> Start iv \<le> i64 (End l + 1)
      then coalesce (if End iv > End l then l\<lparr>End := End iv\<rparr> else l) ivs
      else l # coalesce iv ivs)"

definition normalizeIntervals :: "GTIDInterval list \<Rightarrow> GTIDInterval list" where
  "normalizeIntervals ivs =
     (if length ivs \<le> 1 then ivs
      else case sort_key Start ivs of [] \<Rightarrow> [] | iv # rest \<Rightarrow> coalesce iv rest)"

definition parseInterval :: "string \<Rightarrow> GTIDInterval res" where
  "parseInterval s =
     (let (lo, hi, ranged) = cut_at CHR ''-'' s in
      (case ParseInt lo of
         Inl _ \<Rightarrow> Inl (Errorf ''bad interval %q'' [s])
       | Inr start \<Rightarrow>
           (case (if ranged then ParseInt hi else Inr start) of
              Inl _ \<Rightarrow> Inl (Errorf ''bad interval %q'' [s])
            | Inr endv \<Rightarrow>
                (if start < 1 \<or> endv < start then Inl (Errorf ''bad interval %q'' [s])
                 else Inr (mk_iv start endv)))))"

text \<open>The two nested loops of \<open>ParseGTIDSet\<close>.\<close>

fun parse_intervals :: "string \<Rightarrow> string \<Rightarrow> string list \<Rightarrow> GTIDSet \<Rightarrow> GTIDSet res" where
  "parse_intervals raw uuid [] acc = Inr acc"
| "parse_intervals raw uuid (ivStr # rest) acc =
     (case parseInterval ivStr of
        Inl err \<Rightarrow> Inl (Wrapf ''invalid gtid set %q: %w'' [raw] err)
      | Inr iv \<Rightarrow> parse_intervals raw uuid rest (AList.update uuid (slice_at acc uuid @ [iv]) acc))"

fun parse_uuid_sets :: "string \<Rightarrow> string list \<Rightarrow> GTIDSet \<Rightarrow> GTIDSet res" where
  "parse_uuid_sets raw [] acc = Inr acc"
| "parse_uuid_sets raw (uuidSet # rest) acc =
     (let parts = split_on CHR '':'' uuidSet in
      if length parts < 2
      then Inl (Errorf ''invalid gtid set %q: missing intervals in %q'' [raw, uuidSet])
      else let uuid = to_lower (hd parts) in
           if uuid = [] then Inl (Errorf ''invalid gtid set %q: empty uuid'' [raw])
           else bind_res (parse_intervals raw uuid (tl parts) acc) (parse_uuid_sets raw rest))"

definition ParseGTIDSet :: "string \<Rightarrow> GTIDSet res" where
  "ParseGTIDSet raw =
     (let cleaned = strip_spaces raw in
      if cleaned = [] then Inr []
      else bind_res (parse_uuid_sets raw (split_on CHR '','' cleaned) [])
             (\<lambda>acc. Inr (map (\<lambda>(uuid, ivs). (uuid, normalizeIntervals ivs)) acc)))"

definition IsEmpty :: "GTIDSet \<Rightarrow> bool" where
  "IsEmpty s = list_all (\<lambda>(_, intervals). \<not> 0 < length intervals) s"

fun intervalsCover :: "GTIDInterval list \<Rightarrow> GTIDInterval \<Rightarrow> bool" where
  "intervalsCover [] iv = False"
| "intervalsCover (m # ms) iv =
     (if Start m \<le> Start iv \<and> End iv \<le> End m then True else intervalsCover ms iv)"

text \<open>The loop of \<open>Contains\<close>: a UUID that \<open>s\<close> does not hold ends it, whatever is left.\<close>

fun Contains :: "GTIDSet \<Rightarrow> GTIDSet \<Rightarrow> bool" where
  "Contains s [] = True"
| "Contains s ((uuid, intervals) # other) =
     (case map_of s uuid of
        None \<Rightarrow> length intervals = 0
      | Some mine \<Rightarrow>
          if list_all (intervalsCover mine) intervals then Contains s other else False)"

definition Equal :: "GTIDSet \<Rightarrow> GTIDSet \<Rightarrow> bool" where
  "Equal s other \<longleftrightarrow> Contains s other \<and> Contains other s"

fun uncovered_loop :: "GTIDInterval \<Rightarrow> GTIDInterval list \<Rightarrow> int \<Rightarrow> int" where
  "uncovered_loop iv [] remaining = remaining"
| "uncovered_loop iv (m # ms) remaining =
     (if End m < Start iv then uncovered_loop iv ms remaining
      else if Start m > End iv then remaining
      else uncovered_loop iv ms
             (i64 (remaining - i64 (i64 (min (End m) (End iv) - max (Start m) (Start iv)) + 1))))"

definition uncoveredBy :: "GTIDInterval \<Rightarrow> GTIDInterval list \<Rightarrow> int" where
  "uncoveredBy iv mine =
     (let remaining = i64 (i64 (End iv - Start iv) + 1) in
      if remaining \<le> 0 then 0 else max (uncovered_loop iv mine remaining) 0)"

text \<open>The loops of \<open>MissingCount\<close>; \<open>Inl\<close> is the early return at saturation.\<close>

fun missing_intervals :: "GTIDInterval list \<Rightarrow> GTIDInterval list \<Rightarrow> int \<Rightarrow> int + int" where
  "missing_intervals mine [] missing = Inr missing"
| "missing_intervals mine (iv # ivs) missing =
     (let n = uncoveredBy iv mine in
      if missing > i64 (MaxInt64 - n) then Inl MaxInt64
      else missing_intervals mine ivs (i64 (missing + n)))"

fun missing_loop :: "GTIDSet \<Rightarrow> GTIDSet \<Rightarrow> int \<Rightarrow> int" where
  "missing_loop s [] missing = missing"
| "missing_loop s ((uuid, intervals) # other) missing =
     (case missing_intervals (slice_at s uuid) intervals missing of
        Inl r \<Rightarrow> r
      | Inr missing' \<Rightarrow> missing_loop s other missing')"

definition MissingCount :: "GTIDSet \<Rightarrow> GTIDSet \<Rightarrow> int" where
  "MissingCount s other = missing_loop s other 0"

definition Clone :: "GTIDSet \<Rightarrow> GTIDSet" where
  "Clone s = range_store (\<lambda>_ intervals. Some intervals) s []"

definition AddInterval :: "GTIDSet \<Rightarrow> string \<Rightarrow> GTIDInterval \<Rightarrow> GTIDSet" where
  "AddInterval s uuid iv =
     (let uuid = to_lower uuid
      in AList.update uuid (normalizeIntervals (slice_at s uuid @ [iv])) s)"

definition Union :: "GTIDSet \<Rightarrow> GTIDSet \<Rightarrow> GTIDSet" where
  "Union s other =
     fold (\<lambda>(uuid, intervals) s. fold (\<lambda>iv s. AddInterval s uuid iv) intervals s) other s"

text \<open>The loop of \<open>minus\<close>; the pieces it appends to \<open>out\<close>, in order, are its value.\<close>

fun minus_loop :: "GTIDInterval list \<Rightarrow> int \<Rightarrow> int \<Rightarrow> GTIDInterval list" where
  "minus_loop [] start endv = [mk_iv start endv]"
| "minus_loop (m # sub) start endv =
     (if End m < start then minus_loop sub start endv
      else if Start m > endv then [mk_iv start endv]
      else (if Start m > start then [mk_iv start (i64 (Start m - 1))] else []) @
           (if End m \<ge> endv then [] else minus_loop sub (i64 (End m + 1)) endv))"

definition minus_iv :: "GTIDInterval \<Rightarrow> GTIDInterval list \<Rightarrow> GTIDInterval list" where
  "minus_iv iv sub = minus_loop sub (Start iv) (End iv)"

definition Difference :: "GTIDSet \<Rightarrow> GTIDSet \<Rightarrow> GTIDSet" where
  "Difference s other =
     range_store
       (\<lambda>uuid intervals.
          let kept = concat (map (\<lambda>iv. minus_iv iv (slice_at other uuid)) intervals)
          in if 0 < length kept then Some kept else None)
       s []"

definition Intersect :: "GTIDSet \<Rightarrow> GTIDSet \<Rightarrow> GTIDSet" where
  "Intersect s other = Difference s (Difference s other)"

fun holes_of :: "GTIDInterval list \<Rightarrow> GTIDInterval list" where
  "holes_of (a # b # ivs) = mk_iv (i64 (End a + 1)) (i64 (Start b - 1)) # holes_of (b # ivs)"
| "holes_of ivs = []"

definition Holes :: "GTIDSet \<Rightarrow> GTIDSet" where
  "Holes s =
     range_store
       (\<lambda>uuid intervals. if 1 < length intervals then Some (holes_of intervals) else None) s []"

definition interval_string :: "GTIDInterval \<Rightarrow> string" where
  "interval_string iv =
     (if Start iv = End iv then FormatInt (Start iv)
      else FormatInt (Start iv) @ ''-'' @ FormatInt (End iv))"

definition uuid_string :: "string \<Rightarrow> GTIDInterval list \<Rightarrow> string" where
  "uuid_string uuid ivs = uuid @ concat (map (\<lambda>iv. '':'' @ interval_string iv) ivs)"

definition GTIDSet_String :: "GTIDSet \<Rightarrow> string" where
  "GTIDSet_String s =
     (let uuids = sort (map fst (filter (\<lambda>(_, intervals). 0 < length intervals) s))
      in join_with '','' (map (\<lambda>uuid. uuid_string uuid (slice_at s uuid)) uuids))"

text \<open>The string-level functions.\<close>

fun union_strings :: "GTIDSet \<Rightarrow> string list \<Rightarrow> GTIDSet res" where
  "union_strings u [] = Inr u"
| "union_strings u (raw # sets) =
     bind_res (ParseGTIDSet raw) (\<lambda>parsed. union_strings (Union u parsed) sets)"

definition UnionGTIDStrings :: "string list \<Rightarrow> string res" where
  "UnionGTIDStrings sets = bind_res (union_strings [] sets) (\<lambda>u. Inr (GTIDSet_String u))"

definition GTIDContains :: "string \<Rightarrow> string \<Rightarrow> bool res" where
  "GTIDContains supers subs =
     bind_res (ParseGTIDSet supers) (\<lambda>super.
     bind_res (ParseGTIDSet subs) (\<lambda>sub. Inr (Contains super sub)))"

definition DifferenceGTIDStrings :: "string \<Rightarrow> string \<Rightarrow> string res" where
  "DifferenceGTIDStrings a b =
     bind_res (ParseGTIDSet a) (\<lambda>setA.
     bind_res (ParseGTIDSet b) (\<lambda>setB. Inr (GTIDSet_String (Difference setA setB))))"

definition IntersectsGTIDStrings :: "string \<Rightarrow> string \<Rightarrow> bool res" where
  "IntersectsGTIDStrings a b =
     bind_res (ParseGTIDSet a) (\<lambda>setA.
     bind_res (ParseGTIDSet b) (\<lambda>setB. Inr (\<not> Equal (Difference setA setB) setA)))"

definition HolesGTIDString :: "string \<Rightarrow> string res" where
  "HolesGTIDString raw =
     bind_res (ParseGTIDSet raw) (\<lambda>parsed. Inr (GTIDSet_String (Holes parsed)))"

definition IntersectGTIDStrings :: "string \<Rightarrow> string \<Rightarrow> string res" where
  "IntersectGTIDStrings a b =
     bind_res (ParseGTIDSet a) (\<lambda>setA.
     bind_res (ParseGTIDSet b) (\<lambda>setB. Inr (GTIDSet_String (Intersect setA setB))))"

section \<open>Abstract view and invariant\<close>

definition valid_iv :: "GTIDInterval \<Rightarrow> bool" where
  "valid_iv iv \<longleftrightarrow> 1 \<le> Start iv \<and> Start iv \<le> End iv \<and> End iv \<le> MaxInt64"

definition iv_set :: "GTIDInterval \<Rightarrow> int set" where
  "iv_set iv = {Start iv .. End iv}"

definition ivs_set :: "GTIDInterval list \<Rightarrow> int set" where
  "ivs_set ivs = \<Union> (iv_set ` set ivs)"

definition normal :: "GTIDInterval list \<Rightarrow> bool" where
  "normal ivs \<longleftrightarrow> sorted_wrt (\<lambda>a b. End a + 1 < Start b) ivs \<and> list_all valid_iv ivs"

text \<open>A UUID as the parser leaves it: non-empty, lower case, no separator or white space.\<close>

definition uuid_ok :: "string \<Rightarrow> bool" where
  "uuid_ok u \<longleftrightarrow> u \<noteq> [] \<and> to_lower u = u \<and>
     list_all (\<lambda>c. c \<noteq> CHR '','' \<and> c \<noteq> CHR '':'' \<and> \<not> is_gtid_space c) u"

definition wf_set :: "GTIDSet \<Rightarrow> bool" where
  "wf_set s \<longleftrightarrow> keys_distinct s \<and>
     list_all (\<lambda>(u, ivs). uuid_ok u \<and> ivs \<noteq> [] \<and> normal ivs) s"

definition gtids :: "GTIDSet \<Rightarrow> (string \<times> int) set" where
  "gtids s = {(u, n). n \<in> ivs_set (slice_at s u)}"

section \<open>Intervals\<close>

lemma mk_iv_simps [simp]: "Start (mk_iv a b) = a" "End (mk_iv a b) = b"
  by (simp_all add: mk_iv_def)

lemma ivs_set_simps [simp]:
  "ivs_set [] = {}" "ivs_set (iv # ivs) = iv_set iv \<union> ivs_set ivs"
  "ivs_set (xs @ ys) = ivs_set xs \<union> ivs_set ys"
  by (auto simp: ivs_set_def)

lemma ivs_set_concat: "ivs_set (concat xss) = \<Union> (ivs_set ` set xss)"
  by (induction xss) auto

lemma mem_ivs_set: "n \<in> ivs_set ivs \<longleftrightarrow> (\<exists>iv \<in> set ivs. Start iv \<le> n \<and> n \<le> End iv)"
  by (auto simp: ivs_set_def iv_set_def)

lemma valid_ivD:
  assumes "valid_iv iv"
  shows "1 \<le> Start iv" "Start iv \<le> End iv" "End iv \<le> MaxInt64" "iv_set iv \<noteq> {}"
  using assms by (auto simp: valid_iv_def iv_set_def)

lemma valid_iv_mk [simp]: "valid_iv (mk_iv a b) \<longleftrightarrow> 1 \<le> a \<and> a \<le> b \<and> b \<le> MaxInt64"
  by (simp add: valid_iv_def)

lemma i64_Suc: "valid_iv iv \<Longrightarrow> End iv \<noteq> MaxInt64 \<Longrightarrow> i64 (End iv + 1) = End iv + 1"
  by (rule i64_id) (auto simp: valid_iv_def MaxInt64_def)

lemma i64_pred: "valid_iv iv \<Longrightarrow> i64 (Start iv - 1) = Start iv - 1"
  by (rule i64_id) (auto simp: valid_iv_def MaxInt64_def)

lemma normal_Nil [simp]: "normal []"
  by (simp add: normal_def)

lemma normal_Cons:
  "normal (iv # ivs) \<longleftrightarrow>
     valid_iv iv \<and> (\<forall>m \<in> set ivs. End iv + 1 < Start m) \<and> normal ivs"
  by (auto simp: normal_def list_all_iff)

lemma normal_valid: "normal ivs \<Longrightarrow> iv \<in> set ivs \<Longrightarrow> valid_iv iv"
  by (auto simp: normal_def list_all_iff)

lemma normal_ivs_set_ge: "normal ivs \<Longrightarrow> n \<in> ivs_set ivs \<Longrightarrow> 1 \<le> n \<and> n \<le> MaxInt64"
  by (auto simp: mem_ivs_set dest!: normal_valid simp: valid_iv_def)

lemma finite_ivs_set [simp]: "finite (ivs_set ivs)"
  by (simp add: ivs_set_def iv_set_def)

lemma ivs_set_empty: "list_all valid_iv ivs \<Longrightarrow> ivs_set ivs = {} \<longleftrightarrow> ivs = []"
  by (cases ivs) (auto simp: valid_iv_def iv_set_def)

lemma coalesce_correct:
  assumes "valid_iv l" "list_all valid_iv ivs" "sorted (map Start (l # ivs))"
  shows "ivs_set (coalesce l ivs) = ivs_set (l # ivs) \<and> normal (coalesce l ivs) \<and>
    (\<forall>m \<in> set (coalesce l ivs). Start l \<le> Start m)"
  using assms
proof (induction l ivs rule: coalesce.induct)
  case (1 l)
  then show ?case by (simp add: normal_Cons)
next
  case (2 l iv ivs)
  let ?l' = "if End iv > End l then l\<lparr>End := End iv\<rparr> else l"
  from "2.prems" have v: "valid_iv l" "valid_iv iv" "list_all valid_iv ivs"
    and le: "Start l \<le> Start iv" "sorted (map Start (iv # ivs))" "sorted (map Start (l # ivs))"
    by auto
  show ?case
  proof (cases "End l = MaxInt64 \<or> Start iv \<le> i64 (End l + 1)")
    case True
    have touch: "Start iv \<le> End l + 1"
    proof (cases "End l = MaxInt64")
      case True
      then show ?thesis using v(2) by (auto simp: valid_iv_def)
    next
      case False
      with True v(1) show ?thesis by (simp add: i64_Suc)
    qed
    have v': "valid_iv ?l'" using v(1,2) le(1) by (auto simp: valid_iv_def)
    have s': "iv_set ?l' = iv_set l \<union> iv_set iv"
      using touch le(1) v(1,2) by (auto simp: iv_set_def valid_iv_def)
    have "sorted (map Start (?l' # ivs))" using le(3) by auto
    from "2.IH"(1) [OF True v' v(3) this] True s' show ?thesis
      by auto
  next
    case False
    then have gap: "End l + 1 < Start iv" using v(1) i64_Suc [of l] by auto
    from "2.IH"(2) [OF False v(2,3) le(2)] False gap v(1) le(1) show ?thesis
      by (fastforce simp: normal_Cons)
  qed
qed

lemma sort_key_Start_props:
  "sorted (map Start (sort_key Start ivs))" "set (sort_key Start ivs) = set ivs"
  by simp_all

lemma normalizeIntervals_correct:
  assumes "list_all valid_iv ivs"
  shows "normal (normalizeIntervals ivs)" "ivs_set (normalizeIntervals ivs) = ivs_set ivs"
    "normalizeIntervals ivs = [] \<longleftrightarrow> ivs = []"
proof -
  have "normal (normalizeIntervals ivs) \<and> ivs_set (normalizeIntervals ivs) = ivs_set ivs"
  proof (cases "length ivs \<le> 1")
    case True
    with assms show ?thesis
      by (cases ivs) (auto simp: normalizeIntervals_def normal_Cons)
  next
    case False
    then obtain iv rest where s: "sort_key Start ivs = iv # rest"
      by (cases "sort_key Start ivs") (auto dest: arg_cong [where f = length])
    have st: "set (iv # rest) = set ivs" using s by (metis set_sort)
    then have "valid_iv iv" "list_all valid_iv rest"
      using assms by (auto simp: list_all_iff)
    moreover have "sorted (map Start (iv # rest))" using s sorted_sort_key by metis
    ultimately have "ivs_set (coalesce iv rest) = ivs_set (iv # rest) \<and> normal (coalesce iv rest)"
      using coalesce_correct by blast
    moreover have "ivs_set (iv # rest) = ivs_set ivs" using st by (simp only: ivs_set_def)
    ultimately show ?thesis using False s by (simp add: normalizeIntervals_def)
  qed
  then show "normal (normalizeIntervals ivs)" "ivs_set (normalizeIntervals ivs) = ivs_set ivs"
    by simp_all
  then show "normalizeIntervals ivs = [] \<longleftrightarrow> ivs = []"
    using ivs_set_empty [OF assms] ivs_set_empty [of "normalizeIntervals ivs"]
    by (auto simp: normal_def)
qed

text \<open>Normal lists are canonical: they are determined by the set they stand for.\<close>

lemma normal_Cons_set:
  assumes "normal (a # as)"
  shows "Start a \<in> ivs_set (a # as)" "End a \<in> ivs_set (a # as)" "End a + 1 \<notin> ivs_set (a # as)"
    "\<And>n. n \<in> ivs_set (a # as) \<Longrightarrow> Start a \<le> n"
    "\<And>n. Start a \<le> n \<Longrightarrow> n \<le> End a \<Longrightarrow> n \<in> ivs_set (a # as)"
    "ivs_set as = {n \<in> ivs_set (a # as). End a < n}"
proof -
  from assms have a: "Start a \<le> End a" and as: "\<forall>m \<in> set as. End a + 1 < Start m"
    by (auto simp: normal_Cons valid_iv_def)
  show "Start a \<in> ivs_set (a # as)" "End a \<in> ivs_set (a # as)"
    using a by (auto simp: iv_set_def)
  show "End a + 1 \<notin> ivs_set (a # as)"
    using as by (fastforce simp: mem_ivs_set iv_set_def)
  show "\<And>n. n \<in> ivs_set (a # as) \<Longrightarrow> Start a \<le> n"
    using a as by (fastforce simp: mem_ivs_set iv_set_def)
  show "\<And>n. Start a \<le> n \<Longrightarrow> n \<le> End a \<Longrightarrow> n \<in> ivs_set (a # as)"
    by (simp add: iv_set_def)
  show "ivs_set as = {n \<in> ivs_set (a # as). End a < n}"
    using a as by (fastforce simp: mem_ivs_set iv_set_def)
qed

lemma normal_unique: "normal as \<Longrightarrow> normal bs \<Longrightarrow> ivs_set as = ivs_set bs \<Longrightarrow> as = bs"
proof (induction as arbitrary: bs)
  case Nil
  then show ?case by (metis ivs_set_empty ivs_set_simps(1) normal_def)
next
  case (Cons a as)
  then obtain b bs' where bs: "bs = b # bs'"
    by (metis ivs_set_empty ivs_set_simps(1) list.exhaust list.distinct(1) normal_def)
  note na = normal_Cons_set [OF Cons.prems(1)]
  note nb = normal_Cons_set [OF Cons.prems(2) [unfolded bs]]
  have eq: "ivs_set (a # as) = ivs_set (b # bs')" using Cons.prems(3) bs by simp
  have s: "Start a = Start b" using na(1,4) nb(1,4) eq by (metis order_antisym)
  have va: "Start a \<le> End a" "Start b \<le> End b"
    using Cons.prems bs by (auto simp: normal_Cons valid_iv_def)
  have e: "End a = End b"
  proof (rule ccontr)
    assume "End a \<noteq> End b"
    then consider "End a + 1 \<le> End b" | "End b + 1 \<le> End a" by linarith
    then show False
    proof cases
      case 1
      then have "End a + 1 \<in> ivs_set (b # bs')" using nb(5) s va by simp
      then show False using na(3) eq by metis
    next
      case 2
      then have "End b + 1 \<in> ivs_set (a # as)" using na(5) s va by simp
      then show False using nb(3) eq by metis
    qed
  qed
  have "ivs_set as = {n \<in> ivs_set (b # bs'). End b < n}" using na(6) eq e by metis
  then have "ivs_set as = ivs_set bs'" using nb(6) by metis
  with Cons bs have "as = bs'" by (simp add: normal_Cons)
  with s e bs show ?case by simp
qed

lemma normal_list_all: "normal ivs \<Longrightarrow> list_all valid_iv ivs"
  by (simp add: normal_def)

lemma normalizeIntervals_normal [simp]: "normal ivs \<Longrightarrow> normalizeIntervals ivs = ivs"
  by (rule normal_unique) (auto simp: normalizeIntervals_correct normal_list_all)

lemma normalizeIntervals_cong:
  assumes "list_all valid_iv as" "list_all valid_iv bs" "ivs_set as = ivs_set bs"
  shows "normalizeIntervals as = normalizeIntervals bs"
  using assms by (intro normal_unique) (simp_all add: normalizeIntervals_correct)

text \<open>Covering, counting and cutting.\<close>

lemma intervalsCover_ex:
  "intervalsCover mine iv \<longleftrightarrow> (\<exists>m \<in> set mine. Start m \<le> Start iv \<and> End iv \<le> End m)"
  by (induction mine) auto

lemma normal_gap:
  assumes "normal ms" "m \<in> set ms" shows "End m + 1 \<notin> ivs_set ms"
  using assms
proof (induction ms)
  case (Cons a as)
  show ?case
  proof (cases "m = a")
    case True
    then show ?thesis using normal_Cons_set(3) [OF Cons.prems(1)] by simp
  next
    case False
    then have "m \<in> set as" "normal as" using Cons.prems by (auto simp: normal_Cons)
    moreover from this have "End m + 1 \<notin> iv_set a"
      using Cons.prems(1) by (fastforce simp: normal_Cons iv_set_def valid_iv_def dest: normal_valid)
    ultimately show ?thesis using Cons.IH by simp
  qed
qed simp

lemma intervalsCover_iff:
  assumes "normal mine" "valid_iv iv"
  shows "intervalsCover mine iv \<longleftrightarrow> iv_set iv \<subseteq> ivs_set mine"
proof
  assume "intervalsCover mine iv"
  then obtain m where "m \<in> set mine" "Start m \<le> Start iv" "End iv \<le> End m"
    by (auto simp: intervalsCover_ex)
  then show "iv_set iv \<subseteq> ivs_set mine"
    by (auto simp: mem_ivs_set iv_set_def intro!: bexI [of _ m])
next
  assume sub: "iv_set iv \<subseteq> ivs_set mine"
  then have "Start iv \<in> ivs_set mine" using assms(2) by (auto simp: iv_set_def valid_iv_def)
  then obtain m where m: "m \<in> set mine" "Start m \<le> Start iv" "Start iv \<le> End m"
    by (auto simp: mem_ivs_set)
  have "End iv \<le> End m"
  proof (rule ccontr)
    assume "\<not> End iv \<le> End m"
    then have "End m + 1 \<in> iv_set iv" using m by (auto simp: iv_set_def)
    with sub normal_gap [OF assms(1) m(1)] show False by blast
  qed
  with m show "intervalsCover mine iv" by (auto simp: intervalsCover_ex)
qed

lemma i64_width:
  assumes "1 \<le> a" "a \<le> b" "b \<le> MaxInt64"
  shows "i64 (i64 (b - a) + 1) = b - a + 1"
proof -
  have "i64 (b - a) = b - a" using assms by (intro i64_id) (auto simp: MaxInt64_def)
  moreover have "i64 (b - a + 1) = b - a + 1" using assms by (intro i64_id) (auto simp: MaxInt64_def)
  ultimately show ?thesis by (simp only:)
qed

lemma uncovered_loop_correct:
  assumes "normal mine" "valid_iv iv"
    "int (card (iv_set iv \<inter> ivs_set mine)) \<le> r" "r \<le> MaxInt64"
  shows "uncovered_loop iv mine r = r - int (card (iv_set iv \<inter> ivs_set mine))"
  using assms
proof (induction mine arbitrary: r)
  case Nil
  then show ?case by simp
next
  case (Cons m ms)
  note n = normal_Cons [of m ms, THEN iffD1, OF Cons.prems(1)]
  have vm: "valid_iv m" and gap: "\<forall>m' \<in> set ms. End m + 1 < Start m'" and nms: "normal ms"
    using n by auto
  have disj: "iv_set m \<inter> ivs_set ms = {}"
    using gap by (fastforce simp: iv_set_def mem_ivs_set)
  consider "End m < Start iv" | "End m \<ge> Start iv" "Start m > End iv"
    | "End m \<ge> Start iv" "Start m \<le> End iv" by linarith
  then show ?case
  proof cases
    case 1
    then have "iv_set iv \<inter> iv_set m = {}" by (auto simp: iv_set_def)
    then have "iv_set iv \<inter> ivs_set (m # ms) = iv_set iv \<inter> ivs_set ms" by auto
    with 1 Cons nms show ?thesis by simp
  next
    case 2
    then have "iv_set iv \<inter> ivs_set (m # ms) = {}"
      using gap vm by (fastforce simp: iv_set_def mem_ivs_set valid_iv_def)
    with 2 show ?thesis by simp
  next
    case 3
    let ?o = "min (End m) (End iv) - max (Start m) (Start iv) + 1"
    have ov: "iv_set iv \<inter> iv_set m = {max (Start m) (Start iv) .. min (End m) (End iv)}"
      by (auto simp: iv_set_def)
    have pos: "0 < ?o" using 3 vm Cons.prems(2) by (auto simp: valid_iv_def)
    then have co: "int (card (iv_set iv \<inter> iv_set m)) = ?o" using ov by simp
    have split: "iv_set iv \<inter> ivs_set (m # ms) = (iv_set iv \<inter> iv_set m) \<union> (iv_set iv \<inter> ivs_set ms)"
      by auto
    have card: "card (iv_set iv \<inter> ivs_set (m # ms)) =
        card (iv_set iv \<inter> iv_set m) + card (iv_set iv \<inter> ivs_set ms)"
      unfolding split using disj by (intro card_Un_disjoint) (auto simp: iv_set_def)
    have o: "i64 (i64 (min (End m) (End iv) - max (Start m) (Start iv)) + 1) = ?o"
      using pos vm Cons.prems(2) by (intro i64_width) (auto simp: valid_iv_def)
    have "i64 (r - ?o) = r - ?o"
      using pos Cons.prems(3,4) card co by (intro i64_id) (auto simp: MaxInt64_def)
    moreover have "uncovered_loop iv ms (r - ?o) = r - ?o - int (card (iv_set iv \<inter> ivs_set ms))"
      using Cons.prems(2,3,4) nms card co pos by (intro Cons.IH) auto
    ultimately show ?thesis using 3 o card co by simp
  qed
qed

lemma card_iv_set: "Start iv \<le> End iv \<Longrightarrow> int (card (iv_set iv)) = End iv - Start iv + 1"
  by (simp add: iv_set_def)

lemma finite_iv_set [simp]: "finite (iv_set iv)"
  by (simp add: iv_set_def)

lemma uncoveredBy_correct:
  assumes "normal mine" "valid_iv iv"
  shows "uncoveredBy iv mine = int (card (iv_set iv - ivs_set mine))"
proof -
  let ?r = "End iv - Start iv + 1"
  have r: "i64 (i64 (End iv - Start iv) + 1) = ?r"
    using assms(2) by (intro i64_width) (auto simp: valid_iv_def)
  have r2: "0 < ?r" "?r \<le> MaxInt64" using assms(2) by (auto simp: valid_iv_def)
  have c: "int (card (iv_set iv)) = ?r" using r2(1) by (intro card_iv_set) simp
  have "card (iv_set iv) = card (iv_set iv - ivs_set mine) + card (iv_set iv \<inter> ivs_set mine)"
    by (metis card_Diff_subset_Int card_mono finite_Int finite_iv_set inf_le1 le_add_diff_inverse2)
  then have d: "int (card (iv_set iv - ivs_set mine)) + int (card (iv_set iv \<inter> ivs_set mine)) = ?r"
    using c by linarith
  then have le: "int (card (iv_set iv \<inter> ivs_set mine)) \<le> ?r" by linarith
  have "uncovered_loop iv mine ?r = int (card (iv_set iv - ivs_set mine))"
    using uncovered_loop_correct [OF assms le r2(2)] d by linarith
  then show ?thesis
    using r r2(1) by (simp add: uncoveredBy_def Let_def)
qed

text \<open>The sweep of \<open>minus\<close>: the pieces are normal, lie in \<open>[start, endv]\<close> and are the difference.\<close>

lemma minus_loop_correct:
  assumes "normal sub" "1 \<le> start" "start \<le> endv" "endv \<le> MaxInt64"
  shows "normal (minus_loop sub start endv) \<and>
    ivs_set (minus_loop sub start endv) = {start .. endv} - ivs_set sub"
  using assms
proof (induction sub arbitrary: start)
  case Nil
  then show ?case by (simp add: normal_Cons iv_set_def)
next
  case (Cons m ms)
  have vm: "valid_iv m" and gap: "\<forall>m' \<in> set ms. End m + 1 < Start m'" and nms: "normal ms"
    using Cons.prems(1) by (auto simp: normal_Cons)
  have hi: "End m + 1 < n" if "n \<in> ivs_set ms" for n
    using that gap by (fastforce simp: mem_ivs_set)
  have m: "1 \<le> Start m" "Start m \<le> End m" "End m \<le> MaxInt64" using vm by (auto simp: valid_iv_def)
  consider "End m < start" | "start \<le> End m" "Start m > endv"
    | "start \<le> End m" "Start m \<le> endv" "End m \<ge> endv"
    | "start \<le> End m" "Start m \<le> endv" "End m < endv" by linarith
  then show ?case
  proof cases
    case 1
    then have "{start .. endv} - ivs_set (m # ms) = {start .. endv} - ivs_set ms"
      by (auto simp: iv_set_def)
    with 1 Cons nms show ?thesis by simp
  next
    case 2
    then have "{start .. endv} \<inter> ivs_set (m # ms) = {}"
      using m by (auto simp: iv_set_def dest: hi)
    with 2 Cons.prems show ?thesis by (auto simp: normal_Cons iv_set_def)
  next
    case 3
    have "{start .. endv} - ivs_set (m # ms) = {start .. Start m - 1}"
      using 3 m by (auto simp: iv_set_def dest: hi)
    with 3 Cons.prems vm show ?thesis
      by (auto simp: normal_Cons iv_set_def i64_pred)
  next
    case 4
    have e: "i64 (End m + 1) = End m + 1" using 4 Cons.prems(4) vm by (intro i64_Suc) auto
    have ih: "normal (minus_loop ms (End m + 1) endv)"
      "ivs_set (minus_loop ms (End m + 1) endv) = {End m + 1 .. endv} - ivs_set ms"
      using Cons.IH [OF nms, of "End m + 1"] 4 Cons.prems vm by (auto simp: valid_iv_def)
    have lo: "End m + 1 \<le> Start p" if "p \<in> set (minus_loop ms (End m + 1) endv)" for p
    proof -
      have "Start p \<in> ivs_set (minus_loop ms (End m + 1) endv)"
        using that normal_valid [OF ih(1) that] by (auto simp: mem_ivs_set valid_iv_def intro!: bexI [of _ p])
      then show ?thesis using ih(2) by auto
    qed
    have "{start .. endv} - ivs_set (m # ms) =
        {start .. Start m - 1} \<union> ({End m + 1 .. endv} - ivs_set ms)"
      using 4 m by (auto simp: iv_set_def dest: hi)
    moreover have "Start m - 1 + 1 < Start p" if "p \<in> set (minus_loop ms (End m + 1) endv)" for p
      using lo [OF that] m by linarith
    ultimately show ?thesis
      using 4 e ih Cons.prems vm m by (auto simp: normal_Cons iv_set_def i64_pred)
  qed
qed

lemma minus_iv_correct:
  assumes "normal sub" "valid_iv iv"
  shows "normal (minus_iv iv sub)" "ivs_set (minus_iv iv sub) = iv_set iv - ivs_set sub"
  using minus_loop_correct [of sub "Start iv" "End iv"] assms
  by (auto simp: minus_iv_def valid_iv_def iv_set_def)

section \<open>Sets\<close>

lemma mem_gtids: "(u, n) \<in> gtids s \<longleftrightarrow> n \<in> ivs_set (slice_at s u)"
  by (simp add: gtids_def)

lemma wf_setD:
  assumes "wf_set s" "map_of s u = Some ivs"
  shows "uuid_ok u" "ivs \<noteq> []" "normal ivs"
  using assms by (auto simp: wf_set_def list_all_iff dest!: map_of_SomeD)

lemma wf_set_keys: "wf_set s \<Longrightarrow> keys_distinct s"
  by (simp add: wf_set_def)

lemma wf_setI:
  assumes "keys_distinct s"
    and "\<And>u ivs. map_of s u = Some ivs \<Longrightarrow> uuid_ok u \<and> ivs \<noteq> [] \<and> normal ivs"
  shows "wf_set s"
  using assms by (fastforce simp: wf_set_def list_all_iff map_of_keys_distinct)

lemma wf_set_Nil [simp]: "wf_set []"
  by (simp add: wf_set_def)

lemma gtids_Nil [simp]: "gtids [] = {}"
  by (simp add: gtids_def)

lemma wf_slice [simp]: "wf_set s \<Longrightarrow> normal (slice_at s u)"
  by (auto simp: slice_at_def dest: wf_setD split: option.splits)

lemma wf_set_update [simp]:
  assumes "wf_set s" "uuid_ok u" "ivs \<noteq> []" "normal ivs"
  shows "wf_set (AList.update u ivs s)"
proof (rule wf_setI)
  show "keys_distinct (AList.update u ivs s)" using assms by (simp add: wf_set_keys)
qed (use assms in \<open>auto dest: wf_setD split: if_splits\<close>)

lemma slice_at_Cons: "slice_at ((k, v) # m) k' = (if k' = k then v else slice_at m k')"
  by (simp add: slice_at_def)

lemma gtids_Cons:
  assumes "keys_distinct ((u, ivs) # s)"
  shows "gtids ((u, ivs) # s) = Pair u ` ivs_set ivs \<union> gtids s"
proof -
  have "map_of s u = None" using assms by (simp add: map_of_eq_None_iff)
  then have "slice_at s u = []" by (simp add: slice_at_def)
  then show ?thesis
    by (auto simp: mem_gtids slice_at_Cons split: if_splits)
qed

lemma wf_set_Cons:
  "wf_set ((u, ivs) # s) \<longleftrightarrow>
     u \<notin> fst ` set s \<and> uuid_ok u \<and> ivs \<noteq> [] \<and> normal ivs \<and> wf_set s"
  by (auto simp: wf_set_def)

lemma gtids_key: "(u, n) \<in> gtids s \<Longrightarrow> u \<in> fst ` set s"
  by (auto simp: gtids_def slice_at_def split: option.splits dest: map_of_SomeD intro: rev_image_eqI)

lemma finite_gtids [simp]: "finite (gtids s)"
proof -
  have "gtids s \<subseteq> (\<Union>u \<in> fst ` set s. Pair u ` ivs_set (slice_at s u))"
  proof
    fix t assume "t \<in> gtids s"
    then obtain u n where "t = (u, n)" "(u, n) \<in> gtids s" by (cases t) auto
    then show "t \<in> (\<Union>u \<in> fst ` set s. Pair u ` ivs_set (slice_at s u))"
      using gtids_key [of u n s] by (intro UN_I [of u]) (auto simp: mem_gtids)
  qed
  then show ?thesis by (rule finite_subset) simp
qed

lemma IsEmpty_iff: "wf_set s \<Longrightarrow> IsEmpty s \<longleftrightarrow> gtids s = {}"
proof (induction s)
  case Nil
  then show ?case by (simp add: IsEmpty_def)
next
  case (Cons a s)
  then show ?case
    by (cases a) (auto simp: IsEmpty_def wf_set_Cons gtids_Cons wf_set_keys ivs_set_empty normal_list_all)
qed

lemma Contains_iff:
  assumes "wf_set s" "wf_set other"
  shows "Contains s other \<longleftrightarrow> gtids other \<subseteq> gtids s"
  using assms
proof (induction s other rule: Contains.induct)
  case (1 s)
  then show ?case by simp
next
  case (2 s uuid ivs other)
  from "2.prems"(2) have o: "ivs \<noteq> []" "normal ivs" "wf_set other" "keys_distinct ((uuid, ivs) # other)"
    by (auto simp: wf_set_Cons dest: wf_set_keys)
  have ne: "ivs_set ivs \<noteq> {}" using o by (simp add: ivs_set_empty normal_list_all)
  have g: "gtids ((uuid, ivs) # other) \<subseteq> gtids s \<longleftrightarrow>
      ivs_set ivs \<subseteq> ivs_set (slice_at s uuid) \<and> gtids other \<subseteq> gtids s"
    using gtids_Cons [OF o(4)] by (auto simp: mem_gtids)
  show ?case
  proof (cases "map_of s uuid")
    case None
    then have "slice_at s uuid = []" by (simp add: slice_at_def)
    with None g ne o(1) show ?thesis by auto
  next
    case (Some mine)
    then have m: "slice_at s uuid = mine" "normal mine"
      using "2.prems"(1) by (auto simp: slice_at_def dest: wf_setD)
    have "list_all (intervalsCover mine) ivs \<longleftrightarrow> ivs_set ivs \<subseteq> ivs_set mine"
      using o(2) m(2) by (auto simp: list_all_iff intervalsCover_iff normal_valid ivs_set_def)
    with Some g m "2.IH" [OF Some _ "2.prems"(1) o(3)] show ?thesis by auto
  qed
qed

lemma Equal_iff: "wf_set s \<Longrightarrow> wf_set other \<Longrightarrow> Equal s other \<longleftrightarrow> gtids s = gtids other"
  by (auto simp: Equal_def Contains_iff)

text \<open>Two well-formed sets of the same transactions agree at every UUID.\<close>

lemma wf_set_unique:
  assumes "wf_set s" "wf_set t" "gtids s = gtids t"
  shows "map_of s = map_of t"
proof
  fix u
  have "ivs_set (slice_at s u) = ivs_set (slice_at t u)"
    using assms(3) by (auto simp: mem_gtids [symmetric])
  then have eq: "slice_at s u = slice_at t u"
    using assms by (intro normal_unique) auto
  show "map_of s u = map_of t u"
    using eq assms(1,2) wf_setD(2) by (fastforce simp: slice_at_def split: option.splits)
qed

subsection \<open>Union\<close>

lemma uuid_ok_lower: "uuid_ok u \<Longrightarrow> to_lower u = u"
  by (simp add: uuid_ok_def)

lemma AddInterval_correct:
  assumes "wf_set s" "uuid_ok u" "valid_iv iv"
  shows "wf_set (AddInterval s u iv)" "gtids (AddInterval s u iv) = gtids s \<union> Pair u ` iv_set iv"
proof -
  have v: "list_all valid_iv (slice_at s u @ [iv])"
    using assms by (simp add: normal_list_all)
  note n = normalizeIntervals_correct [OF v]
  show "wf_set (AddInterval s u iv)"
    using assms n by (simp add: AddInterval_def uuid_ok_lower)
  show "gtids (AddInterval s u iv) = gtids s \<union> Pair u ` iv_set iv"
    using assms(2) n by (auto simp: AddInterval_def uuid_ok_lower gtids_def split: if_splits)
qed

lemma add_intervals_correct:
  assumes "wf_set s" "uuid_ok u" "list_all valid_iv ivs"
  shows "wf_set (fold (\<lambda>iv s. AddInterval s u iv) ivs s) \<and>
    gtids (fold (\<lambda>iv s. AddInterval s u iv) ivs s) = gtids s \<union> Pair u ` ivs_set ivs"
  using assms by (induction ivs arbitrary: s) (auto simp: AddInterval_correct)

lemma Union_correct:
  assumes "wf_set s" "wf_set other"
  shows "wf_set (Union s other)" "gtids (Union s other) = gtids s \<union> gtids other"
proof -
  have "wf_set (Union s other) \<and> gtids (Union s other) = gtids s \<union> gtids other"
    using assms
  proof (induction other arbitrary: s)
    case Nil
    then show ?case by (simp add: Union_def)
  next
    case (Cons a other)
    obtain u ivs where a: "a = (u, ivs)" by force
    have o: "uuid_ok u" "normal ivs" "wf_set other" "keys_distinct ((u, ivs) # other)"
      using Cons.prems(2) a by (auto simp: wf_set_Cons dest: wf_set_keys)
    let ?s = "fold (\<lambda>iv s. AddInterval s u iv) ivs s"
    have s: "wf_set ?s" "gtids ?s = gtids s \<union> Pair u ` ivs_set ivs"
      using add_intervals_correct [OF Cons.prems(1) o(1)] o(2) by (auto simp: normal_list_all)
    show ?case
      using Cons.IH [OF s(1) o(3)] s(2) gtids_Cons [OF o(4)] a by (auto simp: Union_def)
  qed
  then show "wf_set (Union s other)" "gtids (Union s other) = gtids s \<union> gtids other" by auto
qed

subsection \<open>Difference, intersection, holes\<close>

lemma normal_append:
  "normal (xs @ ys) \<longleftrightarrow> normal xs \<and> normal ys \<and> (\<forall>x \<in> set xs. \<forall>y \<in> set ys. End x + 1 < Start y)"
  by (auto simp: normal_def sorted_wrt_append)

lemma normal_mem_bounds:
  assumes "normal ps" "p \<in> set ps" shows "Start p \<in> ivs_set ps" "End p \<in> ivs_set ps"
  using normal_valid [OF assms] assms(2)
  by (auto simp: mem_ivs_set valid_iv_def intro!: bexI [of _ p])

lemma minus_all_correct:
  assumes "normal ivs" "normal sub"
  shows "normal (concat (map (\<lambda>iv. minus_iv iv sub) ivs)) \<and>
    ivs_set (concat (map (\<lambda>iv. minus_iv iv sub) ivs)) = ivs_set ivs - ivs_set sub"
  using assms(1)
proof (induction ivs)
  case Nil
  then show ?case by simp
next
  case (Cons a ivs)
  let ?r = "concat (map (\<lambda>iv. minus_iv iv sub) ivs)"
  have a: "valid_iv a" "\<forall>m \<in> set ivs. End a + 1 < Start m" "normal ivs"
    using Cons.prems by (auto simp: normal_Cons)
  note m = minus_iv_correct [OF assms(2) a(1)]
  have ih: "normal ?r" "ivs_set ?r = ivs_set ivs - ivs_set sub" using Cons.IH a(3) by auto
  have hi: "End a + 1 < n" if "n \<in> ivs_set ivs" for n
    using that a(2) by (fastforce simp: mem_ivs_set)
  have "End x + 1 < Start y" if "x \<in> set (minus_iv a sub)" "y \<in> set ?r" for x y
  proof -
    have "End x \<in> iv_set a" using normal_mem_bounds(2) [OF m(1) that(1)] m(2) by auto
    moreover have "Start y \<in> ivs_set ivs" using normal_mem_bounds(1) [OF ih(1) that(2)] ih(2) by auto
    ultimately show ?thesis using hi by (fastforce simp: iv_set_def)
  qed
  then show ?case using m ih by (auto simp: normal_append)
qed

lemma Difference_map_of:
  assumes "wf_set s"
  shows "slice_at (Difference s other) u =
    concat (map (\<lambda>iv. minus_iv iv (slice_at other u)) (slice_at s u))"
  using wf_set_keys [OF assms]
  by (auto simp: Difference_def slice_at_def map_of_range_store Let_def split: option.splits)

lemma Difference_correct:
  assumes "wf_set s" "wf_set other"
  shows "wf_set (Difference s other)" "gtids (Difference s other) = gtids s - gtids other"
proof -
  have sl: "normal (slice_at (Difference s other) u) \<and>
      ivs_set (slice_at (Difference s other) u) = ivs_set (slice_at s u) - ivs_set (slice_at other u)"
    for u
    using minus_all_correct [of "slice_at s u" "slice_at other u"] assms
    by (simp add: Difference_map_of)
  then show "gtids (Difference s other) = gtids s - gtids other"
    by (auto simp: gtids_def)
  show "wf_set (Difference s other)"
  proof (rule wf_setI)
    show "keys_distinct (Difference s other)"
      by (simp add: Difference_def)
  next
    fix u ivs
    assume m: "map_of (Difference s other) u = Some ivs"
    then have "ivs \<noteq> []" "map_of s u \<noteq> None"
      using wf_set_keys [OF assms(1)]
      by (auto simp: Difference_def map_of_range_store Let_def split: option.splits if_splits)
    moreover have "normal ivs" using sl [of u] m by (simp add: slice_at_def)
    ultimately show "uuid_ok u \<and> ivs \<noteq> [] \<and> normal ivs"
      using wf_setD(1) [OF assms(1)] by auto
  qed
qed

lemma Intersect_correct:
  assumes "wf_set s" "wf_set other"
  shows "wf_set (Intersect s other)" "gtids (Intersect s other) = gtids s \<inter> gtids other"
  using assms by (auto simp: Intersect_def Difference_correct)

lemma Clone_correct: "wf_set s \<Longrightarrow> map_of (Clone s) = map_of s"
  by (rule ext) (auto simp: Clone_def map_of_range_store wf_set_keys split: option.splits)

lemma holes_of_correct:
  assumes "normal ivs"
  shows "normal (holes_of ivs) \<and>
    ivs_set (holes_of ivs) = {n. n \<notin> ivs_set ivs \<and> (\<exists>a \<in> ivs_set ivs. a < n) \<and> (\<exists>b \<in> ivs_set ivs. n < b)} \<and>
    (ivs \<noteq> [] \<longrightarrow> (\<forall>h \<in> set (holes_of ivs). End (hd ivs) < Start h))"
  using assms
proof (induction ivs rule: holes_of.induct)
  case (1 a b ivs)
  let ?H = "\<lambda>ivs. {n. n \<notin> ivs_set ivs \<and> (\<exists>a \<in> ivs_set ivs. a < n) \<and> (\<exists>b \<in> ivs_set ivs. n < b)}"
  have v: "valid_iv a" "valid_iv b" "normal (b # ivs)" "End a + 1 < Start b"
    "\<forall>m \<in> set (b # ivs). End a + 1 < Start m"
    using "1.prems" by (auto simp: normal_Cons)
  have e: "i64 (End a + 1) = End a + 1" "i64 (Start b - 1) = Start b - 1"
    using v by (auto simp: i64_pred intro!: i64_Suc) (auto simp: valid_iv_def)
  note b = normal_Cons_set [OF v(3)]
  note ih = "1.IH" [OF v(3)]
  have hi: "Start b \<le> n" if "n \<in> ivs_set (b # ivs)" for n using b(4) that .
  have va: "Start a \<le> End a" "Start b \<le> End b" using v by (auto simp: valid_iv_def)
  have "?H (a # b # ivs) = {End a + 1 .. Start b - 1} \<union> ?H (b # ivs)"
  proof (intro set_eqI iffI)
    fix n assume n: "n \<in> ?H (a # b # ivs)"
    then have "n \<notin> iv_set a" "n \<notin> ivs_set (b # ivs)" by auto
    moreover have "Start a < n" using n hi v(4) va by (fastforce simp: iv_set_def)
    ultimately have "End a < n" by (auto simp: iv_set_def)
    show "n \<in> {End a + 1 .. Start b - 1} \<union> ?H (b # ivs)"
    proof (cases "n < Start b")
      case True
      then show ?thesis using \<open>End a < n\<close> by auto
    next
      case False
      then have "Start b < n" using \<open>n \<notin> ivs_set (b # ivs)\<close> b(1) by (metis linorder_less_linear)
      moreover obtain c where "c \<in> ivs_set (a # b # ivs)" "n < c" using n by blast
      moreover from this have "c \<in> ivs_set (b # ivs)" using \<open>End a < n\<close> by (auto simp: iv_set_def)
      ultimately show ?thesis using b(1) \<open>n \<notin> ivs_set (b # ivs)\<close> by blast
    qed
  next
    fix n assume n: "n \<in> {End a + 1 .. Start b - 1} \<union> ?H (b # ivs)"
    then consider "End a + 1 \<le> n" "n \<le> Start b - 1" | "n \<in> ?H (b # ivs)" by auto
    then show "n \<in> ?H (a # b # ivs)"
    proof cases
      case 1
      then have "n \<notin> ivs_set (b # ivs)" using hi by fastforce
      moreover have "n \<notin> iv_set a" using 1 by (auto simp: iv_set_def)
      moreover have "End a \<in> iv_set a" using va by (simp add: iv_set_def)
      ultimately show ?thesis using 1 b(1)
        by (auto intro: bexI [of _ "End a"] bexI [of _ "Start b"])
    next
      case 2
      then obtain c where "c \<in> ivs_set (b # ivs)" "c < n" by blast
      then have "Start b \<le> c" by (intro hi)
      then have "n \<notin> iv_set a" using \<open>c < n\<close> v(4) by (auto simp: iv_set_def)
      then show ?thesis using 2 by auto
    qed
  qed
  then have s: "ivs_set (holes_of (a # b # ivs)) = ?H (a # b # ivs)"
    using ih e by (simp only: holes_of.simps ivs_set_simps iv_set_def mk_iv_simps)
  have lo: "\<forall>h \<in> set (holes_of (b # ivs)). End b < Start h" using ih by simp
  have "End a < Start h" if "h \<in> set (holes_of (a # b # ivs))" for h
    using that lo v(4) va e by fastforce
  moreover have "normal (holes_of (a # b # ivs))"
  proof -
    have "valid_iv (mk_iv (End a + 1) (Start b - 1))" using v by (auto simp: valid_iv_def)
    moreover have "\<forall>h \<in> set (holes_of (b # ivs)). Start b - 1 + 1 < Start h" using lo va by fastforce
    ultimately show ?thesis using ih e by (simp add: normal_Cons)
  qed
  ultimately show ?case using s by simp
next
  case "2_1"
  then show ?case by simp
next
  case "2_2"
  have "{n. n \<notin> iv_set v \<and> (\<exists>a \<in> iv_set v. a < n) \<and> (\<exists>b \<in> iv_set v. n < b)} = {}" for v
    by (auto simp: iv_set_def)
  then show ?case by simp
qed

lemma holes_of_short: "\<not> 1 < length ivs \<Longrightarrow> holes_of ivs = []"
  by (cases ivs rule: holes_of.cases) auto

lemma Holes_slice: "wf_set s \<Longrightarrow> slice_at (Holes s) u = holes_of (slice_at s u)"
  by (auto simp: Holes_def slice_at_def map_of_range_store wf_set_keys holes_of_short
      split: option.splits)

lemma Holes_correct:
  assumes "wf_set s"
  shows "wf_set (Holes s)"
    "gtids (Holes s) = {(u, n). (u, n) \<notin> gtids s \<and> (\<exists>a. (u, a) \<in> gtids s \<and> a < n) \<and>
       (\<exists>b. (u, b) \<in> gtids s \<and> n < b)}"
proof -
  note h = holes_of_correct [OF wf_slice [OF assms]]
  show "gtids (Holes s) = {(u, n). (u, n) \<notin> gtids s \<and> (\<exists>a. (u, a) \<in> gtids s \<and> a < n) \<and>
       (\<exists>b. (u, b) \<in> gtids s \<and> n < b)}"
    using h by (auto simp: gtids_def Holes_slice [OF assms])
  show "wf_set (Holes s)"
  proof (rule wf_setI)
    show "keys_distinct (Holes s)" by (simp add: Holes_def)
  next
    fix u ivs
    assume m: "map_of (Holes s) u = Some ivs"
    then obtain jvs where "map_of s u = Some jvs" "ivs = holes_of jvs" "1 < length jvs"
      using wf_set_keys [OF assms]
      by (auto simp: Holes_def map_of_range_store split: option.splits if_splits)
    note j = this
    have "normal ivs" using wf_setD(3) [OF assms j(1)] j(2) holes_of_correct by blast
    moreover have "ivs \<noteq> []" using j(2,3) by (cases jvs rule: holes_of.cases) auto
    ultimately show "uuid_ok u \<and> ivs \<noteq> [] \<and> normal ivs" using wf_setD(1) [OF assms j(1)] by simp
  qed
qed

subsection \<open>Counting\<close>

lemma missing_intervals_correct:
  assumes "normal mine" "normal ivs" "0 \<le> missing" "missing \<le> MaxInt64"
  shows "missing_intervals mine ivs missing =
    (let total = missing + int (card (ivs_set ivs - ivs_set mine))
     in if total > MaxInt64 then Inl MaxInt64 else Inr total)"
  using assms(2-4)
proof (induction ivs arbitrary: missing)
  case Nil
  then show ?case by simp
next
  case (Cons iv ivs)
  have v: "valid_iv iv" "normal ivs" "\<forall>m \<in> set ivs. End iv + 1 < Start m"
    using Cons.prems(1) by (auto simp: normal_Cons)
  let ?n = "int (card (iv_set iv - ivs_set mine))"
  have n: "uncoveredBy iv mine = ?n" using assms(1) v(1) by (rule uncoveredBy_correct)
  have "card (iv_set iv - ivs_set mine) \<le> card (iv_set iv)" by (rule card_mono) auto
  moreover have "int (card (iv_set iv)) \<le> MaxInt64"
    using v(1) by (subst card_iv_set) (auto simp: valid_iv_def)
  ultimately have nb: "0 \<le> ?n" "?n \<le> MaxInt64" by linarith+
  then have m: "i64 (MaxInt64 - ?n) = MaxInt64 - ?n"
    by (intro i64_id) (auto simp: MaxInt64_def)
  have disj: "iv_set iv \<inter> ivs_set ivs = {}"
    using v(3) by (fastforce simp: iv_set_def mem_ivs_set)
  have "ivs_set (iv # ivs) - ivs_set mine = (iv_set iv - ivs_set mine) \<union> (ivs_set ivs - ivs_set mine)"
    by auto
  then have card: "int (card (ivs_set (iv # ivs) - ivs_set mine)) =
      ?n + int (card (ivs_set ivs - ivs_set mine))"
    using disj by (simp add: card_Un_disjoint disjoint_iff)
  show ?case
  proof (cases "missing > MaxInt64 - ?n")
    case True
    then show ?thesis using n m card by (simp add: Let_def)
  next
    case False
    then have "i64 (missing + ?n) = missing + ?n"
      using nb Cons.prems by (intro i64_id) (auto simp: MaxInt64_def)
    then show ?thesis
      using False n m card nb Cons.prems Cons.IH [OF v(2), of "missing + ?n"] by (simp add: Let_def)
  qed
qed

lemma missing_loop_correct:
  assumes "wf_set s" "wf_set other" "0 \<le> missing" "missing \<le> MaxInt64"
  shows "missing_loop s other missing = min MaxInt64 (missing + int (card (gtids other - gtids s)))"
  using assms
proof (induction s other missing rule: missing_loop.induct)
  case (1 s missing)
  then show ?case by simp
next
  case (2 s uuid ivs other missing)
  have o: "normal ivs" "wf_set other" "keys_distinct ((uuid, ivs) # other)" "uuid \<notin> fst ` set other"
    using "2.prems"(2) by (auto simp: wf_set_Cons dest: wf_set_keys)
  let ?d = "ivs_set ivs - ivs_set (slice_at s uuid)"
  have "gtids ((uuid, ivs) # other) - gtids s = Pair uuid ` ?d \<union> (gtids other - gtids s)"
    using gtids_Cons [OF o(3)] by (auto simp: mem_gtids)
  moreover have "Pair uuid ` ?d \<inter> (gtids other - gtids s) = {}"
    using o(4) by (auto dest: gtids_key)
  ultimately have card: "int (card (gtids ((uuid, ivs) # other) - gtids s)) =
      int (card ?d) + int (card (gtids other - gtids s))"
    by (simp add: card_Un_disjoint card_image inj_on_def)
  have mi: "missing_intervals (slice_at s uuid) ivs missing =
    (let total = missing + int (card ?d) in if total > MaxInt64 then Inl MaxInt64 else Inr total)"
    using "2.prems" o by (intro missing_intervals_correct) auto
  show ?case
  proof (cases "missing + int (card ?d) > MaxInt64")
    case True
    then show ?thesis using mi card by simp
  next
    case False
    then have "missing_intervals (slice_at s uuid) ivs missing = Inr (missing + int (card ?d))"
      using mi by simp
    from "2.IH" [OF this "2.prems"(1) o(2)] this False "2.prems"(3) card show ?thesis
      by (simp add: add.assoc)
  qed
qed

lemma MissingCount_correct:
  "wf_set s \<Longrightarrow> wf_set other \<Longrightarrow>
   MissingCount s other = min MaxInt64 (int (card (gtids other - gtids s)))"
  by (simp add: MissingCount_def missing_loop_correct)

section \<open>Parsing\<close>

definition pre_wf :: "GTIDSet \<Rightarrow> bool" where
  "pre_wf s \<longleftrightarrow> keys_distinct s \<and>
     (\<forall>u ivs. map_of s u = Some ivs \<longrightarrow> uuid_ok u \<and> ivs \<noteq> [] \<and> list_all valid_iv ivs)"

lemma parseInterval_valid: "parseInterval s = Inr iv \<Longrightarrow> valid_iv iv"
  by (auto simp: parseInterval_def Let_def split: prod.splits sum.splits if_splits dest: ParseInt_Inr_le)

lemma pre_wf_slice: "pre_wf s \<Longrightarrow> list_all valid_iv (slice_at s u)"
  by (auto simp: pre_wf_def slice_at_def split: option.splits)

lemma pre_wf_update:
  "pre_wf s \<Longrightarrow> uuid_ok u \<Longrightarrow> valid_iv iv \<Longrightarrow> pre_wf (AList.update u (slice_at s u @ [iv]) s)"
  using pre_wf_slice by (auto simp: pre_wf_def)

lemma parse_intervals_pre_wf:
  "parse_intervals raw u parts acc = Inr acc' \<Longrightarrow> uuid_ok u \<Longrightarrow> pre_wf acc \<Longrightarrow> pre_wf acc'"
  by (induction raw u parts acc rule: parse_intervals.induct)
    (auto split: sum.splits dest: parseInterval_valid intro: pre_wf_update)

lemma uuid_ok_to_lower:
  assumes "u \<noteq> []" "CHR '','' \<notin> set u" "CHR '':'' \<notin> set u" "\<And>c. c \<in> set u \<Longrightarrow> \<not> is_gtid_space c"
  shows "uuid_ok (to_lower u)"
proof -
  have "lower_char c \<noteq> d" if "c \<in> set u" "d \<in> {CHR '','', CHR '':'', CHR '' '', CHR 0x0A, CHR 0x0D, CHR 0x09}" for c d
  proof -
    have "c \<noteq> d" using that assms by (auto simp: is_gtid_space_def)
    moreover have "\<not> (CHR ''a'' \<le> d \<and> d \<le> CHR ''z'')" using that(2) by (auto simp: less_eq_char_def)
    ultimately show ?thesis using lower_char_special by blast
  qed
  then show ?thesis
    using assms(1) by (auto simp: uuid_ok_def list_all_iff to_lower_def is_gtid_space_def)
qed

lemma parse_uuid_sets_pre_wf:
  assumes "parse_uuid_sets raw us acc = Inr acc'" "pre_wf acc"
    "\<forall>t \<in> set us. CHR '','' \<notin> set t \<and> (\<forall>c \<in> set t. \<not> is_gtid_space c)"
  shows "pre_wf acc'"
  using assms
proof (induction raw us acc rule: parse_uuid_sets.induct)
  case (1 raw acc)
  then show ?case by simp
next
  case (2 raw t rest acc)
  let ?parts = "split_on CHR '':'' t"
  have p: "\<not> length ?parts < 2" "to_lower (hd ?parts) \<noteq> []"
    using "2.prems"(1) by (auto simp: Let_def split: if_splits)
  obtain acc1 where a: "parse_intervals raw (to_lower (hd ?parts)) (tl ?parts) acc = Inr acc1"
      "parse_uuid_sets raw rest acc1 = Inr acc'"
    using "2.prems"(1) p by (auto simp: Let_def go_simps split: if_splits)
  have h: "hd ?parts \<in> set ?parts" by simp
  have "uuid_ok (to_lower (hd ?parts))"
    using split_on_parts [OF h] "2.prems"(3) p(2) by (intro uuid_ok_to_lower) auto
  then have "pre_wf acc1" using a(1) "2.prems"(2) by (auto intro: parse_intervals_pre_wf)
  then show ?case using "2.IH" [OF refl p(1) refl p(2) a(2)] "2.prems"(3) by simp
qed

lemma wf_set_normalize:
  assumes "pre_wf s" shows "wf_set (map (\<lambda>(u, ivs). (u, normalizeIntervals ivs)) s)"
proof (rule wf_setI)
  show "keys_distinct (map (\<lambda>(u, ivs). (u, normalizeIntervals ivs)) s)"
    using assms by (simp add: pre_wf_def)
qed (use assms in \<open>auto simp: map_of_map_value pre_wf_def normalizeIntervals_correct\<close>)

lemma ParseGTIDSet_wf: "ParseGTIDSet raw = Inr s \<Longrightarrow> wf_set s"
proof -
  assume p: "ParseGTIDSet raw = Inr s"
  have ok: "\<forall>t \<in> set (split_on CHR '','' (strip_spaces raw)).
      CHR '','' \<notin> set t \<and> (\<forall>c \<in> set t. \<not> is_gtid_space c)"
    using split_on_parts by (fastforce simp: strip_spaces_def)
  show "wf_set s"
  proof (cases "strip_spaces raw = []")
    case True
    with p show ?thesis by (simp add: ParseGTIDSet_def)
  next
    case False
    with p obtain acc where acc: "parse_uuid_sets raw (split_on CHR '','' (strip_spaces raw)) [] = Inr acc"
      "s = map (\<lambda>(u, ivs). (u, normalizeIntervals ivs)) acc"
      by (auto simp: ParseGTIDSet_def Let_def go_simps)
    have "pre_wf []" by (simp add: pre_wf_def)
    then have "pre_wf acc" using parse_uuid_sets_pre_wf [OF acc(1)] ok by blast
    then show ?thesis using acc(2) by (simp add: wf_set_normalize)
  qed
qed

section \<open>Printing\<close>

lemma FormatInt_nonneg: "0 \<le> i \<Longrightarrow> FormatInt i = FormatUint (nat i)"
  by (simp add: FormatInt_def)

lemma interval_string_chars:
  assumes "valid_iv iv" "c \<in> set (interval_string iv)" shows "is_digit c \<or> c = CHR ''-''"
  using assms
  by (auto simp: interval_string_def FormatInt_nonneg valid_iv_def split: if_splits dest: FormatUint_digits)

lemma interval_string_notin:
  "valid_iv iv \<Longrightarrow> \<not> is_digit c \<Longrightarrow> c \<noteq> CHR ''-'' \<Longrightarrow> c \<notin> set (interval_string iv)"
  using interval_string_chars by blast

lemma parseInterval_interval_string:
  assumes "valid_iv iv" shows "parseInterval (interval_string iv) = Inr iv"
proof -
  have b: "0 \<le> Start iv" "Start iv \<le> MaxInt64" "0 \<le> End iv" "End iv \<le> MaxInt64"
    using assms by (auto simp: valid_iv_def)
  have d: "CHR ''-'' \<notin> set (FormatInt (Start iv))" using b by (simp add: FormatInt_nonneg)
  have r: "mk_iv (Start iv) (End iv) = iv" by (simp add: mk_iv_def)
  show ?thesis
  proof (cases "Start iv = End iv")
    case True
    then show ?thesis
      using d b assms r by (simp add: interval_string_def parseInterval_def valid_iv_def)
  next
    case False
    then show ?thesis
      using d b assms r by (simp add: interval_string_def parseInterval_def valid_iv_def)
  qed
qed

lemma split_uuid_string:
  assumes "uuid_ok u" "list_all valid_iv ivs"
  shows "split_on CHR '':'' (uuid_string u ivs) = u # map interval_string ivs"
proof -
  have u: "CHR '':'' \<notin> set u" using assms(1) by (auto simp: uuid_ok_def list_all_iff)
  have "split_on CHR '':'' (w @ concat (map (\<lambda>iv. CHR '':'' # interval_string iv) ivs)) =
      w # map interval_string ivs" if "CHR '':'' \<notin> set w" for w
    using assms(2) that
    by (induction ivs arbitrary: w) (auto simp: split_on_append interval_string_notin)
  then show ?thesis using u by (simp add: uuid_string_def)
qed

lemma parse_intervals_print:
  assumes "list_all valid_iv ivs"
  shows "parse_intervals raw u (map interval_string ivs) acc =
    Inr (if ivs = [] then acc else AList.update u (slice_at acc u @ ivs) acc)"
  using assms
proof (induction ivs arbitrary: acc)
  case Nil
  then show ?case by simp
next
  case (Cons iv ivs)
  then show ?case by (simp add: parseInterval_interval_string)
qed

lemma update_append: "u \<notin> fst ` set acc \<Longrightarrow> AList.update u v acc = acc @ [(u, v)]"
  by (induction acc) auto

lemma slice_at_notin: "u \<notin> fst ` set acc \<Longrightarrow> slice_at acc u = []"
proof -
  assume "u \<notin> fst ` set acc"
  then have "map_of acc u = None" by (simp add: map_of_eq_None_iff)
  then show ?thesis by (simp add: slice_at_def)
qed

lemma parse_uuid_sets_print:
  assumes "distinct us" "\<forall>u \<in> set us. uuid_ok u \<and> f u \<noteq> [] \<and> list_all valid_iv (f u)"
    "set us \<inter> fst ` set acc = {}"
  shows "parse_uuid_sets raw (map (\<lambda>u. uuid_string u (f u)) us) acc =
    Inr (acc @ map (\<lambda>u. (u, f u)) us)"
  using assms
proof (induction us arbitrary: acc)
  case Nil
  then show ?case by simp
next
  case (Cons u us)
  have u: "uuid_ok u" "f u \<noteq> []" "list_all valid_iv (f u)" "u \<notin> fst ` set acc"
    using Cons.prems by auto
  have ne: "u \<noteq> []" using u(1) by (simp add: uuid_ok_def)
  have "parse_uuid_sets raw (map (\<lambda>u. uuid_string u (f u)) us) (acc @ [(u, f u)]) =
      Inr ((acc @ [(u, f u)]) @ map (\<lambda>u. (u, f u)) us)"
    using Cons.prems by (intro Cons.IH) auto
  then show ?case
    using u ne by (simp add: split_uuid_string Let_def parse_intervals_print uuid_ok_lower
        slice_at_notin update_append)
qed

lemma wf_set_nonempty_keys:
  "wf_set s \<Longrightarrow> map fst (filter (\<lambda>(_, intervals). 0 < length intervals) s) = map fst s"
  by (induction s) (auto simp: wf_set_Cons)

lemma GTIDSet_String_wf:
  "wf_set s \<Longrightarrow> GTIDSet_String s =
     join_with '','' (map (\<lambda>u. uuid_string u (slice_at s u)) (sort (map fst s)))"
  unfolding GTIDSet_String_def Let_def by (subst wf_set_nonempty_keys) simp_all

lemma wf_key:
  assumes "wf_set s" "u \<in> fst ` set s"
  shows "uuid_ok u" "slice_at s u \<noteq> []" "list_all valid_iv (slice_at s u)"
proof -
  obtain ivs where m: "map_of s u = Some ivs"
    using assms by (metis map_of_eq_None_iff not_None_eq)
  then show "uuid_ok u" "slice_at s u \<noteq> []" "list_all valid_iv (slice_at s u)"
    using wf_setD [OF assms(1) m] by (auto simp: slice_at_def normal_list_all)
qed

lemma uuid_string_chars:
  assumes "uuid_ok u" "list_all valid_iv ivs" "c \<in> set (uuid_string u ivs)"
  shows "c \<noteq> CHR '',''" "\<not> is_gtid_space c"
proof -
  consider "c \<in> set u" | "c = CHR '':''" | "is_digit c \<or> c = CHR ''-''"
    using assms(2,3) by (auto simp: uuid_string_def list_all_iff split: if_splits dest: interval_string_chars)
  then show "c \<noteq> CHR '',''" "\<not> is_gtid_space c"
    using assms(1) by (cases; fastforce simp: uuid_ok_def list_all_iff is_gtid_space_def)+
qed

lemma map_of_keyed:
  assumes "set us = fst ` set s" "\<forall>u \<in> set us. slice_at s u \<noteq> []"
  shows "map_of (map (\<lambda>u. (u, slice_at s u)) us) = map_of s"
proof
  fix u
  show "map_of (map (\<lambda>u. (u, slice_at s u)) us) u = map_of s u"
  proof (cases "u \<in> set us")
    case True
    then have "map_of s u \<noteq> None" using assms by (simp add: map_of_eq_None_iff)
    with True show ?thesis by (auto simp: map_of_map_restrict slice_at_def)
  next
    case False
    then have "map_of s u = None" using assms by (simp add: map_of_eq_None_iff)
    with False show ?thesis by (simp add: map_of_map_restrict)
  qed
qed

lemma ParseGTIDSet_String:
  assumes "wf_set s"
  shows "ParseGTIDSet (GTIDSet_String s) = Inr (map (\<lambda>u. (u, slice_at s u)) (sort (map fst s)))"
proof (cases "s = []")
  case True
  then show ?thesis by (simp add: GTIDSet_String_def ParseGTIDSet_def strip_spaces_def)
next
  case False
  let ?us = "sort (map fst s)" let ?str = "\<lambda>u. uuid_string u (slice_at s u)"
  have d: "distinct ?us" using wf_set_keys [OF assms] by (simp add: keys_distinct_def)
  have k: "\<forall>u \<in> set ?us. uuid_ok u \<and> slice_at s u \<noteq> [] \<and> list_all valid_iv (slice_at s u)"
    using wf_key [OF assms] by auto
  have nc: "c \<noteq> CHR '','' \<and> \<not> is_gtid_space c" if "u \<in> set ?us" "c \<in> set (?str u)" for u c
    using uuid_string_chars that k by blast
  have ns: "\<not> is_gtid_space c" if "c \<in> set (GTIDSet_String s)" for c
  proof -
    have "c \<in> set '','' \<union> \<Union> (set ` set (map ?str ?us))"
      using that set_join_with unfolding GTIDSet_String_wf [OF assms] by blast
    then show ?thesis using nc by (auto simp: is_gtid_space_def)
  qed
  have usne: "?us \<noteq> []" using False by (metis length_0_conv length_map length_sort)
  have ne: "GTIDSet_String s \<noteq> []"
  proof -
    have "?str u \<noteq> []" if "u \<in> set ?us" for u
      using k that by (auto simp: uuid_string_def uuid_ok_def)
    then show ?thesis
      unfolding GTIDSet_String_wf [OF assms] using usne by (subst join_with_eq_Nil) auto
  qed
  have sp: "split_on CHR '','' (GTIDSet_String s) = map ?str ?us"
    unfolding GTIDSet_String_wf [OF assms] using usne nc by (intro split_on_join) auto
  have "parse_uuid_sets (GTIDSet_String s) (map ?str ?us) [] = Inr ([] @ map (\<lambda>u. (u, slice_at s u)) ?us)"
    using d k by (intro parse_uuid_sets_print) auto
  then show ?thesis
    using ne sp ns assms by (simp add: ParseGTIDSet_def Let_def comp_def)
qed

lemma GTIDSet_String_cong:
  assumes "wf_set s" "wf_set t" "map_of s = map_of t"
  shows "GTIDSet_String s = GTIDSet_String t"
proof -
  have "fst ` set s = fst ` set t" using assms(3) by (metis dom_map_of_conv_image_fst)
  then have "sort (map fst s) = sort (map fst t)"
    using wf_set_keys [OF assms(1)] wf_set_keys [OF assms(2)]
    by (intro sorted_distinct_set_unique) (auto simp: keys_distinct_def)
  moreover have "slice_at s = slice_at t" using assms(3) by (auto simp: slice_at_def fun_eq_iff)
  ultimately show ?thesis using assms(1,2) by (simp add: GTIDSet_String_wf)
qed

lemma GTIDSet_String_eq_iff:
  assumes "wf_set s" "wf_set t"
  shows "GTIDSet_String s = GTIDSet_String t \<longleftrightarrow> gtids s = gtids t"
proof
  assume eq: "GTIDSet_String s = GTIDSet_String t"
  have "slice_at s = slice_at t"
  proof
    fix u
    have "map (\<lambda>u. (u, slice_at s u)) (sort (map fst s)) = map (\<lambda>u. (u, slice_at t u)) (sort (map fst t))"
      using eq ParseGTIDSet_String [OF assms(1)] ParseGTIDSet_String [OF assms(2)] by simp
    moreover have "map_of (map (\<lambda>u. (u, slice_at s u)) (sort (map fst s))) = map_of s"
      using wf_key(2) [OF assms(1)] by (intro map_of_keyed) auto
    moreover have "map_of (map (\<lambda>u. (u, slice_at t u)) (sort (map fst t))) = map_of t"
      using wf_key(2) [OF assms(2)] by (intro map_of_keyed) auto
    ultimately show "slice_at s u = slice_at t u" by (simp add: slice_at_def)
  qed
  then show "gtids s = gtids t" by (simp add: gtids_def)
next
  assume "gtids s = gtids t"
  then show "GTIDSet_String s = GTIDSet_String t"
    using assms by (intro GTIDSet_String_cong wf_set_unique)
qed

lemma parse_print:
  assumes "wf_set s"
  shows "\<exists>t. ParseGTIDSet (GTIDSet_String s) = Inr t \<and> wf_set t \<and> gtids t = gtids s \<and> map_of t = map_of s"
proof -
  let ?t = "map (\<lambda>u. (u, slice_at s u)) (sort (map fst s))"
  have m: "map_of ?t = map_of s" using wf_key(2) [OF assms] by (intro map_of_keyed) auto
  moreover have "gtids ?t = gtids s" using m by (simp add: gtids_def slice_at_def)
  ultimately show ?thesis using ParseGTIDSet_String [OF assms] ParseGTIDSet_wf by blast
qed

section \<open>Properties\<close>

lemma coalesce_sorted_perm:
  assumes "list_all valid_iv ivs" "mset (iv # rest) = mset ivs" "sorted (map Start (iv # rest))"
  shows "coalesce iv rest = normalizeIntervals ivs"
proof -
  have st: "set (iv # rest) = set ivs" using assms(2) by (metis set_mset_mset)
  then have v: "valid_iv iv" "list_all valid_iv rest" using assms(1) by (auto simp: list_all_iff)
  note c = coalesce_correct [OF v assms(3)]
  have "ivs_set (iv # rest) = ivs_set ivs" using st by (simp only: ivs_set_def)
  then show ?thesis
    using c normalizeIntervals_correct [OF assms(1)] by (intro normal_unique) auto
qed

lemma GTIDContains_parsed:
  "ParseGTIDSet a = Inr A \<Longrightarrow> ParseGTIDSet b = Inr B \<Longrightarrow>
   GTIDContains a b = Inr (gtids B \<subseteq> gtids A)"
  by (simp add: GTIDContains_def Contains_iff ParseGTIDSet_wf)

lemma union_strings_correct:
  assumes "list_all2 (\<lambda>raw s. ParseGTIDSet raw = Inr s) raws ss" "wf_set u"
  shows "\<exists>v. union_strings u raws = Inr v \<and> wf_set v \<and> gtids v = gtids u \<union> \<Union> (gtids ` set ss)"
  using assms
proof (induction raws ss arbitrary: u rule: list_all2_induct)
  case Nil
  then show ?case by simp
next
  case (Cons raw raws s ss)
  have "wf_set s" using Cons.hyps(1) by (rule ParseGTIDSet_wf)
  then obtain v where "union_strings (Union u s) raws = Inr v" "wf_set v"
      "gtids v = gtids (Union u s) \<union> \<Union> (gtids ` set ss)"
    using Cons.IH [of "Union u s"] Cons.prems by (auto simp: Union_correct)
  then show ?case using Cons.hyps(1) Cons.prems \<open>wf_set s\<close> by (auto simp: Union_correct)
qed

lemma UnionGTIDStrings_correct:
  assumes "list_all2 (\<lambda>raw s. ParseGTIDSet raw = Inr s) raws ss"
  shows "\<exists>out t. UnionGTIDStrings raws = Inr out \<and> ParseGTIDSet out = Inr t \<and>
    gtids t = \<Union> (gtids ` set ss)"
proof -
  obtain v where v: "union_strings [] raws = Inr v" "wf_set v" "gtids v = \<Union> (gtids ` set ss)"
    using union_strings_correct [OF assms wf_set_Nil] by auto
  then show ?thesis using parse_print [OF v(2)] by (auto simp: UnionGTIDStrings_def)
qed

text \<open>\<open>normalizeIntervals\<close> returns the canonical list of its input: sorted, coalesced (a gap
  between any two intervals), the same transactions; and the result does not depend on the order
  in which the unstable \<open>sort.Slice\<close> leaves intervals with equal starts. No addition in it
  overflows, the interval ending at \<open>MaxInt64\<close> included.
\<close>

theorem normalizeIntervals_canonical:
  assumes "list_all valid_iv ivs" "mset (iv # rest) = mset ivs" "sorted (map Start (iv # rest))"
  shows "normal (normalizeIntervals ivs) \<and> ivs_set (normalizeIntervals ivs) = ivs_set ivs \<and>
    coalesce iv rest = normalizeIntervals ivs"
  using normalizeIntervals_correct [OF assms(1)] coalesce_sorted_perm [OF assms] by simp

theorem normalizeIntervals_canonical_witness:
  "coalesce (mk_iv 1 9223372036854775807) [mk_iv 1 2] =
     normalizeIntervals [mk_iv 1 2, mk_iv 1 9223372036854775807] \<and>
   normal (normalizeIntervals [mk_iv 1 2, mk_iv 1 9223372036854775807])"
proof -
  let ?a = "mk_iv 1 2" and ?b = "mk_iv 1 9223372036854775807"
  have h: "list_all valid_iv [?a, ?b]" by (simp add: MaxInt64_def)
  have m: "mset (?b # [?a]) = mset [?a, ?b]" by (simp only: mset.simps add_mset_commute)
  have "sorted (map Start (?b # [?a]))" by simp
  from normalizeIntervals_canonical [OF h m this] show ?thesis by blast
qed



text \<open>
  C15. \<open>MissingCount\<close> is the number of transactions of \<open>other\<close> that \<open>s\<close> lacks, saturated at
  \<open>MaxInt64\<close>: the running sum never wraps to a negative count, whatever order the map is visited in.
\<close>

theorem MissingCount_saturates:
  assumes "wf_set s" "wf_set other"
  shows "MissingCount s other = min MaxInt64 (int (card (gtids other - gtids s)))"
  using assms by (rule MissingCount_correct)

theorem MissingCount_saturates_witness:
  "MissingCount [] [(''a'', [mk_iv 1 9223372036854775807]), (''b'', [mk_iv 1 5])] =
     min MaxInt64 (int (card (gtids [(''a'', [mk_iv 1 9223372036854775807]), (''b'', [mk_iv 1 5])] - gtids []))) \<and>
   MissingCount [] [(''a'', [mk_iv 1 9223372036854775807]), (''b'', [mk_iv 1 5])] = MaxInt64"
proof -
  have w: "wf_set []" "wf_set [(''a'', [mk_iv 1 9223372036854775807]), (''b'', [mk_iv 1 5])]"
    by code_simp+
  have "MissingCount [] [(''a'', [mk_iv 1 9223372036854775807]), (''b'', [mk_iv 1 5])] = MaxInt64"
    by code_simp
  with MissingCount_saturates [OF w] show ?thesis by simp
qed

text \<open>
  C17. Printing and parsing are inverse: what \<open>String\<close> prints of a well-formed set parses, to a
  well-formed set with the same intervals at every UUID.
\<close>

theorem ParseGTIDSet_String_roundtrip:
  assumes "wf_set s"
  shows "\<exists>t. ParseGTIDSet (GTIDSet_String s) = Inr t \<and> wf_set t \<and> map_of t = map_of s"
  using parse_print [OF assms] by blast

theorem ParseGTIDSet_String_roundtrip_witness:
  "(\<exists>t. ParseGTIDSet (GTIDSet_String [(''b'', [mk_iv 1 5, mk_iv 8 8]), (''a'', [mk_iv 2 3])]) = Inr t \<and>
     wf_set t \<and> map_of t = map_of [(''b'', [mk_iv 1 5, mk_iv 8 8]), (''a'', [mk_iv 2 3])]) \<and>
   GTIDSet_String [(''b'', [mk_iv 1 5, mk_iv 8 8]), (''a'', [mk_iv 2 3])] = ''a:2-3,b:1-5:8''"
proof -
  have w: "wf_set [(''b'', [mk_iv 1 5, mk_iv 8 8]), (''a'', [mk_iv 2 3])]" by code_simp
  have "GTIDSet_String [(''b'', [mk_iv 1 5, mk_iv 8 8]), (''a'', [mk_iv 2 3])] = ''a:2-3,b:1-5:8''"
    by code_simp
  with ParseGTIDSet_String_roundtrip [OF w] show ?thesis by blast
qed

text \<open>The printed form is canonical: two parsed sets print alike exactly when they hold the same
  transactions, whatever the order, the overlap or the case of the strings they were parsed from.
\<close>

theorem GTIDSet_String_canonical:
  assumes "ParseGTIDSet a = Inr s" "ParseGTIDSet b = Inr t"
  shows "GTIDSet_String s = GTIDSet_String t \<longleftrightarrow> gtids s = gtids t"
  using assms by (intro GTIDSet_String_eq_iff ParseGTIDSet_wf)

theorem GTIDSet_String_canonical_witness:
  "(GTIDSet_String [(''ab'', [mk_iv 1 9])] = GTIDSet_String [(''ab'', [mk_iv 1 5, mk_iv 7 9])] \<longleftrightarrow>
     gtids [(''ab'', [mk_iv 1 9])] = gtids [(''ab'', [mk_iv 1 5, mk_iv 7 9])]) \<and>
   gtids [(''ab'', [mk_iv 1 9])] \<noteq> gtids [(''ab'', [mk_iv 1 5, mk_iv 7 9])]"
proof -
  have p: "ParseGTIDSet ''AB:6-9,ab:1-5:4'' = Inr [(''ab'', [mk_iv 1 9])]"
    "ParseGTIDSet ''ab:7-9:1-5'' = Inr [(''ab'', [mk_iv 1 5, mk_iv 7 9])]" by code_simp+
  have "GTIDSet_String [(''ab'', [mk_iv 1 9])] \<noteq> GTIDSet_String [(''ab'', [mk_iv 1 5, mk_iv 7 9])]"
    by code_simp
  with GTIDSet_String_canonical [OF p] show ?thesis by blast
qed

text \<open>\<open>Contains\<close> stops at the first UUID the receiver does not hold and answers from that entry
  alone. With an entry that holds no interval (which no parsed set has) the answer depends on the
  order in which the map is visited: one order answers true although a transaction is missing.
\<close>

theorem Contains_visit_order:
  "Contains [] [(''a'', []), (''b'', [mk_iv 1 1])] \<and>
   \<not> Contains [] [(''b'', [mk_iv 1 1]), (''a'', [])] \<and>
   (''b'', 1) \<in> gtids [(''a'', []), (''b'', [mk_iv 1 1])] \<and> gtids [] = {}"
  by (simp add: gtids_def slice_at_def iv_set_def)

section \<open>Every set a program can build\<close>

text \<open>The ways the package offers to make a set, in any combination.\<close>

inductive gtid_built :: "GTIDSet \<Rightarrow> bool" where
  built_new: "gtid_built []"
| built_parsed: "ParseGTIDSet raw = Inr s \<Longrightarrow> gtid_built s"
| built_added: "gtid_built s \<Longrightarrow> uuid_ok u \<Longrightarrow> valid_iv iv \<Longrightarrow> gtid_built (AddInterval s u iv)"
| built_cloned: "gtid_built s \<Longrightarrow> gtid_built (Clone s)"
| built_union: "gtid_built s \<Longrightarrow> gtid_built t \<Longrightarrow> gtid_built (Union s t)"
| built_difference: "gtid_built s \<Longrightarrow> gtid_built t \<Longrightarrow> gtid_built (Difference s t)"
| built_intersect: "gtid_built s \<Longrightarrow> gtid_built t \<Longrightarrow> gtid_built (Intersect s t)"
| built_holes: "gtid_built s \<Longrightarrow> gtid_built (Holes s)"

lemma Clone_wf: "wf_set s \<Longrightarrow> wf_set (Clone s)"
proof (rule wf_setI)
  show "keys_distinct (Clone s)" by (simp add: Clone_def)
qed (auto simp: Clone_correct dest: wf_setD)



end
