(* ===== verification/Gtid_Model.thy ===== *)
theory Gtid_Model
  imports Gtid_Set
begin

text \<open>
  The engine-neutral GTID interface of \<open>src/pkg/engine/gtid.go\<close> and its two implementations:
  \<open>gtid_mysql.go\<close>, which delegates to the sets of theory \<open>Gtid_Set\<close>, and \<open>gtid_mariadb.go\<close>, whose
  positions hold one sequence number per replication domain. The Go interface \<open>GTIDModel\<close> is the
  record \<open>gtid_model\<close> of its methods; what its documentation promises is the locale
  \<open>gtid_laws\<close>, stated over the transactions a position reaches. Both implementations are
  interpretations of it, so that the failover election is proved once for both.
\<close>

section \<open>The interface\<close>

datatype Ordering = OrderingEqual | OrderingAhead | OrderingBehind | OrderingDiverged

fun Ordering_String :: "Ordering \<Rightarrow> string" where
  "Ordering_String OrderingEqual = ''equal''"
| "Ordering_String OrderingAhead = ''ahead''"
| "Ordering_String OrderingBehind = ''behind''"
| "Ordering_String OrderingDiverged = ''diverged''"

definition orderingFromContainment :: "bool \<Rightarrow> bool \<Rightarrow> Ordering" where
  "orderingFromContainment aContainsB bContainsA =
     (if aContainsB \<and> bContainsA then OrderingEqual
      else if aContainsB then OrderingAhead
      else if bContainsA then OrderingBehind
      else OrderingDiverged)"

record gtid_model =
  gm_Contains :: "string \<Rightarrow> string \<Rightarrow> bool res"
  gm_MissingCount :: "string \<Rightarrow> string \<Rightarrow> int res"
  gm_Union :: "string list \<Rightarrow> string res"
  gm_Equal :: "string \<Rightarrow> string \<Rightarrow> bool res"
  gm_Compare :: "string \<Rightarrow> string \<Rightarrow> Ordering res"
  gm_IsEmpty :: "string \<Rightarrow> bool res"
  gm_Canonical :: "string \<Rightarrow> string res"

section \<open>MySQL\<close>

definition mysql_MissingCount :: "string \<Rightarrow> string \<Rightarrow> int res" where
  "mysql_MissingCount haves want =
     bind_res (ParseGTIDSet haves) (\<lambda>setHave.
     bind_res (ParseGTIDSet want) (\<lambda>setWant. Inr (MissingCount setHave setWant)))"

definition mysql_Equal :: "string \<Rightarrow> string \<Rightarrow> bool res" where
  "mysql_Equal a b =
     bind_res (ParseGTIDSet a) (\<lambda>setA.
     bind_res (ParseGTIDSet b) (\<lambda>setB. Inr (Equal setA setB)))"

definition mysql_Compare :: "string \<Rightarrow> string \<Rightarrow> Ordering res" where
  "mysql_Compare a b =
     bind_res (ParseGTIDSet a) (\<lambda>setA.
     bind_res (ParseGTIDSet b) (\<lambda>setB.
       Inr (orderingFromContainment (Contains setA setB) (Contains setB setA))))"

definition mysql_IsEmpty :: "string \<Rightarrow> bool res" where
  "mysql_IsEmpty raw = bind_res (ParseGTIDSet raw) (\<lambda>s. Inr (IsEmpty s))"

definition mysql_Canonical :: "string \<Rightarrow> string res" where
  "mysql_Canonical raw = bind_res (ParseGTIDSet raw) (\<lambda>s. Inr (GTIDSet_String s))"

definition mysqlGTID :: gtid_model where
  "mysqlGTID = \<lparr>gm_Contains = GTIDContains, gm_MissingCount = mysql_MissingCount,
     gm_Union = UnionGTIDStrings, gm_Equal = mysql_Equal, gm_Compare = mysql_Compare,
     gm_IsEmpty = mysql_IsEmpty, gm_Canonical = mysql_Canonical\<rparr>"

section \<open>MariaDB\<close>

record mariaEntry =
  me_server :: nat
  me_seq :: nat

type_synonym mariaPos = "(nat, mariaEntry) gomap"

definition parse_triple :: "string \<Rightarrow> string \<Rightarrow> (nat \<times> mariaEntry) res" where
  "parse_triple raw triple =
     (let parts = split_on CHR ''-'' triple in
      if length parts \<noteq> 3
      then Inl (Errorf ''invalid mariadb gtid %q in position %q: want domain-server-seq'' [triple, raw])
      else (case ParseUint (parts ! 0) 32 of
              Inl e \<Rightarrow> Inl (Wrapf ''invalid mariadb gtid domain in %q: %w'' [triple] e)
            | Inr domain \<Rightarrow>
                (case ParseUint (parts ! 1) 32 of
                   Inl e \<Rightarrow> Inl (Wrapf ''invalid mariadb gtid server_id in %q: %w'' [triple] e)
                 | Inr server \<Rightarrow>
                     (case ParseUint (parts ! 2) 64 of
                        Inl e \<Rightarrow> Inl (Wrapf ''invalid mariadb gtid sequence in %q: %w'' [triple] e)
                      | Inr seq \<Rightarrow> Inr (domain, \<lparr>me_server = server, me_seq = seq\<rparr>)))))"

text \<open>The store both the parser and \<open>Union\<close> make: the higher sequence wins, the later on a tie.\<close>

definition keep_higher :: "nat \<Rightarrow> mariaEntry \<Rightarrow> mariaPos \<Rightarrow> mariaPos" where
  "keep_higher domain e pos =
     (case map_of pos domain of
        None \<Rightarrow> AList.update domain e pos
      | Some existing \<Rightarrow>
          if me_seq e \<ge> me_seq existing then AList.update domain e pos else pos)"

fun parse_triples :: "string \<Rightarrow> string list \<Rightarrow> mariaPos \<Rightarrow> mariaPos res" where
  "parse_triples raw [] pos = Inr pos"
| "parse_triples raw (triple # rest) pos =
     (case parse_triple raw triple of
        Inl e \<Rightarrow> Inl e
      | Inr (domain, e) \<Rightarrow> parse_triples raw rest (keep_higher domain e pos))"

definition parseMariaPos :: "string \<Rightarrow> mariaPos res" where
  "parseMariaPos raw =
     (let cleaned = strip_spaces raw in
      if cleaned = [] then Inr []
      else parse_triples raw (split_on CHR '','' cleaned) [])"

fun maria_contains :: "mariaPos \<Rightarrow> mariaPos \<Rightarrow> bool" where
  "maria_contains super [] = True"
| "maria_contains super ((domain, e) # sub) =
     (case map_of super domain of
        None \<Rightarrow> False
      | Some mine \<Rightarrow> if me_seq mine < me_seq e then False else maria_contains super sub)"

definition maria_isEmpty :: "mariaPos \<Rightarrow> bool" where
  "maria_isEmpty p \<longleftrightarrow> length p = 0"

definition entry_at :: "mariaPos \<Rightarrow> nat \<Rightarrow> mariaEntry" where
  "entry_at p d = (case map_of p d of None \<Rightarrow> \<lparr>me_server = 0, me_seq = 0\<rparr> | Some e \<Rightarrow> e)"

definition triple_string :: "nat \<Rightarrow> mariaEntry \<Rightarrow> string" where
  "triple_string d e =
     FormatUint d @ ''-'' @ FormatUint (me_server e) @ ''-'' @ FormatUint (me_seq e)"

definition maria_string :: "mariaPos \<Rightarrow> string" where
  "maria_string p =
     join_with '','' (map (\<lambda>d. triple_string d (entry_at p d)) (sort (map fst p)))"

definition addSaturating :: "int \<Rightarrow> nat \<Rightarrow> int" where
  "addSaturating acc n =
     (if int n > MaxInt64 then MaxInt64
      else let d = int n in
           if d > i64 (MaxInt64 - acc) then MaxInt64 else i64 (acc + d))"

fun maria_missing :: "mariaPos \<Rightarrow> mariaPos \<Rightarrow> int \<Rightarrow> int" where
  "maria_missing posHave [] missing = missing"
| "maria_missing posHave ((domain, wanted) # posWant) missing =
     (case map_of posHave domain of
        Some mine \<Rightarrow>
          maria_missing posHave posWant
            (if me_seq wanted > me_seq mine
             then addSaturating missing (me_seq wanted - me_seq mine) else missing)
      | None \<Rightarrow> maria_missing posHave posWant (addSaturating missing (me_seq wanted)))"

definition maria_Contains :: "string \<Rightarrow> string \<Rightarrow> bool res" where
  "maria_Contains supers subs =
     bind_res (parseMariaPos supers) (\<lambda>super.
     bind_res (parseMariaPos subs) (\<lambda>sub. Inr (maria_contains super sub)))"

definition maria_MissingCount :: "string \<Rightarrow> string \<Rightarrow> int res" where
  "maria_MissingCount haves want =
     bind_res (parseMariaPos haves) (\<lambda>posHave.
     bind_res (parseMariaPos want) (\<lambda>posWant. Inr (maria_missing posHave posWant 0)))"

fun maria_union :: "mariaPos \<Rightarrow> string list \<Rightarrow> mariaPos res" where
  "maria_union u [] = Inr u"
| "maria_union u (raw # sets) =
     (case parseMariaPos raw of
        Inl e \<Rightarrow> Inl e
      | Inr pos \<Rightarrow> maria_union (fold (\<lambda>(d, e) u. keep_higher d e u) pos u) sets)"

definition maria_Union :: "string list \<Rightarrow> string res" where
  "maria_Union sets = bind_res (maria_union [] sets) (\<lambda>u. Inr (maria_string u))"

definition maria_Equal :: "string \<Rightarrow> string \<Rightarrow> bool res" where
  "maria_Equal a b =
     bind_res (parseMariaPos a) (\<lambda>posA.
     bind_res (parseMariaPos b) (\<lambda>posB.
       Inr (maria_contains posA posB \<and> maria_contains posB posA)))"

definition maria_Compare :: "string \<Rightarrow> string \<Rightarrow> Ordering res" where
  "maria_Compare a b =
     bind_res (parseMariaPos a) (\<lambda>posA.
     bind_res (parseMariaPos b) (\<lambda>posB.
       Inr (orderingFromContainment (maria_contains posA posB) (maria_contains posB posA))))"

definition maria_IsEmpty :: "string \<Rightarrow> bool res" where
  "maria_IsEmpty raw = bind_res (parseMariaPos raw) (\<lambda>p. Inr (maria_isEmpty p))"

definition maria_Canonical :: "string \<Rightarrow> string res" where
  "maria_Canonical raw = bind_res (parseMariaPos raw) (\<lambda>p. Inr (maria_string p))"

definition mariadbGTID :: gtid_model where
  "mariadbGTID = \<lparr>gm_Contains = maria_Contains, gm_MissingCount = maria_MissingCount,
     gm_Union = maria_Union, gm_Equal = maria_Equal, gm_Compare = maria_Compare,
     gm_IsEmpty = maria_IsEmpty, gm_Canonical = maria_Canonical\<rparr>"

section \<open>What the interface promises\<close>

text \<open>
  The order relation of two reached sets, as the documentation of \<open>Ordering\<close> describes it.
\<close>

definition set_ordering :: "'t set \<Rightarrow> 't set \<Rightarrow> Ordering" where
  "set_ordering A B =
     (if A = B then OrderingEqual else if B \<subset> A then OrderingAhead
      else if A \<subset> B then OrderingBehind else OrderingDiverged)"

text \<open>
  \<open>reach\<close> gives the transactions a position string stands for, or the parse error. A transaction
  is a pair of a source (a UUID or a domain) and a number; number 0 only marks a MariaDB domain as
  seen and is not counted.
\<close>

definition counted :: "('k \<times> int) set \<Rightarrow> ('k \<times> int) set" where
  "counted A = {t \<in> A. 0 < snd t}"

locale gtid_laws =
  fixes M :: gtid_model
    and reach :: "string \<Rightarrow> ('k \<times> int) set res"
  assumes reach_finite: "reach a = Inr A \<Longrightarrow> finite A"
    and Contains_law:
      "gm_Contains M a b = bind_res (reach a) (\<lambda>A. bind_res (reach b) (\<lambda>B. Inr (B \<subseteq> A)))"
    and MissingCount_law:
      "gm_MissingCount M a b = bind_res (reach a) (\<lambda>A. bind_res (reach b) (\<lambda>B.
         Inr (min MaxInt64 (int (card (counted (B - A)))))))"
    and Union_law:
      "list_all2 (\<lambda>raw A. reach raw = Inr A) raws As \<Longrightarrow>
       \<exists>out. gm_Union M raws = Inr out \<and> reach out = Inr (\<Union> (set As))"
    and Union_error: "raw \<in> set raws \<Longrightarrow> reach raw = Inl e \<Longrightarrow> \<exists>e'. gm_Union M raws = Inl e'"
    and Equal_law: "gm_Equal M a b = bind_res (reach a) (\<lambda>A. bind_res (reach b) (\<lambda>B. Inr (A = B)))"
    and Compare_law:
      "gm_Compare M a b = bind_res (reach a) (\<lambda>A. bind_res (reach b) (\<lambda>B. Inr (set_ordering A B)))"
    and IsEmpty_law: "gm_IsEmpty M a = bind_res (reach a) (\<lambda>A. Inr (A = {}))"
    and Canonical_law: "reach a = Inr A \<Longrightarrow> \<exists>out. gm_Canonical M a = Inr out \<and> reach out = Inr A"
    and Canonical_error: "reach a = Inl e \<Longrightarrow> gm_Canonical M a = Inl e"
    and empty_law: "reach [] = Inr {}"

context gtid_laws
begin

lemma Contains_Inr:
  "gm_Contains M a b = Inr c \<longleftrightarrow> (\<exists>A B. reach a = Inr A \<and> reach b = Inr B \<and> c = (B \<subseteq> A))"
  by (auto simp: Contains_law go_simps)

lemma Contains_True:
  "gm_Contains M a b = Inr True \<longleftrightarrow> (\<exists>A B. reach a = Inr A \<and> reach b = Inr B \<and> B \<subseteq> A)"
  by (auto simp: Contains_Inr)

lemma Contains_trans:
  "gm_Contains M a b = Inr True \<Longrightarrow> gm_Contains M b c = Inr True \<Longrightarrow> gm_Contains M a c = Inr True"
  by (auto simp: Contains_True)

lemma MissingCount_Inr:
  "gm_MissingCount M a b = Inr n \<longleftrightarrow>
     (\<exists>A B. reach a = Inr A \<and> reach b = Inr B \<and> n = min MaxInt64 (int (card (counted (B - A)))))"
  by (auto simp: MissingCount_law go_simps)

lemma MissingCount_range: "gm_MissingCount M a b = Inr n \<Longrightarrow> 0 \<le> n \<and> n \<le> MaxInt64"
  by (auto simp: MissingCount_Inr)

lemma MissingCount_zero:
  "reach a = Inr A \<Longrightarrow> reach b = Inr B \<Longrightarrow>
   gm_MissingCount M a b = Inr 0 \<longleftrightarrow> counted B \<subseteq> A"
proof -
  assume r: "reach a = Inr A" "reach b = Inr B"
  have "finite (counted (B - A))" using reach_finite [OF r(2)] by (simp add: counted_def)
  moreover have "counted (B - A) = {} \<longleftrightarrow> counted B \<subseteq> A" unfolding counted_def by blast
  ultimately show ?thesis using r by (auto simp: MaxInt64_def MissingCount_Inr min_def)
qed

lemma Union_Inr:
  assumes "gm_Union M raws = Inr out"
  obtains As where "list_all2 (\<lambda>raw A. reach raw = Inr A) raws As" "reach out = Inr (\<Union> (set As))"
proof -
  have ok: "\<forall>raw \<in> set raws. \<exists>A. reach raw = Inr A"
  proof
    fix raw assume "raw \<in> set raws"
    with Union_error assms show "\<exists>A. reach raw = Inr A"
      by (cases "reach raw") fastforce+
  qed
  then have "list_all2 (\<lambda>raw A. reach raw = Inr A) raws (map (\<lambda>raw. projr (reach raw)) raws)"
    by (fastforce simp: list_all2_map2 intro: list.rel_refl_strong)
  with Union_law [OF this] assms that show thesis by auto
qed

lemma Compare_Ahead:
  "gm_Compare M a b = Inr OrderingAhead \<longleftrightarrow>
   gm_Contains M a b = Inr True \<and> gm_Contains M b a = Inr False"
  by (cases "reach a"; cases "reach b") (auto simp: Compare_law Contains_law set_ordering_def)

end

section \<open>MySQL implements the interface\<close>

definition mysql_reach :: "string \<Rightarrow> (string \<times> int) set res" where
  "mysql_reach raw = bind_res (ParseGTIDSet raw) (\<lambda>s. Inr (gtids s))"

lemma mysql_reach_Inr: "mysql_reach raw = Inr A \<longleftrightarrow> (\<exists>s. ParseGTIDSet raw = Inr s \<and> A = gtids s)"
  by (auto simp: mysql_reach_def go_simps)

lemma GTIDContains_reach:
  "GTIDContains a b = Inr True \<Longrightarrow> \<exists>A B. mysql_reach a = Inr A \<and> mysql_reach b = Inr B \<and> B \<subseteq> A"
  by (cases "ParseGTIDSet a"; cases "ParseGTIDSet b")
    (auto simp: GTIDContains_def mysql_reach_def Contains_iff ParseGTIDSet_wf)

lemma counted_gtids: "wf_set s \<Longrightarrow> counted (gtids s - X) = gtids s - X"
  using normal_ivs_set_ge [OF wf_slice] by (fastforce simp: counted_def gtids_def)

lemma orderingFromContainment_sets:
  "orderingFromContainment (B \<subseteq> A) (A \<subseteq> B) = set_ordering A B"
  by (auto simp: orderingFromContainment_def set_ordering_def)

lemma union_strings_error:
  "raw \<in> set raws \<Longrightarrow> ParseGTIDSet raw = Inl e \<Longrightarrow> \<exists>e'. union_strings u raws = Inl e'"
proof (induction raws arbitrary: u)
  case (Cons r raws)
  then show ?case by (cases "ParseGTIDSet r") auto
qed simp

interpretation mysql: gtid_laws mysqlGTID mysql_reach
proof unfold_locales
  fix a A assume "mysql_reach a = Inr A"
  then show "finite A" by (auto simp: mysql_reach_Inr)
next
  fix a b
  show "gm_Contains mysqlGTID a b =
      bind_res (mysql_reach a) (\<lambda>A. bind_res (mysql_reach b) (\<lambda>B. Inr (B \<subseteq> A)))"
    by (cases "ParseGTIDSet a"; cases "ParseGTIDSet b")
      (simp_all add: mysqlGTID_def mysql_reach_def GTIDContains_def Contains_iff ParseGTIDSet_wf)
next
  fix a b
  show "gm_MissingCount mysqlGTID a b = bind_res (mysql_reach a) (\<lambda>A. bind_res (mysql_reach b) (\<lambda>B.
      Inr (min MaxInt64 (int (card (counted (B - A)))))))"
    by (cases "ParseGTIDSet a"; cases "ParseGTIDSet b")
      (simp_all add: mysqlGTID_def mysql_reach_def mysql_MissingCount_def MissingCount_correct
        ParseGTIDSet_wf counted_gtids)
next
  fix raws and As :: "(string \<times> int) set list"
  assume "list_all2 (\<lambda>raw A. mysql_reach raw = Inr A) raws As"
  then obtain ss where "list_all2 (\<lambda>raw s. ParseGTIDSet raw = Inr s) raws ss" "As = map gtids ss"
  proof (induction raws As arbitrary: thesis rule: list_all2_induct)
    case (Cons raw raws A As)
    from Cons.IH obtain ss where "list_all2 (\<lambda>raw s. ParseGTIDSet raw = Inr s) raws ss" "As = map gtids ss"
      by blast
    moreover obtain s where "ParseGTIDSet raw = Inr s" "A = gtids s"
      using Cons.hyps(1) by (auto simp: mysql_reach_Inr)
    ultimately show ?case by (intro Cons.prems [of "s # ss"]) auto
  qed simp
  with UnionGTIDStrings_correct [OF this(1)]
  show "\<exists>out. gm_Union mysqlGTID raws = Inr out \<and> mysql_reach out = Inr (\<Union> (set As))"
    by (auto simp: mysqlGTID_def mysql_reach_Inr)
next
  fix raw raws e
  assume "raw \<in> set raws" "mysql_reach raw = Inl e"
  then show "\<exists>e'. gm_Union mysqlGTID raws = Inl e'"
    using union_strings_error [of raw raws e "[]"]
    by (cases "ParseGTIDSet raw") (auto simp: mysqlGTID_def mysql_reach_def UnionGTIDStrings_def)
next
  fix a b
  show "gm_Equal mysqlGTID a b =
      bind_res (mysql_reach a) (\<lambda>A. bind_res (mysql_reach b) (\<lambda>B. Inr (A = B)))"
    by (cases "ParseGTIDSet a"; cases "ParseGTIDSet b")
      (simp_all add: mysqlGTID_def mysql_reach_def mysql_Equal_def Equal_iff ParseGTIDSet_wf)
next
  fix a b
  show "gm_Compare mysqlGTID a b =
      bind_res (mysql_reach a) (\<lambda>A. bind_res (mysql_reach b) (\<lambda>B. Inr (set_ordering A B)))"
    by (cases "ParseGTIDSet a"; cases "ParseGTIDSet b")
      (simp_all add: mysqlGTID_def mysql_reach_def mysql_Compare_def Contains_iff ParseGTIDSet_wf
        orderingFromContainment_sets)
next
  fix a
  show "gm_IsEmpty mysqlGTID a = bind_res (mysql_reach a) (\<lambda>A. Inr (A = {}))"
    by (cases "ParseGTIDSet a")
      (simp_all add: mysqlGTID_def mysql_reach_def mysql_IsEmpty_def IsEmpty_iff ParseGTIDSet_wf)
next
  fix a A assume "mysql_reach a = Inr A"
  then obtain s where s: "ParseGTIDSet a = Inr s" "A = gtids s" by (auto simp: mysql_reach_Inr)
  then show "\<exists>out. gm_Canonical mysqlGTID a = Inr out \<and> mysql_reach out = Inr A"
    using parse_print [OF ParseGTIDSet_wf [OF s(1)]]
    by (auto simp: mysqlGTID_def mysql_Canonical_def mysql_reach_Inr)
next
  fix a e assume "mysql_reach a = Inl e"
  then show "gm_Canonical mysqlGTID a = Inl e"
    by (cases "ParseGTIDSet a") (auto simp: mysqlGTID_def mysql_Canonical_def mysql_reach_def)
next
  show "mysql_reach [] = Inr {}"
    by (simp add: mysql_reach_def ParseGTIDSet_def strip_spaces_def)
qed

section \<open>MariaDB implements the interface\<close>

definition wf_entry :: "nat \<Rightarrow> mariaEntry \<Rightarrow> bool" where
  "wf_entry d e \<longleftrightarrow> d < 2 ^ 32 \<and> me_server e < 2 ^ 32 \<and> me_seq e < 2 ^ 64"

definition wf_pos :: "mariaPos \<Rightarrow> bool" where
  "wf_pos p \<longleftrightarrow> keys_distinct p \<and> list_all (\<lambda>(d, e). wf_entry d e) p"

definition maria_set :: "mariaPos \<Rightarrow> (nat \<times> int) set" where
  "maria_set p = {(d, n). \<exists>e. map_of p d = Some e \<and> 0 \<le> n \<and> n \<le> int (me_seq e)}"

definition maria_reach :: "string \<Rightarrow> (nat \<times> int) set res" where
  "maria_reach raw = bind_res (parseMariaPos raw) (\<lambda>p. Inr (maria_set p))"

lemma wf_posD: "wf_pos p \<Longrightarrow> map_of p d = Some e \<Longrightarrow> wf_entry d e"
  by (auto simp: wf_pos_def list_all_iff dest!: map_of_SomeD)

lemma wf_posI:
  "keys_distinct p \<Longrightarrow> (\<And>d e. map_of p d = Some e \<Longrightarrow> wf_entry d e) \<Longrightarrow> wf_pos p"
  by (auto simp: wf_pos_def list_all_iff map_of_keys_distinct)

lemma wf_pos_keys: "wf_pos p \<Longrightarrow> keys_distinct p"
  by (simp add: wf_pos_def)

lemma wf_pos_Nil [simp]: "wf_pos []" and maria_set_Nil [simp]: "maria_set [] = {}"
  by (simp_all add: wf_pos_def maria_set_def)

lemma wf_pos_Cons: "wf_pos ((d, e) # p) \<longleftrightarrow> d \<notin> fst ` set p \<and> wf_entry d e \<and> wf_pos p"
  by (auto simp: wf_pos_def)

lemma maria_set_Cons:
  assumes "d \<notin> fst ` set p"
  shows "maria_set ((d, e) # p) = Pair d ` {0 .. int (me_seq e)} \<union> maria_set p"
proof -
  have "map_of p d = None" using assms by (simp add: map_of_eq_None_iff)
  then show ?thesis by (auto simp: maria_set_def split: if_splits)
qed

lemma finite_maria_set [simp]: "finite (maria_set p)"
proof -
  have "maria_set p \<subseteq> (\<Union>(d, e) \<in> set p. Pair d ` {0 .. int (me_seq e)})"
  proof clarify
    fix d n assume "(d, n) \<in> maria_set p"
    then obtain e where "(d, e) \<in> set p" "n \<in> {0 .. int (me_seq e)}"
      by (auto simp: maria_set_def dest: map_of_SomeD)
    then show "(d, n) \<in> (\<Union>(d, e) \<in> set p. Pair d ` {0 .. int (me_seq e)})" by blast
  qed
  then show ?thesis by (rule finite_subset) auto
qed

lemma maria_set_key: "(d, n) \<in> maria_set p \<Longrightarrow> d \<in> fst ` set p"
  by (auto simp: maria_set_def dest: map_of_SomeD intro: rev_image_eqI)

lemma maria_contains_iff:
  "keys_distinct sub \<Longrightarrow> maria_contains super sub \<longleftrightarrow> maria_set sub \<subseteq> maria_set super"
proof (induction super sub rule: maria_contains.induct)
  case (1 super)
  then show ?case by simp
next
  case (2 super d e sub)
  have s: "maria_set ((d, e) # sub) = Pair d ` {0 .. int (me_seq e)} \<union> maria_set sub"
    using "2.prems" by (intro maria_set_Cons) simp
  have "Pair d ` {0 .. int (me_seq e)} \<subseteq> maria_set super \<longleftrightarrow>
      (\<exists>mine. map_of super d = Some mine \<and> me_seq e \<le> me_seq mine)"
  proof
    assume "Pair d ` {0 .. int (me_seq e)} \<subseteq> maria_set super"
    then have "(d, int (me_seq e)) \<in> maria_set super" by auto
    then show "\<exists>mine. map_of super d = Some mine \<and> me_seq e \<le> me_seq mine"
      by (auto simp: maria_set_def)
  qed (auto simp: maria_set_def)
  with s "2.IH" "2.prems" show ?case by (auto split: option.splits)
qed

lemma keep_higher_correct:
  "wf_pos p \<Longrightarrow> wf_entry d e \<Longrightarrow> wf_pos (keep_higher d e p)"
  "maria_set (keep_higher d e p) = maria_set p \<union> Pair d ` {0 .. int (me_seq e)}"
proof -
  assume p: "wf_pos p" and e: "wf_entry d e"
  have "wf_pos (AList.update d e p)"
    using p e by (intro wf_posI) (auto simp: wf_pos_keys dest: wf_posD split: if_splits)
  then show "wf_pos (keep_higher d e p)"
    using p by (auto simp: keep_higher_def split: option.splits)
next
  show "maria_set (keep_higher d e p) = maria_set p \<union> Pair d ` {0 .. int (me_seq e)}"
    by (auto simp: keep_higher_def maria_set_def split: option.splits if_splits)
qed

lemma parse_triple_wf: "parse_triple raw t = Inr (d, e) \<Longrightarrow> wf_entry d e"
  by (auto simp: parse_triple_def Let_def wf_entry_def split: if_splits sum.splits dest!: ParseUint_Inr)

lemma parse_triples_wf: "parse_triples raw ts p = Inr q \<Longrightarrow> wf_pos p \<Longrightarrow> wf_pos q"
  by (induction raw ts p rule: parse_triples.induct)
    (auto split: sum.splits prod.splits simp: keep_higher_correct(1) parse_triple_wf)

lemma parseMariaPos_wf: "parseMariaPos raw = Inr p \<Longrightarrow> wf_pos p"
  by (auto simp: parseMariaPos_def Let_def split: if_splits dest: parse_triples_wf)

lemma addSaturating_correct:
  assumes "0 \<le> acc" "acc \<le> MaxInt64"
  shows "addSaturating acc n = min MaxInt64 (acc + int n)"
proof -
  have "i64 (MaxInt64 - acc) = MaxInt64 - acc" using assms by (intro i64_id) (auto simp: MaxInt64_def)
  moreover have "i64 (acc + int n) = acc + int n" if "int n \<le> MaxInt64 - acc"
    using assms that by (intro i64_id) (auto simp: MaxInt64_def)
  ultimately show ?thesis using assms by (auto simp: addSaturating_def Let_def)
qed

lemma maria_missing_domain:
  "counted (Pair d ` {0 .. int m} - maria_set p) =
     Pair d ` {(case map_of p d of None \<Rightarrow> 1 | Some mine \<Rightarrow> int (me_seq mine) + 1) .. int m}"
  by (auto simp: counted_def maria_set_def split: option.splits)

lemma maria_missing_correct:
  assumes "keys_distinct w" "0 \<le> acc" "acc \<le> MaxInt64"
  shows "maria_missing h w acc = min MaxInt64 (acc + int (card (counted (maria_set w - maria_set h))))"
  using assms
proof (induction h w acc rule: maria_missing.induct)
  case (1 h acc)
  then show ?case by (simp add: counted_def)
next
  case (2 h d wanted w acc)
  let ?D = "Pair d ` {0 .. int (me_seq wanted)}"
  have k: "d \<notin> fst ` set w" "keys_distinct w" using "2.prems"(1) by auto
  have "counted (maria_set ((d, wanted) # w) - maria_set h) =
      counted (?D - maria_set h) \<union> counted (maria_set w - maria_set h)"
    using maria_set_Cons [OF k(1)] by (auto simp: counted_def)
  moreover have "counted (?D - maria_set h) \<inter> counted (maria_set w - maria_set h) = {}"
    using k(1) by (auto simp: counted_def dest: maria_set_key)
  ultimately have card: "card (counted (maria_set ((d, wanted) # w) - maria_set h)) =
      card (counted (?D - maria_set h)) + card (counted (maria_set w - maria_set h))"
    by (simp add: card_Un_disjoint counted_def)
  let ?c = "card (counted (?D - maria_set h))"
  have c: "?c = (case map_of h d of None \<Rightarrow> me_seq wanted | Some mine \<Rightarrow> me_seq wanted - me_seq mine)"
    by (auto simp: maria_missing_domain card_image inj_on_def split: option.splits)
  have "maria_missing h ((d, wanted) # w) acc = maria_missing h w (min MaxInt64 (acc + int ?c))"
    using "2.prems"(2,3) c by (auto simp: addSaturating_correct split: option.splits)
  also have "\<dots> = min MaxInt64 (min MaxInt64 (acc + int ?c) + int (card (counted (maria_set w - maria_set h))))"
  proof (cases "map_of h d")
    case None
    then show ?thesis
      using "2.IH"(1) [OF None k(2)] "2.prems"(2,3) c by (simp add: addSaturating_correct)
  next
    case (Some mine)
    have "(if me_seq mine < me_seq wanted then addSaturating acc (me_seq wanted - me_seq mine) else acc) =
        min MaxInt64 (acc + int ?c)"
      using "2.prems"(2,3) Some c by (auto simp: addSaturating_correct)
    then show ?thesis
      using "2.IH"(2) [OF Some k(2)] "2.prems"(2,3) by (auto simp: MaxInt64_def)
  qed
  finally show ?case using card by (auto simp: min_def)
qed

lemma triple_roundtrip:
  "wf_entry d e \<Longrightarrow> parse_triple raw (triple_string d e) = Inr (d, e)"
  by (simp add: parse_triple_def triple_string_def split_on_append wf_entry_def Let_def)

lemma parse_triples_print:
  assumes "distinct ds" "\<forall>d \<in> set ds. wf_entry d (f d)" "set ds \<inter> fst ` set acc = {}"
  shows "parse_triples raw (map (\<lambda>d. triple_string d (f d)) ds) acc = Inr (acc @ map (\<lambda>d. (d, f d)) ds)"
  using assms
proof (induction ds arbitrary: acc)
  case Nil
  then show ?case by simp
next
  case (Cons d ds)
  have d: "d \<notin> fst ` set acc" "wf_entry d (f d)" using Cons.prems by auto
  then have "map_of acc d = None" by (simp add: map_of_eq_None_iff)
  then have "keep_higher d (f d) acc = acc @ [(d, f d)]"
    using d by (simp add: keep_higher_def update_append)
  moreover have "parse_triples raw (map (\<lambda>d. triple_string d (f d)) ds) (acc @ [(d, f d)]) =
      Inr ((acc @ [(d, f d)]) @ map (\<lambda>d. (d, f d)) ds)"
    using Cons.prems by (intro Cons.IH) auto
  ultimately show ?case using d by (simp add: triple_roundtrip)
qed

lemma triple_string_chars:
  "c \<in> set (triple_string d e) \<Longrightarrow> is_digit c \<or> c = CHR ''-''"
  by (auto simp: triple_string_def dest: FormatUint_digits)

lemma parseMariaPos_string:
  assumes "wf_pos p"
  shows "parseMariaPos (maria_string p) = Inr (map (\<lambda>d. (d, entry_at p d)) (sort (map fst p)))"
proof (cases "p = []")
  case True
  then show ?thesis by (simp add: maria_string_def parseMariaPos_def strip_spaces_def)
next
  case False
  let ?ds = "sort (map fst p)" let ?str = "\<lambda>d. triple_string d (entry_at p d)"
  have d: "distinct ?ds" using wf_pos_keys [OF assms] by (simp add: keys_distinct_def)
  have k: "\<forall>d \<in> set ?ds. wf_entry d (entry_at p d)"
  proof
    fix d assume "d \<in> set ?ds"
    then obtain e where "map_of p d = Some e" by (metis map_of_eq_None_iff not_None_eq list.set_map set_sort)
    then show "wf_entry d (entry_at p d)" using wf_posD [OF assms] by (simp add: entry_at_def)
  qed
  have nd: "c \<noteq> CHR '','' \<and> \<not> is_gtid_space c" if "c \<in> set (?str d)" for c d
    using triple_string_chars [OF that] by (auto simp: is_gtid_space_def)
  have ns: "\<not> is_gtid_space c" if "c \<in> set (maria_string p)" for c
  proof -
    have "c \<in> set '','' \<union> \<Union> (set ` set (map ?str ?ds))"
      using that set_join_with unfolding maria_string_def by blast
    then show ?thesis using nd by (auto simp: is_gtid_space_def)
  qed
  have dne: "?ds \<noteq> []" using False by (metis length_0_conv length_map length_sort)
  have ne: "maria_string p \<noteq> []"
    unfolding maria_string_def using dne by (subst join_with_eq_Nil) (auto simp: triple_string_def)
  have sp: "split_on CHR '','' (maria_string p) = map ?str ?ds"
    unfolding maria_string_def using dne nd by (intro split_on_join) auto
  have "parse_triples (maria_string p) (map ?str ?ds) [] = Inr ([] @ map (\<lambda>d. (d, entry_at p d)) ?ds)"
    using d k by (intro parse_triples_print) auto
  then show ?thesis using ne sp ns by (simp add: parseMariaPos_def Let_def)
qed

lemma map_of_entries:
  assumes "set ds = fst ` set p"
  shows "map_of (map (\<lambda>d. (d, entry_at p d)) ds) = map_of p"
proof
  fix d
  show "map_of (map (\<lambda>d. (d, entry_at p d)) ds) d = map_of p d"
  proof (cases "map_of p d")
    case None
    then have "d \<notin> set ds" using assms by (simp add: map_of_eq_None_iff)
    with None show ?thesis by (simp add: map_of_map_restrict)
  next
    case (Some e)
    then have "d \<in> set ds" using assms by (auto dest: map_of_SomeD intro: rev_image_eqI)
    with Some show ?thesis by (simp add: map_of_map_restrict entry_at_def)
  qed
qed

lemma maria_parse_print:
  assumes "wf_pos p"
  shows "\<exists>q. parseMariaPos (maria_string p) = Inr q \<and> wf_pos q \<and> map_of q = map_of p \<and>
    maria_set q = maria_set p"
proof -
  let ?q = "map (\<lambda>d. (d, entry_at p d)) (sort (map fst p))"
  have m: "map_of ?q = map_of p" by (rule map_of_entries) simp
  then have "maria_set ?q = maria_set p" by (simp add: maria_set_def)
  with m show ?thesis using parseMariaPos_string [OF assms] parseMariaPos_wf by blast
qed

lemma maria_reach_Inr: "maria_reach raw = Inr A \<longleftrightarrow> (\<exists>p. parseMariaPos raw = Inr p \<and> A = maria_set p)"
  by (auto simp: maria_reach_def go_simps)

lemma fold_keep_higher:
  "wf_pos p \<Longrightarrow> wf_pos u \<Longrightarrow>
   wf_pos (fold (\<lambda>(d, e) u. keep_higher d e u) p u) \<and>
   maria_set (fold (\<lambda>(d, e) u. keep_higher d e u) p u) = maria_set u \<union> maria_set p"
proof (induction p arbitrary: u)
  case (Cons x p)
  obtain d e where x: "x = (d, e)" by force
  then have p: "d \<notin> fst ` set p" "wf_entry d e" "wf_pos p" using Cons.prems by (simp_all add: wf_pos_Cons)
  then show ?case
    using Cons.IH [OF p(3) keep_higher_correct(1) [OF Cons.prems(2) p(2)]] x
    by (auto simp: maria_set_Cons keep_higher_correct(2))
qed simp

lemma maria_union_correct:
  assumes "list_all2 (\<lambda>raw A. maria_reach raw = Inr A) raws As" "wf_pos u"
  shows "\<exists>v. maria_union u raws = Inr v \<and> wf_pos v \<and> maria_set v = maria_set u \<union> \<Union> (set As)"
  using assms
proof (induction raws As arbitrary: u rule: list_all2_induct)
  case (Cons raw raws A As)
  obtain p where p: "parseMariaPos raw = Inr p" "A = maria_set p"
    using Cons.hyps(1) by (auto simp: maria_reach_Inr)
  let ?u = "fold (\<lambda>(d, e) u. keep_higher d e u) p u"
  have u: "wf_pos ?u" "maria_set ?u = maria_set u \<union> maria_set p"
    using fold_keep_higher [OF parseMariaPos_wf [OF p(1)] Cons.prems] by auto
  from Cons.IH [OF u(1)] u(2) p show ?case by auto
qed simp

lemma maria_union_error:
  "raw \<in> set raws \<Longrightarrow> parseMariaPos raw = Inl e \<Longrightarrow> \<exists>e'. maria_union u raws = Inl e'"
proof (induction raws arbitrary: u)
  case (Cons r raws)
  then show ?case by (cases "parseMariaPos r") auto
qed simp

lemmas maria_contains_parsed =
  maria_contains_iff [OF wf_pos_keys [OF parseMariaPos_wf]]

interpretation mariadb: gtid_laws mariadbGTID maria_reach
proof unfold_locales
  fix a A assume "maria_reach a = Inr A"
  then show "finite A" by (auto simp: maria_reach_Inr)
next
  fix a b
  show "gm_Contains mariadbGTID a b =
      bind_res (maria_reach a) (\<lambda>A. bind_res (maria_reach b) (\<lambda>B. Inr (B \<subseteq> A)))"
    by (cases "parseMariaPos a"; cases "parseMariaPos b")
      (simp_all add: mariadbGTID_def maria_reach_def maria_Contains_def maria_contains_parsed)
next
  fix a b
  show "gm_MissingCount mariadbGTID a b = bind_res (maria_reach a) (\<lambda>A. bind_res (maria_reach b) (\<lambda>B.
      Inr (min MaxInt64 (int (card (counted (B - A)))))))"
    by (cases "parseMariaPos a"; cases "parseMariaPos b")
      (simp_all add: mariadbGTID_def maria_reach_def maria_MissingCount_def maria_missing_correct
        wf_pos_keys parseMariaPos_wf MaxInt64_def)
next
  fix raws and As :: "(nat \<times> int) set list"
  assume "list_all2 (\<lambda>raw A. maria_reach raw = Inr A) raws As"
  from maria_union_correct [OF this wf_pos_Nil]
  obtain v where "maria_union [] raws = Inr v" "wf_pos v" "maria_set v = \<Union> (set As)" by auto
  then show "\<exists>out. gm_Union mariadbGTID raws = Inr out \<and> maria_reach out = Inr (\<Union> (set As))"
    using maria_parse_print [of v] by (auto simp: mariadbGTID_def maria_Union_def maria_reach_Inr)
next
  fix raw raws e
  assume "raw \<in> set raws" "maria_reach raw = Inl e"
  then show "\<exists>e'. gm_Union mariadbGTID raws = Inl e'"
    using maria_union_error [of raw raws e "[]"]
    by (cases "parseMariaPos raw") (auto simp: mariadbGTID_def maria_reach_def maria_Union_def)
next
  fix a b
  show "gm_Equal mariadbGTID a b =
      bind_res (maria_reach a) (\<lambda>A. bind_res (maria_reach b) (\<lambda>B. Inr (A = B)))"
    by (cases "parseMariaPos a"; cases "parseMariaPos b")
      (auto simp add: mariadbGTID_def maria_reach_def maria_Equal_def maria_contains_parsed)
next
  fix a b
  show "gm_Compare mariadbGTID a b =
      bind_res (maria_reach a) (\<lambda>A. bind_res (maria_reach b) (\<lambda>B. Inr (set_ordering A B)))"
    by (cases "parseMariaPos a"; cases "parseMariaPos b")
      (simp_all add: mariadbGTID_def maria_reach_def maria_Compare_def maria_contains_parsed
        orderingFromContainment_sets)
next
  fix a
  have "maria_isEmpty p \<longleftrightarrow> maria_set p = {}" for p
  proof (cases p)
    case (Cons x list)
    then have "(fst x, 0) \<in> maria_set p" by (auto simp: maria_set_def)
    with Cons show ?thesis by (auto simp: maria_isEmpty_def)
  qed (simp add: maria_isEmpty_def)
  then show "gm_IsEmpty mariadbGTID a = bind_res (maria_reach a) (\<lambda>A. Inr (A = {}))"
    by (cases "parseMariaPos a") (simp_all add: mariadbGTID_def maria_reach_def maria_IsEmpty_def)
next
  fix a A assume "maria_reach a = Inr A"
  then obtain p where p: "parseMariaPos a = Inr p" "A = maria_set p" by (auto simp: maria_reach_Inr)
  then show "\<exists>out. gm_Canonical mariadbGTID a = Inr out \<and> maria_reach out = Inr A"
    using maria_parse_print [OF parseMariaPos_wf [OF p(1)]]
    by (auto simp: mariadbGTID_def maria_Canonical_def maria_reach_Inr)
next
  fix a e assume "maria_reach a = Inl e"
  then show "gm_Canonical mariadbGTID a = Inl e"
    by (cases "parseMariaPos a") (auto simp: mariadbGTID_def maria_Canonical_def maria_reach_def)
next
  show "maria_reach [] = Inr {}"
    by (simp add: maria_reach_def parseMariaPos_def strip_spaces_def)
qed

section \<open>Properties\<close>



text \<open>A well-formed MariaDB position printed by \<open>String\<close> parses back to the same entry at every
  domain, the server that wrote the last transaction included.
\<close>

theorem mariaPos_roundtrip:
  assumes "wf_pos p"
  shows "\<exists>q. parseMariaPos (maria_string p) = Inr q \<and> wf_pos q \<and> map_of q = map_of p"
  using maria_parse_print [OF assms] by blast

theorem mariaPos_roundtrip_witness:
  "(\<exists>q. parseMariaPos (maria_string [(7, \<lparr>me_server = 3, me_seq = 9\<rparr>), (0, \<lparr>me_server = 1, me_seq = 12\<rparr>)]) = Inr q \<and>
     wf_pos q \<and> map_of q = map_of [(7, \<lparr>me_server = 3, me_seq = 9\<rparr>), (0, \<lparr>me_server = 1, me_seq = 12\<rparr>)]) \<and>
   maria_string [(7, \<lparr>me_server = 3, me_seq = 9\<rparr>), (0, \<lparr>me_server = 1, me_seq = 12\<rparr>)] = ''0-1-12,7-3-9''"
proof -
  have w: "wf_pos [(7, \<lparr>me_server = 3, me_seq = 9\<rparr>), (0, \<lparr>me_server = 1, me_seq = 12\<rparr>)]" by code_simp
  have "maria_string [(7, \<lparr>me_server = 3, me_seq = 9\<rparr>), (0, \<lparr>me_server = 1, me_seq = 12\<rparr>)] = ''0-1-12,7-3-9''"
    by code_simp
  with mariaPos_roundtrip [OF w] show ?thesis by blast
qed

text \<open>\<open>Canonical\<close> of MariaDB is not canonical for \<open>Equal\<close>: two positions that differ in the
  server of the last transaction only are equal to \<open>Equal\<close> and to \<open>Compare\<close> and print
  differently.
\<close>

theorem maria_Canonical_not_canonical:
  "maria_Equal ''0-1-100'' ''0-2-100'' = Inr True \<and>
   maria_Compare ''0-1-100'' ''0-2-100'' = Inr OrderingEqual \<and>
   maria_Canonical ''0-1-100'' = Inr ''0-1-100'' \<and> maria_Canonical ''0-2-100'' = Inr ''0-2-100''"
  by code_simp

end
