(* ===== verification/Mariadb_Timeline.thy ===== *)
theory Mariadb_Timeline
  imports Gtid_Model
begin

text \<open>
  The history of primaries of a MariaDB cluster (\<open>pkg/engine/mariadb_timeline.go\<close>): the
  verdict whether a transaction belongs to the surviving timeline, the sequence after which the
  branch of a dead primary is disowned, and the pruning of old epochs. The indices of the source's
  slices are kept; its index -1 is the integer -1. References are a Go map from names to positions.

  The lemmas relate the scan of \<open>containing\<close> to the number of epochs that start below a sequence,
  from which follow the soundness of the verdicts for every history the timeline describes, that
  pruning keeps every verdict on a reference it does not name, and what \<open>DeadAfter\<close> promises.
\<close>

section \<open>Identifiers and positions\<close>

definition MariaDBTimelineCeiling :: nat where
  "MariaDBTimelineCeiling = 256"

record MariaDBGTID =
  mg_Domain :: nat
  mg_Server :: nat
  mg_Seq :: nat

definition MariaDBGTID_String :: "MariaDBGTID \<Rightarrow> string" where
  "MariaDBGTID_String g =
     FormatUint (mg_Domain g) @ ''-'' @ FormatUint (mg_Server g) @ ''-'' @ FormatUint (mg_Seq g)"

definition ParseMariaDBGTID :: "string \<Rightarrow> MariaDBGTID res" where
  "ParseMariaDBGTID s =
     (let parts = split_on CHR ''-'' (TrimSpace s) in
      if length parts \<noteq> 3 then Inl (Errorf ''invalid mariadb gtid %q: want domain-server-seq'' [s])
      else (case ParseUint (parts ! 0) 32 of
              Inl e \<Rightarrow> Inl (Wrapf ''invalid mariadb gtid domain in %q: %w'' [s] e)
            | Inr domain \<Rightarrow>
                (case ParseUint (parts ! 1) 32 of
                   Inl e \<Rightarrow> Inl (Wrapf ''invalid mariadb gtid server_id in %q: %w'' [s] e)
                 | Inr server \<Rightarrow>
                     (case ParseUint (parts ! 2) 64 of
                        Inl e \<Rightarrow> Inl (Wrapf ''invalid mariadb gtid sequence in %q: %w'' [s] e)
                      | Inr seq \<Rightarrow>
                          Inr \<lparr>mg_Domain = domain, mg_Server = server, mg_Seq = seq\<rparr>))))"

definition ParseMariaDBPosition :: "string \<Rightarrow> MariaDBGTID list res" where
  "ParseMariaDBPosition pos =
     bind_res (parseMariaPos pos) (\<lambda>parsed.
       Inr (sort_key mg_Domain
              (map (\<lambda>(domain, e). \<lparr>mg_Domain = domain, mg_Server = me_server e, mg_Seq = me_seq e\<rparr>) parsed)))"

section \<open>The timeline and its projection onto a domain\<close>

record MariaDBEpoch =
  ServerID :: nat
  Handoff :: string

type_synonym MariaDBTimeline = "MariaDBEpoch list"

record domainView =
  starts :: "nat list"
  handoffServer :: "nat list"
  valid :: bool

definition no_view :: domainView where
  "no_view = \<lparr>starts = [], handoffServer = [], valid = False\<rparr>"

fun domain_loop :: "nat \<Rightarrow> MariaDBTimeline \<Rightarrow> nat list \<Rightarrow> nat list \<Rightarrow> domainView" where
  "domain_loop d [] ss hs = \<lparr>starts = ss, handoffServer = hs, valid = True\<rparr>"
| "domain_loop d (epoch # t) ss hs =
     (case parseMariaPos (Handoff epoch) of
        Inl _ \<Rightarrow> no_view
      | Inr pos \<Rightarrow>
          (let (s, h) = (case map_of pos d of Some e \<Rightarrow> (me_seq e, me_server e) | None \<Rightarrow> (0, 0)) in
           if ss \<noteq> [] \<and> s < last ss then no_view
           else domain_loop d t (ss @ [s]) (hs @ [h])))"

definition timeline_domain :: "MariaDBTimeline \<Rightarrow> nat \<Rightarrow> domainView" where
  "timeline_domain t d = domain_loop d t [] []"

fun containing_loop :: "nat list \<Rightarrow> nat \<Rightarrow> nat \<Rightarrow> int \<Rightarrow> int" where
  "containing_loop [] i seq idx = idx"
| "containing_loop (start # ss) i seq idx =
     containing_loop ss (Suc i) seq (if start < seq then int i else idx)"

definition containing :: "domainView \<Rightarrow> nat \<Rightarrow> int" where
  "containing v seq = containing_loop (starts v) 0 seq (- 1)"

section \<open>Verdicts\<close>

text \<open>The pair the source returns: whether the transaction is on the timeline, and whether that is known.\<close>

definition Verdict :: "MariaDBTimeline \<Rightarrow> MariaDBGTID \<Rightarrow> bool \<times> bool" where
  "Verdict t g =
     (if length t = 0 \<or> mg_Seq g = 0 then (False, False)
      else let v = timeline_domain t (mg_Domain g) in
        if \<not> valid v then (False, False)
        else let i = containing v (mg_Seq g) in
          if i < 0 then (False, False)
          else let i = nat i; next = i + 1 in
            if next < length t \<and> handoffServer v ! next \<noteq> ServerID (t ! i)
            then (if mg_Seq g = starts v ! next
                  then (mg_Server g = handoffServer v ! next, True) else (False, False))
            else (mg_Server g = ServerID (t ! i), True))"

fun judge_loop :: "MariaDBTimeline \<Rightarrow> MariaDBGTID list \<Rightarrow> bool \<Rightarrow> bool \<times> bool" where
  "judge_loop t [] allKnown = (if \<not> allKnown then (False, False) else (True, True))"
| "judge_loop t (g # gs) allKnown =
     (let (on, k) = Verdict t g in
      if k \<and> \<not> on then (False, True)
      else judge_loop t gs (if \<not> k then False else allKnown))"

definition Judge :: "MariaDBTimeline \<Rightarrow> string \<Rightarrow> (bool \<times> bool) res" where
  "Judge t pos = bind_res (ParseMariaDBPosition pos) (\<lambda>gs. Inr (judge_loop t gs True))"

fun dead_loop :: "MariaDBTimeline \<Rightarrow> domainView \<Rightarrow> nat \<Rightarrow> nat \<Rightarrow> nat" where
  "dead_loop t v server 0 = starts v ! 0"
| "dead_loop t v server (Suc k) =
     (if ServerID (t ! k) = server \<or> handoffServer v ! (k + 1) = server then starts v ! (k + 1)
      else dead_loop t v server k)"

definition DeadAfter :: "MariaDBTimeline \<Rightarrow> MariaDBGTID \<Rightarrow> nat option" where
  "DeadAfter t g =
     (let (on, known) = Verdict t g in
      if on \<or> \<not> known then None
      else let v = timeline_domain t (mg_Domain g); i = containing v (mg_Seq g) in
        Some (dead_loop t v (mg_Server g) (nat i)))"

section \<open>Pruning\<close>

record PruneResult =
  pr_Timeline :: MariaDBTimeline
  pr_Dropped :: nat
  pr_Truncated :: bool
  pr_PinnedBy :: "string list"

text \<open>Some domain of the reference sits at or below the floor.\<close>

fun at_floor :: "mariaPos \<Rightarrow> mariaPos \<Rightarrow> bool" where
  "at_floor floor [] = False"
| "at_floor floor ((domain, e) # pos) =
     (case map_of floor domain of
        Some f \<Rightarrow> if me_seq e \<le> me_seq f then True else at_floor floor pos
      | None \<Rightarrow> at_floor floor pos)"

definition pins :: "MariaDBEpoch \<Rightarrow> string \<Rightarrow> bool" where
  "pins next raw =
     (case parseMariaPos raw of
        Inl _ \<Rightarrow> True
      | Inr pos \<Rightarrow> (case parseMariaPos (Handoff next) of Inl _ \<Rightarrow> True | Inr floor \<Rightarrow> at_floor floor pos))"

definition pinners :: "MariaDBEpoch \<Rightarrow> (string, string) gomap \<Rightarrow> string list" where
  "pinners next refs = sort (map fst (filter (\<lambda>(name, raw). pins next raw) refs))"

fun prune_unpinned :: "(string, string) gomap \<Rightarrow> MariaDBTimeline \<Rightarrow> nat \<Rightarrow> MariaDBTimeline \<times> nat" where
  "prune_unpinned refs (e0 # e1 # t) dropped =
     (if length (pinners e1 refs) = 0 then prune_unpinned refs (e1 # t) (dropped + 1)
      else (e0 # e1 # t, dropped))"
| "prune_unpinned refs t dropped = (t, dropped)"

fun add_names :: "string list \<Rightarrow> string list \<Rightarrow> string list" where
  "add_names pinned [] = pinned"
| "add_names pinned (name # names) =
     add_names (if name \<in> set pinned then pinned else pinned @ [name]) names"

fun prune_ceiling :: "(string, string) gomap \<Rightarrow> int \<Rightarrow> PruneResult \<Rightarrow> MariaDBTimeline \<Rightarrow> PruneResult" where
  "prune_ceiling refs ceiling res (e0 # e1 # t) =
     (if ceiling > 0 \<and> int (length (e0 # e1 # t)) > ceiling
      then prune_ceiling refs ceiling
             (res\<lparr>pr_PinnedBy := add_names (pr_PinnedBy res) (pinners e1 refs),
                  pr_Dropped := pr_Dropped res + 1, pr_Truncated := True\<rparr>) (e1 # t)
      else res\<lparr>pr_Timeline := e0 # e1 # t\<rparr>)"
| "prune_ceiling refs ceiling res t = res\<lparr>pr_Timeline := t\<rparr>"

definition PruneMariaDBTimeline :: "MariaDBTimeline \<Rightarrow> (string, string) gomap \<Rightarrow> int \<Rightarrow> PruneResult" where
  "PruneMariaDBTimeline t refs ceiling =
     (let (kept, dropped) = prune_unpinned refs t 0;
          res = prune_ceiling refs ceiling
                  \<lparr>pr_Timeline = kept, pr_Dropped = dropped, pr_Truncated = False, pr_PinnedBy = []\<rparr> kept
      in res\<lparr>pr_PinnedBy := sort (pr_PinnedBy res)\<rparr>)"

section \<open>The projection onto a domain\<close>

definition readable :: "MariaDBEpoch \<Rightarrow> bool" where
  "readable ep = is_ok (parseMariaPos (Handoff ep))"

definition inherited :: "nat \<Rightarrow> MariaDBEpoch \<Rightarrow> mariaEntry" where
  "inherited d ep =
     (case parseMariaPos (Handoff ep) of
        Inl _ \<Rightarrow> \<lparr>me_server = 0, me_seq = 0\<rparr> | Inr pos \<Rightarrow> entry_at pos d)"

abbreviation "start_in d ep \<equiv> me_seq (inherited d ep)"
abbreviation "author_of_start d ep \<equiv> me_server (inherited d ep)"

definition one_chain :: "MariaDBTimeline \<Rightarrow> nat \<Rightarrow> bool" where
  "one_chain t d \<longleftrightarrow> list_all readable t \<and> sorted (map (start_in d) t)"

lemma sorted_last: "sorted (xs :: nat list) \<Longrightarrow> x \<in> set xs \<Longrightarrow> x \<le> last xs"
  by (induction xs) auto

lemma sorted_snoc:
  assumes s: "sorted (xs :: nat list)"
  shows "sorted (xs @ [x]) \<longleftrightarrow> xs = [] \<or> last xs \<le> x"
proof (cases "xs = []")
  case False
  then have "(\<forall>y \<in> set xs. y \<le> x) \<longleftrightarrow> last xs \<le> x"
    using sorted_last [OF s] last_in_set le_trans by blast
  with False s show ?thesis by (simp add: sorted_append)
qed simp

lemma domain_loop_correct:
  assumes "sorted ss"
  shows "domain_loop d t ss hs =
    (if list_all readable t \<and> sorted (ss @ map (start_in d) t)
     then \<lparr>starts = ss @ map (start_in d) t, handoffServer = hs @ map (author_of_start d) t, valid = True\<rparr>
     else no_view)"
  using assms
proof (induction d t ss hs rule: domain_loop.induct)
  case (1 d ss hs)
  then show ?case by simp
next
  case (2 d ep t ss hs)
  show ?case
  proof (cases "parseMariaPos (Handoff ep)")
    case (Inl e)
    then show ?thesis by (simp add: readable_def)
  next
    case (Inr pos)
    let ?s = "start_in d ep" and ?h = "author_of_start d ep"
    have sh: "(case map_of pos d of Some e \<Rightarrow> (me_seq e, me_server e) | None \<Rightarrow> (0, 0)) = (?s, ?h)"
      using Inr by (simp add: inherited_def entry_at_def split: option.splits)
    have r: "readable ep" using Inr by (simp add: readable_def)
    have srt: "ss \<noteq> [] \<and> ?s < last ss \<longleftrightarrow> \<not> sorted (ss @ [?s])"
      unfolding sorted_snoc [OF "2.prems"] by auto
    show ?thesis
    proof (cases "sorted (ss @ [?s])")
      case True
      then have "domain_loop d (ep # t) ss hs = domain_loop d t (ss @ [?s]) (hs @ [?h])"
        unfolding domain_loop.simps Inr sum.case sh using srt by auto
      also have "\<dots> = (if list_all readable t \<and> sorted ((ss @ [?s]) @ map (start_in d) t)
        then \<lparr>starts = (ss @ [?s]) @ map (start_in d) t,
          handoffServer = (hs @ [?h]) @ map (author_of_start d) t, valid = True\<rparr> else no_view)"
        using srt True by (intro "2.IH" [OF Inr sh [symmetric] refl]) auto
      finally show ?thesis using r by (simp del: domain_loop.simps)
    next
      case False
      then have "\<not> sorted (ss @ ?s # map (start_in d) t)" by (auto simp: sorted_append)
      moreover have "domain_loop d (ep # t) ss hs = no_view"
        unfolding domain_loop.simps Inr sum.case sh using srt False by simp
      ultimately show ?thesis by (simp del: domain_loop.simps)
    qed
  qed
qed

lemma timeline_domain_correct:
  "timeline_domain t d =
     (if one_chain t d
      then \<lparr>starts = map (start_in d) t, handoffServer = map (author_of_start d) t, valid = True\<rparr>
      else no_view)"
  by (simp add: timeline_domain_def domain_loop_correct one_chain_def)

lemma valid_no_view [simp]: "\<not> valid no_view"
  by (simp add: no_view_def)

lemma containing_loop_sorted:
  assumes "sorted ss"
  shows "containing_loop ss i seq idx =
    (let n = length (filter (\<lambda>s. s < seq) ss) in if n = 0 then idx else int (i + n) - 1)"
  using assms
proof (induction ss i seq idx rule: containing_loop.induct)
  case (2 start ss i seq idx)
  then have "filter (\<lambda>s. s < seq) ss = []" if "\<not> start < seq"
    using that by (auto simp: filter_empty_conv)
  with 2 show ?case by (auto simp: Let_def)
qed simp

text \<open>How many epochs of the timeline start below \<open>seq\<close>.\<close>

definition epochs_below :: "MariaDBTimeline \<Rightarrow> nat \<Rightarrow> nat \<Rightarrow> nat" where
  "epochs_below t d seq = length (filter (\<lambda>ep. start_in d ep < seq) t)"

lemma epochs_below_le: "epochs_below t d seq \<le> length t"
  by (simp add: epochs_below_def)

lemma containing_correct:
  "one_chain t d \<Longrightarrow> containing (timeline_domain t d) seq = int (epochs_below t d seq) - 1"
  by (simp add: containing_def timeline_domain_correct one_chain_def containing_loop_sorted Let_def
      epochs_below_def filter_map comp_def)

lemma epochs_below_nth:
  assumes "sorted (map (start_in d) t)" "j < length t"
  shows "j < epochs_below t d seq \<longleftrightarrow> start_in d (t ! j) < seq"
  using assms
proof (induction t arbitrary: j)
  case (Cons ep t)
  show ?case
  proof (cases "start_in d ep < seq")
    case True
    then show ?thesis using Cons by (cases j) (auto simp: epochs_below_def)
  next
    case False
    then have "\<forall>ep' \<in> set (ep # t). \<not> start_in d ep' < seq" using Cons.prems(1) by force
    then have "epochs_below (ep # t) d seq = 0" by (auto simp: epochs_below_def filter_empty_conv)
    moreover have "\<not> start_in d ((ep # t) ! j) < seq"
      using \<open>\<forall>ep' \<in> set (ep # t). _\<close> nth_mem [OF Cons.prems(2)] by blast
    ultimately show ?thesis by simp
  qed
qed simp

lemma Verdict_eq:
  "Verdict t g =
    (let d = mg_Domain g; n = epochs_below t d (mg_Seq g) in
     if mg_Seq g = 0 \<or> \<not> one_chain t d \<or> n = 0 then (False, False)
     else if n < length t \<and> author_of_start d (t ! n) \<noteq> ServerID (t ! (n - 1))
     then (if mg_Seq g = start_in d (t ! n) then (mg_Server g = author_of_start d (t ! n), True)
           else (False, False))
     else (mg_Server g = ServerID (t ! (n - 1)), True))"
proof (cases "t = []")
  case True
  then show ?thesis by (simp add: Verdict_def Let_def epochs_below_def)
next
  case ne: False
  show ?thesis
  proof (cases "one_chain t (mg_Domain g)")
    case True
    have n: "nat (int (epochs_below t (mg_Domain g) (mg_Seq g)) - 1) =
        epochs_below t (mg_Domain g) (mg_Seq g) - 1" by simp
    have v: "handoffServer (timeline_domain t (mg_Domain g)) = map (author_of_start (mg_Domain g)) t"
      "starts (timeline_domain t (mg_Domain g)) = map (start_in (mg_Domain g)) t"
      "valid (timeline_domain t (mg_Domain g))"
      using True by (simp_all add: timeline_domain_correct)
    show ?thesis
      unfolding Verdict_def Let_def containing_correct [OF True] v n using ne True v(3) by auto
  next
    case False
    then show ?thesis by (simp add: Verdict_def timeline_domain_correct Let_def)
  qed
qed

section \<open>Soundness of the verdicts\<close>

text \<open>
  A history of domain \<open>d\<close> gives the author of every sequence number. The timeline describes it
  when every epoch inherited its handoff transaction from the author the history has for it, every
  stretch whose successor inherited from the epoch's own primary was written by that primary, and
  so was everything after the newest handoff. Nothing is said of the other stretches, nor of what
  predates the oldest handoff.
\<close>

definition describes :: "MariaDBTimeline \<Rightarrow> nat \<Rightarrow> (nat \<Rightarrow> nat) \<Rightarrow> bool" where
  "describes t d author \<longleftrightarrow>
     (\<forall>i < length t. 0 < start_in d (t ! i) \<longrightarrow> author (start_in d (t ! i)) = author_of_start d (t ! i)) \<and>
     (\<forall>i. Suc i < length t \<longrightarrow> author_of_start d (t ! Suc i) = ServerID (t ! i) \<longrightarrow>
        (\<forall>s. start_in d (t ! i) < s \<longrightarrow> s \<le> start_in d (t ! Suc i) \<longrightarrow> author s = ServerID (t ! i))) \<and>
     (t \<noteq> [] \<longrightarrow> (\<forall>s. start_in d (last t) < s \<longrightarrow> author s = ServerID (last t)))"

lemma Verdict_describes:
  assumes d: "describes t (mg_Domain g) author" and v: "Verdict t g = (on, True)"
  shows "on \<longleftrightarrow> author (mg_Seq g) = mg_Server g"
proof -
  let ?d = "mg_Domain g" and ?s = "mg_Seq g"
  let ?n = "epochs_below t ?d ?s"
  have c: "one_chain t ?d" "?s \<noteq> 0" "?n \<noteq> 0"
    using v by (auto simp: Verdict_eq Let_def split: if_splits)
  then have srt: "sorted (map (start_in ?d) t)" by (simp add: one_chain_def)
  have n1: "?n - 1 < length t" "Suc (?n - 1) = ?n" using epochs_below_le [of t ?d ?s] c(3) by linarith+
  have lo: "start_in ?d (t ! (?n - 1)) < ?s"
    using epochs_below_nth [OF srt n1(1), of ?s] c(3) by simp
  show ?thesis
  proof (cases "?n < length t")
    case True
    then have hi: "?s \<le> start_in ?d (t ! ?n)" using epochs_below_nth [OF srt True, of ?s] by simp
    show ?thesis
    proof (cases "author_of_start ?d (t ! ?n) = ServerID (t ! (?n - 1))")
      case same: True
      then have "on \<longleftrightarrow> mg_Server g = ServerID (t ! (?n - 1))"
        using v c by (simp add: Verdict_eq Let_def)
      moreover have "author ?s = ServerID (t ! (?n - 1))"
        using d same lo hi True n1(2) unfolding describes_def by metis
      ultimately show ?thesis by auto
    next
      case False
      then have "?s = start_in ?d (t ! ?n)" "on \<longleftrightarrow> mg_Server g = author_of_start ?d (t ! ?n)"
        using v c True by (auto simp: Verdict_eq Let_def split: if_splits)
      moreover have "0 < start_in ?d (t ! ?n)" using calculation(1) c(2) by linarith
      then have "author (start_in ?d (t ! ?n)) = author_of_start ?d (t ! ?n)"
        using d True unfolding describes_def by blast
      ultimately show ?thesis by auto
    qed
  next
    case False
    then have "?n = length t" using epochs_below_le [of t ?d ?s] by simp
    then have last: "t ! (?n - 1) = last t" "t \<noteq> []" using c(3) by (auto simp: last_conv_nth)
    then have "author ?s = ServerID (last t)" using d lo unfolding describes_def by simp
    moreover have "on \<longleftrightarrow> mg_Server g = ServerID (last t)"
      using v c False last by (simp add: Verdict_eq Let_def)
    ultimately show ?thesis by auto
  qed
qed

section \<open>Pruning keeps the verdicts\<close>

lemma Verdict_tl:
  assumes "start_in (mg_Domain g) e1 < mg_Seq g" "Verdict (e0 # e1 # t) g = (on, True)"
  shows "Verdict (e1 # t) g = (on, True)"
proof -
  let ?d = "mg_Domain g" and ?s = "mg_Seq g"
  have c: "one_chain (e0 # e1 # t) ?d" "?s \<noteq> 0"
    using assms(2) by (auto simp: Verdict_eq Let_def split: if_splits)
  then have c': "one_chain (e1 # t) ?d" and e: "start_in ?d e0 < ?s"
    using assms(1) by (auto simp: one_chain_def)
  define m where "m = epochs_below (e1 # t) ?d ?s"
  have m: "epochs_below (e0 # e1 # t) ?d ?s = Suc m" "m \<noteq> 0"
    using assms(1) e by (auto simp: m_def epochs_below_def)
  then obtain k where k: "m = Suc k" using not0_implies_Suc by blast
  show ?thesis
    using assms(2) c c'
    unfolding Verdict_eq Let_def m_def [symmetric] m(1) k by (simp split: if_splits)
qed

lemma judge_loop_known:
  assumes "judge_loop t gs ak = (on, True)"
    and "\<And>g on. g \<in> set gs \<Longrightarrow> Verdict t g = (on, True) \<Longrightarrow> Verdict t' g = (on, True)"
    and "ak \<longrightarrow> ak'"
  shows "judge_loop t' gs ak' = (on, True)"
  using assms
proof (induction gs arbitrary: ak ak')
  case (Cons g gs)
  obtain o1 k1 where v: "Verdict t g = (o1, k1)" by force
  obtain o2 k2 where v': "Verdict t' g = (o2, k2)" by force
  have never: "judge_loop t gs False = (b, True) \<Longrightarrow> b = False" for b
    by (induction gs) (auto split: if_splits prod.splits)
  have keep: "k1 \<Longrightarrow> o2 = o1 \<and> k2" using Cons.prems(2) [of g o1] v v' by auto
  show ?case
  proof (cases "k1")
    case True
    then show ?thesis
      using Cons.prems keep v v' Cons.IH [of ak ak'] by (auto split: if_splits)
  next
    case False
    then have j: "judge_loop t gs False = (on, True)" using Cons.prems(1) v by simp
    then show ?thesis
      using never [OF j] Cons.IH [OF j] Cons.prems(2) v' by (auto split: if_splits)
  qed
qed (auto split: if_splits)

lemma at_floor_iff:
  "at_floor floor pos \<longleftrightarrow> (\<exists>(d, e) \<in> set pos. \<exists>f. map_of floor d = Some f \<and> me_seq e \<le> me_seq f)"
  by (induction floor pos rule: at_floor.induct) (auto split: option.splits)

lemma not_pins_above:
  assumes "\<not> pins e1 raw" "ParseMariaDBPosition raw = Inr gs" "g \<in> set gs" "mg_Seq g \<noteq> 0"
  shows "start_in (mg_Domain g) e1 < mg_Seq g"
proof -
  obtain pos floor where p: "parseMariaPos raw = Inr pos" "parseMariaPos (Handoff e1) = Inr floor"
    and nf: "\<not> at_floor floor pos"
    using assms(1) by (auto simp: pins_def split: sum.splits)
  obtain d e where g: "(d, e) \<in> set pos" "mg_Domain g = d" "mg_Seq g = me_seq e"
    using assms(2,3) p(1) by (auto simp: ParseMariaDBPosition_def)
  show ?thesis
  proof (cases "map_of floor d")
    case None
    then show ?thesis using p(2) g assms(4) by (simp add: inherited_def entry_at_def)
  next
    case (Some f)
    then show ?thesis using p(2) g nf by (force simp: inherited_def entry_at_def at_floor_iff)
  qed
qed

lemma Judge_tl:
  assumes "\<not> pins e1 raw" "Judge (e0 # e1 # t) raw = Inr (on, True)"
  shows "Judge (e1 # t) raw = Inr (on, True)"
proof -
  obtain gs where gs: "ParseMariaDBPosition raw = Inr gs" "judge_loop (e0 # e1 # t) gs True = (on, True)"
    using assms(2) by (auto simp: Judge_def go_simps)
  have "Verdict (e1 # t) g = (b, True)" if "g \<in> set gs" "Verdict (e0 # e1 # t) g = (b, True)" for g b
  proof -
    have "mg_Seq g \<noteq> 0" using that(2) by (auto simp: Verdict_def split: if_splits)
    with that show ?thesis using not_pins_above [OF assms(1) gs(1)] Verdict_tl by blast
  qed
  then have "judge_loop (e1 # t) gs True = (on, True)" using judge_loop_known [OF gs(2)] by blast
  then show ?thesis using gs(1) by (simp add: Judge_def)
qed

lemma set_pinners: "name \<in> set (pinners next refs) \<longleftrightarrow> (\<exists>raw. (name, raw) \<in> set refs \<and> pins next raw)"
  by (force simp: pinners_def)

lemma drop_Cons_diff: "Suc n \<le> n' \<Longrightarrow> drop (n' - n) (x # xs) = drop (n' - Suc n) xs"
  by (metis Suc_diff_Suc Suc_le_lessD drop_Suc_Cons)

lemma prune_unpinned_correct:
  "prune_unpinned refs t n = (t', n') \<Longrightarrow>
   t' = drop (n' - n) t \<and> n \<le> n' \<and> (t \<noteq> [] \<longrightarrow> t' \<noteq> []) \<and>
   (\<forall>name raw on. (name, raw) \<in> set refs \<longrightarrow> Judge t raw = Inr (on, True) \<longrightarrow> Judge t' raw = Inr (on, True))"
proof (induction refs t n rule: prune_unpinned.induct)
  case (1 refs e0 e1 t n)
  show ?case
  proof (cases "pinners e1 refs = []")
    case True
    then have np: "\<not> pins e1 raw" if "(name, raw) \<in> set refs" for name raw
      using that set_pinners [of name e1 refs] by auto
    have r: "prune_unpinned refs (e1 # t) (n + 1) = (t', n')" using "1.prems" True by simp
    have "length (pinners e1 refs) = 0" using True by simp
    from "1.IH" [OF this r] have ih: "t' = drop (n' - (n + 1)) (e1 # t)" "n + 1 \<le> n'" "t' \<noteq> []"
      "\<And>name raw on. (name, raw) \<in> set refs \<Longrightarrow> Judge (e1 # t) raw = Inr (on, True) \<Longrightarrow> Judge t' raw = Inr (on, True)"
      by auto
    have "t' = drop (n' - n) (e0 # e1 # t)" using ih(1,2) by (simp add: drop_Cons_diff)
    moreover have "Judge t' raw = Inr (on, True)"
      if "(name, raw) \<in> set refs" "Judge (e0 # e1 # t) raw = Inr (on, True)" for name raw on
      using ih(4) [OF that(1) Judge_tl [OF np [OF that(1)] that(2)]] .
    ultimately show ?thesis using ih(2,3) by auto
  qed (use "1.prems" in auto)
qed auto

lemma set_add_names: "set (add_names pinned names) = set pinned \<union> set names"
  by (induction pinned names rule: add_names.induct) auto

lemma distinct_add_names: "distinct pinned \<Longrightarrow> distinct (add_names pinned names)"
  by (induction pinned names rule: add_names.induct) auto

lemma prune_ceiling_correct:
  assumes "prune_ceiling refs ceiling res t = res'"
  shows "pr_Timeline res' = drop (pr_Dropped res' - pr_Dropped res) t \<and> pr_Dropped res \<le> pr_Dropped res' \<and>
    (t \<noteq> [] \<longrightarrow> pr_Timeline res' \<noteq> []) \<and>
    (0 < ceiling \<longrightarrow> int (length (pr_Timeline res')) \<le> ceiling) \<and>
    set (pr_PinnedBy res) \<subseteq> set (pr_PinnedBy res') \<and>
    (pr_Truncated res' \<longleftrightarrow> pr_Truncated res \<or> 0 < ceiling \<and> ceiling < int (length t)) \<and>
    (distinct (pr_PinnedBy res) \<longrightarrow> distinct (pr_PinnedBy res')) \<and>
    (\<forall>name raw on. (name, raw) \<in> set refs \<longrightarrow> name \<notin> set (pr_PinnedBy res') \<longrightarrow>
       Judge t raw = Inr (on, True) \<longrightarrow> Judge (pr_Timeline res') raw = Inr (on, True))"
  using assms
proof (induction refs ceiling res t rule: prune_ceiling.induct)
  case (1 refs ceiling res e0 e1 t)
  show ?case
  proof (cases "ceiling > 0 \<and> int (length (e0 # e1 # t)) > ceiling")
    case True
    let ?res = "res\<lparr>pr_PinnedBy := add_names (pr_PinnedBy res) (pinners e1 refs),
                  pr_Dropped := pr_Dropped res + 1, pr_Truncated := True\<rparr>"
    have r: "prune_ceiling refs ceiling ?res (e1 # t) = res'" using "1.prems" True by simp
    note ih = "1.IH" [OF True r]
    have "pr_Timeline res' = drop (pr_Dropped res' - pr_Dropped res) (e0 # e1 # t)"
      using ih by (simp add: drop_Cons_diff)
    moreover have "Judge (pr_Timeline res') raw = Inr (on, True)"
      if "(name, raw) \<in> set refs" "name \<notin> set (pr_PinnedBy res')" "Judge (e0 # e1 # t) raw = Inr (on, True)"
      for name raw on
    proof -
      have "\<not> pins e1 raw" using that(1,2) ih set_pinners [of name e1 refs] by (auto simp: set_add_names)
      from Judge_tl [OF this that(3)] show ?thesis using ih that(1,2) by blast
    qed
    ultimately show ?thesis using ih True by (auto simp: set_add_names distinct_add_names)
  next
    case False
    then show ?thesis using "1.prems" by auto
  qed
qed auto

lemma PruneMariaDBTimeline_correct:
  assumes "PruneMariaDBTimeline t refs ceiling = res"
  shows "pr_Timeline res = drop (pr_Dropped res) t \<and> (t \<noteq> [] \<longrightarrow> pr_Timeline res \<noteq> []) \<and>
    (0 < ceiling \<longrightarrow> int (length (pr_Timeline res)) \<le> ceiling) \<and>
    (pr_PinnedBy res \<noteq> [] \<longrightarrow> pr_Truncated res) \<and>
    sorted (pr_PinnedBy res) \<and> distinct (pr_PinnedBy res) \<and>
    (\<forall>name raw on. (name, raw) \<in> set refs \<longrightarrow> name \<notin> set (pr_PinnedBy res) \<longrightarrow>
       Judge t raw = Inr (on, True) \<longrightarrow> Judge (pr_Timeline res) raw = Inr (on, True))"
proof -
  obtain kept n where u: "prune_unpinned refs t 0 = (kept, n)" by force
  define r0 where "r0 = \<lparr>pr_Timeline = kept, pr_Dropped = n, pr_Truncated = False, pr_PinnedBy = []\<rparr>"
  define r1 where "r1 = prune_ceiling refs ceiling r0 kept"
  have res: "res = r1\<lparr>pr_PinnedBy := sort (pr_PinnedBy r1)\<rparr>"
    using assms u by (simp add: PruneMariaDBTimeline_def r1_def r0_def Let_def)
  note U = prune_unpinned_correct [OF u]
  note Q = prune_ceiling_correct [OF r1_def [symmetric], unfolded r0_def, simplified]
  have "pr_Timeline r1 = drop (pr_Dropped r1) t"
  proof -
    have "pr_Timeline r1 = drop (pr_Dropped r1 - n) (drop n t)" "n \<le> pr_Dropped r1" using U Q by auto
    then show ?thesis by simp
  qed
  moreover have "pr_PinnedBy r1 \<noteq> [] \<longrightarrow> pr_Truncated r1"
  proof -
    have "pr_Truncated r1 \<or> r1 = r0\<lparr>pr_Timeline := kept\<rparr>"
      using Q by (cases "(refs, ceiling, r0, kept)" rule: prune_ceiling.cases) (auto simp: r1_def)
    then show ?thesis by (auto simp: r0_def)
  qed
  moreover have "Judge (pr_Timeline r1) raw = Inr (on, True)"
    if "(name, raw) \<in> set refs" "name \<notin> set (pr_PinnedBy r1)" "Judge t raw = Inr (on, True)"
    for name raw on using U Q that by blast
  moreover have "sort (pr_PinnedBy r1) \<noteq> [] \<longleftrightarrow> pr_PinnedBy r1 \<noteq> []"
    by (metis set_empty set_sort)
  ultimately show ?thesis unfolding res using U Q by (intro conjI) auto
qed

section \<open>Dead branches\<close>

lemma dead_loop_correct:
  assumes "one_chain t d" "i < length t"
  shows "\<exists>j \<le> i. dead_loop t (timeline_domain t d) srv i = start_in d (t ! j) \<and>
    (\<forall>k. j \<le> k \<longrightarrow> k < i \<longrightarrow> ServerID (t ! k) \<noteq> srv \<and> author_of_start d (t ! Suc k) \<noteq> srv)"
  using assms(2)
proof (induction i)
  case 0
  then show ?case using assms(1) by (auto simp: timeline_domain_correct)
next
  case (Suc i)
  show ?case
  proof (cases "ServerID (t ! i) = srv \<or> author_of_start d (t ! Suc i) = srv")
    case True
    then show ?thesis using Suc.prems assms(1)
      by (intro exI [of _ "Suc i"]) (auto simp: timeline_domain_correct)
  next
    case False
    from Suc obtain j where "j \<le> i" "dead_loop t (timeline_domain t d) srv i = start_in d (t ! j)"
      "\<forall>k. j \<le> k \<longrightarrow> k < i \<longrightarrow> ServerID (t ! k) \<noteq> srv \<and> author_of_start d (t ! Suc k) \<noteq> srv" by auto
    with False show ?thesis using Suc.prems assms(1)
      by (intro exI [of _ j]) (auto simp: timeline_domain_correct less_Suc_eq)
  qed
qed

lemma epochs_below_mono: "s \<le> s' \<Longrightarrow> epochs_below t d s \<le> epochs_below t d s'"
  by (induction t) (auto simp: epochs_below_def)

lemma Verdict_on:
  assumes "Verdict t g = (True, True)"
  shows "0 < epochs_below t (mg_Domain g) (mg_Seq g)"
    "mg_Server g = ServerID (t ! (epochs_below t (mg_Domain g) (mg_Seq g) - 1)) \<or>
     epochs_below t (mg_Domain g) (mg_Seq g) < length t \<and>
     mg_Server g = author_of_start (mg_Domain g) (t ! epochs_below t (mg_Domain g) (mg_Seq g))"
  using assms by (auto simp: Verdict_eq Let_def split: if_splits)

lemma nat_int_pred: "nat (int n - 1) = n - 1"
  by simp

lemma DeadAfter_sound:
  assumes "DeadAfter t g = Some n"
  shows "n < mg_Seq g"
    and "n < s \<Longrightarrow> s \<le> mg_Seq g \<Longrightarrow> Verdict t (g\<lparr>mg_Seq := s\<rparr>) \<noteq> (True, True)"
proof -
  let ?d = "mg_Domain g" let ?N = "epochs_below t ?d (mg_Seq g)"
  have off: "Verdict t g = (False, True)"
    and n: "n = dead_loop t (timeline_domain t ?d) (mg_Server g) (nat (containing (timeline_domain t ?d) (mg_Seq g)))"
    using assms by (auto simp: DeadAfter_def Let_def split: prod.splits if_splits)
  have c: "one_chain t ?d" "?N \<noteq> 0"
    using off by (auto simp: Verdict_eq Let_def split: if_splits)
  then have srt: "sorted (map (start_in ?d) t)" by (simp add: one_chain_def)
  have N: "?N - 1 < length t" using epochs_below_le [of t ?d "mg_Seq g"] c(2) by linarith
  have "n = dead_loop t (timeline_domain t ?d) (mg_Server g) (?N - 1)"
    using n nat_int_pred by (simp only: containing_correct [OF c(1)])
  with dead_loop_correct [OF c(1) N, of "mg_Server g"] obtain j where j: "j \<le> ?N - 1" "n = start_in ?d (t ! j)"
    and none: "\<And>k. j \<le> k \<Longrightarrow> k < ?N - 1 \<Longrightarrow>
      ServerID (t ! k) \<noteq> mg_Server g \<and> author_of_start ?d (t ! Suc k) \<noteq> mg_Server g"
    by auto
  have jl: "j < length t" using j(1) N by linarith
  have "j < ?N" using j(1) c(2) by linarith
  then show "n < mg_Seq g" using epochs_below_nth [OF srt jl, of "mg_Seq g"] j(2) by simp
  assume s: "n < s" "s \<le> mg_Seq g"
  let ?m = "epochs_below t ?d s"
  have m: "j < ?m" "?m \<le> ?N"
    using epochs_below_nth [OF srt jl, of s] j(2) s epochs_below_mono by auto
  show "Verdict t (g\<lparr>mg_Seq := s\<rparr>) \<noteq> (True, True)"
  proof
    assume on: "Verdict t (g\<lparr>mg_Seq := s\<rparr>) = (True, True)"
    show False
    proof (cases "?m = ?N")
      case True
      then show ?thesis using Verdict_on(2) [OF on] off c on
        by (auto simp: Verdict_eq Let_def split: if_splits)
    next
      case False
      then have "?m - 1 < ?N - 1" "j \<le> ?m - 1" "Suc (?m - 1) = ?m" using m by auto
      then show ?thesis using none [of "?m - 1"] Verdict_on(2) [OF on] by simp
    qed
  qed
qed

lemma ParseMariaDBGTID_String:
  assumes "wf_entry (mg_Domain g) \<lparr>me_server = mg_Server g, me_seq = mg_Seq g\<rparr>"
  shows "ParseMariaDBGTID (MariaDBGTID_String g) = Inr g"
proof -
  have "\<not> is_space c" if "c \<in> set (MariaDBGTID_String g)" for c
  proof -
    have "is_digit c \<or> c = CHR ''-''"
      using that by (auto simp: MariaDBGTID_String_def dest: FormatUint_digits)
    then show ?thesis by (auto simp: is_digit_def is_space_def less_eq_char_def)
  qed
  then have "TrimSpace (MariaDBGTID_String g) = MariaDBGTID_String g"
    by (intro TrimSpace_id) 
  then show ?thesis using assms
    by (simp add: ParseMariaDBGTID_def MariaDBGTID_String_def split_on_append wf_entry_def Let_def)
qed

section \<open>Properties\<close>

text \<open>
  C26. A verdict that is known is right: for every history of authors the timeline describes, the
  transaction is on the timeline exactly when the history has its server as the author of its
  sequence number.
\<close>

theorem Verdict_sound:
  assumes "describes t (mg_Domain g) author" "Verdict t g = (on, True)"
  shows "on \<longleftrightarrow> author (mg_Seq g) = mg_Server g"
  using Verdict_describes [OF assms] .

theorem Verdict_sound_witness:
  "(False \<longleftrightarrow> (if (120::nat) \<le> 100 then 3 else 2) = (3::nat)) \<and>
   Verdict [\<lparr>ServerID = 3, Handoff = []\<rparr>, \<lparr>ServerID = 2, Handoff = ''0-3-100''\<rparr>]
     \<lparr>mg_Domain = 0, mg_Server = 3, mg_Seq = 120\<rparr> = (False, True)"
proof -
  let ?t = "[\<lparr>ServerID = 3, Handoff = []\<rparr>, \<lparr>ServerID = 2, Handoff = ''0-3-100''\<rparr>]"
  have i: "inherited 0 \<lparr>ServerID = 3, Handoff = []\<rparr> = \<lparr>me_server = 0, me_seq = 0\<rparr>"
    "inherited 0 \<lparr>ServerID = 2, Handoff = ''0-3-100''\<rparr> = \<lparr>me_server = 3, me_seq = 100\<rparr>" by code_simp+
  have d: "describes ?t 0 (\<lambda>s. if s \<le> 100 then 3 else 2)"
    unfolding describes_def by (auto simp: i less_Suc_eq nth_Cons split: nat.splits)
  have v: "Verdict ?t \<lparr>mg_Domain = 0, mg_Server = 3, mg_Seq = 120\<rparr> = (False, True)" by code_simp
  from Verdict_sound [OF _ v, of "\<lambda>s. if s \<le> 100 then 3 else 2"] d v show ?thesis by simp
qed

text \<open>
  C28. Pruning keeps what the operator still has to judge: a reference that the result does not name
  in \<open>PinnedBy\<close> keeps every verdict it had. What is left is the newest epochs, never none of a
  non-empty timeline, at most \<open>ceiling\<close> of them when there is a ceiling, and references are named
  only when the ceiling forced an epoch out.
\<close>

theorem PruneMariaDBTimeline_keeps_verdicts:
  assumes "PruneMariaDBTimeline t refs ceiling = res"
  shows "pr_Timeline res = drop (pr_Dropped res) t \<and> (t \<noteq> [] \<longrightarrow> pr_Timeline res \<noteq> []) \<and>
    (0 < ceiling \<longrightarrow> int (length (pr_Timeline res)) \<le> ceiling) \<and>
    (pr_PinnedBy res \<noteq> [] \<longrightarrow> pr_Truncated res) \<and>
    (\<forall>name raw on. (name, raw) \<in> set refs \<longrightarrow> name \<notin> set (pr_PinnedBy res) \<longrightarrow>
       Judge t raw = Inr (on, True) \<longrightarrow> Judge (pr_Timeline res) raw = Inr (on, True))"
  using PruneMariaDBTimeline_correct [OF assms] by blast

theorem PruneMariaDBTimeline_keeps_verdicts_witness:
  "Judge (pr_Timeline (PruneMariaDBTimeline
       [\<lparr>ServerID = 1, Handoff = []\<rparr>, \<lparr>ServerID = 2, Handoff = ''0-1-9''\<rparr>, \<lparr>ServerID = 3, Handoff = ''0-2-20''\<rparr>]
       [(''a'', ''0-2-15''), (''b'', ''0-3-30'')] 0)) ''0-2-15'' = Inr (True, True) \<and>
   pr_Dropped (PruneMariaDBTimeline
       [\<lparr>ServerID = 1, Handoff = []\<rparr>, \<lparr>ServerID = 2, Handoff = ''0-1-9''\<rparr>, \<lparr>ServerID = 3, Handoff = ''0-2-20''\<rparr>]
       [(''a'', ''0-2-15''), (''b'', ''0-3-30'')] 0) = 1"
proof -
  let ?t = "[\<lparr>ServerID = 1, Handoff = []\<rparr>, \<lparr>ServerID = 2, Handoff = ''0-1-9''\<rparr>, \<lparr>ServerID = 3, Handoff = ''0-2-20''\<rparr>]"
  let ?r = "[(''a'', ''0-2-15''), (''b'', ''0-3-30'')]"
  have "Judge ?t ''0-2-15'' = Inr (True, True)" "pr_PinnedBy (PruneMariaDBTimeline ?t ?r 0) = []"
    "pr_Dropped (PruneMariaDBTimeline ?t ?r 0) = 1" by code_simp+
  moreover have "(''a'', ''0-2-15'') \<in> set ?r" by simp
  ultimately show ?thesis
    using PruneMariaDBTimeline_keeps_verdicts [OF refl, of ?t ?r 0] by force
qed

text \<open>What \<open>DeadAfter\<close> returns for a transaction off the timeline lies below the transaction, and
  no transaction of the same author between the two is known to be on the timeline.
\<close>

theorem DeadAfter_disowns:
  assumes "DeadAfter t g = Some n"
  shows "n < mg_Seq g \<and> (\<forall>s. n < s \<longrightarrow> s \<le> mg_Seq g \<longrightarrow> Verdict t (g\<lparr>mg_Seq := s\<rparr>) \<noteq> (True, True))"
  using DeadAfter_sound [OF assms] by blast

theorem DeadAfter_disowns_witness:
  "(9::nat) < 15 \<and>
   Verdict [\<lparr>ServerID = 1, Handoff = []\<rparr>, \<lparr>ServerID = 2, Handoff = ''0-1-9''\<rparr>]
     \<lparr>mg_Domain = 0, mg_Server = 1, mg_Seq = 12\<rparr> \<noteq> (True, True)"
proof -
  have d: "DeadAfter [\<lparr>ServerID = 1, Handoff = []\<rparr>, \<lparr>ServerID = 2, Handoff = ''0-1-9''\<rparr>]
    \<lparr>mg_Domain = 0, mg_Server = 1, mg_Seq = 15\<rparr> = Some 9" by code_simp
  from spec [OF conjunct2 [OF DeadAfter_disowns [OF d]], of 12] show ?thesis by simp
qed

end
