(* ===== verification/Go_Fmt.thy ===== *)
theory Go_Fmt
  imports Go_Prelude
begin

text \<open>
  Formatting and time, as the operator uses them of the standard library. The arguments of a format
  string are given as rendered text (\<open>FormatInt\<close> for \<open>%d\<close> of an integer, \<open>Duration_String\<close> for
  \<open>%s\<close> of a duration); \<open>%q\<close> quotes its argument, and the last argument of a wrapped error is the
  text of the error it wraps.

  A \<open>time.Time\<close> is an integer of nanoseconds since the Unix epoch, the zero time included; a
  \<open>*metav1.Time\<close> is an option. A \<open>time.Duration\<close> is an integer of nanoseconds within int64:
  the difference of two times saturates as \<open>Time.Sub\<close> does. One pass of a controller reads the clock
  once, so \<open>now\<close> is an argument of the definitions that need it.
\<close>

section \<open>Formatting\<close>

text \<open>\<open>strconv.Quote\<close> on ASCII.\<close>

definition hex_char :: "nat \<Rightarrow> char" where
  "hex_char n = (if n < 10 then char_of (48 + n) else char_of (87 + n))"

definition quote_char :: "char \<Rightarrow> string" where
  "quote_char c =
     (if c = CHR 0x22 \<or> c = CHR 0x5C then [CHR 0x5C, c]
      else if c = CHR 0x07 then [CHR 0x5C, CHR ''a'']
      else if c = CHR 0x08 then [CHR 0x5C, CHR ''b'']
      else if c = CHR 0x0C then [CHR 0x5C, CHR ''f'']
      else if c = CHR 0x0A then [CHR 0x5C, CHR ''n'']
      else if c = CHR 0x0D then [CHR 0x5C, CHR ''r'']
      else if c = CHR 0x09 then [CHR 0x5C, CHR ''t'']
      else if c = CHR 0x0B then [CHR 0x5C, CHR ''v'']
      else if CHR '' '' \<le> c \<and> c \<le> CHR ''~'' then [c]
      else let n = of_char c :: nat in [CHR 0x5C, CHR ''x'', hex_char (n div 16), hex_char (n mod 16)])"

definition quote :: "string \<Rightarrow> string" where
  "quote s = [CHR 0x22] @ concat (map quote_char s) @ [CHR 0x22]"

text \<open>\<open>fmt.Sprintf\<close> for the verbs \<open>%s\<close>, \<open>%d\<close>, \<open>%v\<close>, \<open>%w\<close>, \<open>%q\<close> and \<open>%%\<close>.\<close>

fun Sprintf :: "string \<Rightarrow> string list \<Rightarrow> string" where
  "Sprintf [] args = []"
| "Sprintf [c] args = [c]"
| "Sprintf (c # v # cs) args =
     (if c \<noteq> CHR ''%'' then c # Sprintf (v # cs) args
      else if v = CHR ''%'' then CHR ''%'' # Sprintf cs args
      else (case args of
              [] \<Rightarrow> Sprintf cs []
            | a # as \<Rightarrow> (if v = CHR ''q'' then quote a else a) @ Sprintf cs as))"

text \<open>\<open>err.Error()\<close>.\<close>

primrec Error :: "go_error \<Rightarrow> string" where
  "Error (Errorf f args) = Sprintf f args"
| "Error (Wrapf f args e) = Sprintf f (args @ [Error e])"

section \<open>Durations\<close>

definition Second :: int where
  "Second = 1000000000"

definition trim_zeros :: "string \<Rightarrow> string" where
  "trim_zeros s = rev (dropWhile (\<lambda>c. c = CHR ''0'') (rev s))"

definition fmt_frac :: "nat \<Rightarrow> nat \<Rightarrow> string" where
  "fmt_frac v prec =
     (let ds = FormatUint (v mod 10 ^ prec);
          digits = trim_zeros (replicate (prec - length ds) CHR ''0'' @ ds)
      in if prec = 0 \<or> digits = [] then [] else CHR ''.'' # digits)"

definition Duration_String :: "int \<Rightarrow> string" where
  "Duration_String d =
     (let u = nat \<bar>d\<bar>;
          body =
            (if u = 0 then ''0s''
             else if u < 1000 then FormatUint u @ ''ns''
             else if u < 1000000 then FormatUint (u div 1000) @ fmt_frac u 3 @ [CHR 0xC2, CHR 0xB5, CHR ''s'']
             else if u < 1000000000 then FormatUint (u div 1000000) @ fmt_frac u 6 @ ''ms''
             else let secs = u div 1000000000;
                      tail = FormatUint (secs mod 60) @ fmt_frac u 9 @ ''s'';
                      mins = secs div 60
                  in if mins = 0 then tail
                     else if mins div 60 = 0 then FormatUint (mins mod 60) @ ''m'' @ tail
                     else FormatUint (mins div 60) @ ''h'' @ FormatUint (mins mod 60) @ ''m'' @ tail)
      in if d < 0 then CHR ''-'' # body else body)"

text \<open>\<open>Duration.Round(m)\<close> for a positive \<open>m\<close>: half away from zero, saturating.\<close>

definition Round :: "int \<Rightarrow> int \<Rightarrow> int" where
  "Round d m =
     (if m \<le> 0 then d
      else if d < 0
      then let r = (- d) mod m in
           if r + r < m then d + r
           else if d - m + r \<ge> - MaxInt64 - 1 then d - m + r else - MaxInt64 - 1
      else let r = d mod m in
           if r + r < m then d - r
           else if d + m - r \<le> MaxInt64 then d + m - r else MaxInt64)"

section \<open>Times\<close>

type_synonym gotime = int

definition zero_time :: gotime where
  "zero_time = - 62135596800000000000"

text \<open>\<open>t.Sub(u)\<close>, saturating at the range of a duration.\<close>

definition time_Sub :: "gotime \<Rightarrow> gotime \<Rightarrow> int" where
  "time_Sub t u = max (- MaxInt64 - 1) (min MaxInt64 (t - u))"

text \<open>\<open>t.Truncate(time.Second)\<close>.\<close>

definition truncate_second :: "gotime \<Rightarrow> gotime" where
  "truncate_second t = t - t mod Second"

lemma time_Sub_le: "0 \<le> d \<Longrightarrow> d < MaxInt64 \<Longrightarrow> time_Sub t u \<le> d \<longleftrightarrow> t - u \<le> d"
  by (auto simp: time_Sub_def MaxInt64_def)

lemma time_Sub_pos: "0 < time_Sub t u \<longleftrightarrow> u < t"
  by (auto simp: time_Sub_def MaxInt64_def)

lemma time_Sub_mono: "t \<le> t' \<Longrightarrow> time_Sub t u \<le> time_Sub t' u"
  by (auto simp: time_Sub_def)

lemma truncate_second_bounds: "truncate_second t \<le> t" "t < truncate_second t + Second"
proof -
  have "0 \<le> t mod Second" "t mod Second < Second" by (simp_all add: Second_def)
  then show "truncate_second t \<le> t" "t < truncate_second t + Second"
    unfolding truncate_second_def by linarith+
qed

section \<open>Printed times\<close>

text \<open>Year, month and day of a day number counted from 1970-01-01, in the proleptic Gregorian calendar of Go's \<open>time\<close>.\<close>

definition civil :: "int \<Rightarrow> int \<times> int \<times> int" where
  "civil day =
     (let z = day + 719468; era = z div 146097; doe = z mod 146097;
          yoe = (doe - doe div 1460 + doe div 36524 - doe div 146096) div 365;
          doy = doe - (365 * yoe + yoe div 4 - yoe div 100);
          mp = (5 * doy + 2) div 153;
          m = (if mp < 10 then mp + 3 else mp - 9)
      in (yoe + era * 400 + (if m \<le> 2 then 1 else 0), m, doy - (153 * mp + 2) div 5 + 1))"

definition pad :: "nat \<Rightarrow> int \<Rightarrow> string" where
  "pad width n = (let s = FormatUint (nat n) in replicate (width - length s) CHR ''0'' @ s)"

definition format_time :: "string \<Rightarrow> string \<Rightarrow> gotime \<Rightarrow> string" where
  "format_time sep zone t =
     (let secs = t div Second; rest = secs mod 86400
      in case civil (secs div 86400) of (y, m, d) \<Rightarrow>
           pad 4 y @ ''-'' @ pad 2 m @ ''-'' @ pad 2 d @ sep @ pad 2 (rest div 3600) @ '':'' @ pad 2 (rest div 60 mod 60) @ '':'' @ pad 2 (rest mod 60) @ zone)"

definition rfc3339 :: "gotime \<Rightarrow> string" where
  "rfc3339 t = format_time ''T'' ''Z'' t"

end
