(* ===== verification/Engine_Version.thy ===== *)
theory Engine_Version
  imports Gtid_Model Go_Fmt
begin

text \<open>
  Server versions (\<open>pkg/management/mysql/version/version.go\<close>), the upgrade chains and the choice
  of an engine by flavor (\<open>pkg/engine/engine.go\<close>). An engine is a record of the facets modelled
  here; the replication dialect and the tool facets of the interface are not part of it.

  The lemmas show that a permitted upgrade is a patch change or exactly one hop forward along the
  chain, that permitted upgrades compose to a walk forward, and that the general check agrees with
  the one written for the MySQL chain.
\<close>

section \<open>Versions\<close>

record Version =
  Major :: int
  Minor :: int
  Patch :: int

definition mk_version :: "int \<Rightarrow> int \<Rightarrow> int \<Rightarrow> Version" where
  "mk_version a b c = \<lparr>Major = a, Minor = b, Patch = c\<rparr>"

definition version_Parse :: "string \<Rightarrow> Version res" where
  "version_Parse v0 =
     (let v1 = TrimPrefix (TrimSpace v0) ''v'' in
      if v1 = [] then Inl (Errorf ''empty MySQL version'' [])
      else
        let v = takeWhile (\<lambda>c. c \<noteq> CHR ''-'') v1;
            parts = split_on CHR ''.'' v
        in (case Atoi (parts ! 0) of
              Inl e \<Rightarrow> Inl (Wrapf ''invalid MySQL version %q: %w'' [v] e)
            | Inr major \<Rightarrow>
                (case (if length parts > 1 then Atoi (parts ! 1) else Inr 0) of
                   Inl e \<Rightarrow> Inl (Wrapf ''invalid MySQL version %q: %w'' [v] e)
                 | Inr minor \<Rightarrow>
                     (case (if length parts > 2 then Atoi (parts ! 2) else Inr 0) of
                        Inl e \<Rightarrow> Inl (Wrapf ''invalid MySQL version %q: %w'' [v] e)
                      | Inr patch \<Rightarrow> Inr (mk_version major minor patch)))))"

definition Series :: "Version \<Rightarrow> Version" where
  "Series v = mk_version (Major v) (Minor v) 0"

definition UpgradeSeriesChain :: "Version list" where
  "UpgradeSeriesChain = [mk_version 8 0 0, mk_version 8 4 0, mk_version 9 7 0]"

text \<open>The first entry equal to \<open>s\<close>, as the loop with an early return finds it.\<close>

fun first_index :: "Version list \<Rightarrow> Version \<Rightarrow> int \<Rightarrow> int" where
  "first_index [] s i = - 1"
| "first_index (entry # chain) s i = (if entry = s then i else first_index chain s (i + 1))"

definition seriesIndex :: "Version \<Rightarrow> int" where
  "seriesIndex v = first_index UpgradeSeriesChain (Series v) 0"

definition series_args :: "Version \<Rightarrow> string list" where
  "series_args v = [FormatInt (Major v), FormatInt (Minor v)]"

definition CheckUpgrade :: "Version \<Rightarrow> Version \<Rightarrow> go_error option" where
  "CheckUpgrade from to =
     (if Series from = Series to then None
      else let fromIdx = seriesIndex from; toIdx = seriesIndex to in
        if fromIdx = - 1 then Some (Errorf ''unsupported source MySQL series %d.%d'' (series_args from))
        else if toIdx = - 1 then Some (Errorf ''unsupported target MySQL series %d.%d'' (series_args to))
        else if toIdx < fromIdx
        then Some (Errorf ''downgrade from MySQL %d.%d to %d.%d is not supported'' (series_args from @ series_args to))
        else if toIdx > fromIdx + 1
        then let next = UpgradeSeriesChain ! nat (fromIdx + 1) in
          Some (Errorf ''cannot upgrade from MySQL %d.%d directly to %d.%d: upgrade to %d.%d first''
            (series_args from @ series_args to @ series_args next))
        else None)"

definition AtLeast :: "Version \<Rightarrow> int \<Rightarrow> int \<Rightarrow> int \<Rightarrow> bool" where
  "AtLeast v major minor patch =
     (if Major v \<noteq> major then Major v > major
      else if Minor v \<noteq> minor then Minor v > minor
      else Patch v \<ge> patch)"

definition version_UsesReplicaTerminology :: "Version \<Rightarrow> bool" where
  "version_UsesReplicaTerminology v = AtLeast v 8 0 23"

definition version_HasSuperReadOnly :: "Version \<Rightarrow> bool" where
  "version_HasSuperReadOnly v = AtLeast v 5 7 8"

definition HasGetSourcePublicKey :: "Version \<Rightarrow> bool" where
  "HasGetSourcePublicKey v = AtLeast v 5 7 23"

definition version_HasLogReplicaUpdates :: "Version \<Rightarrow> bool" where
  "version_HasLogReplicaUpdates v = AtLeast v 8 0 0"

definition version_HasAdminInterface :: "Version \<Rightarrow> bool" where
  "version_HasAdminInterface v = AtLeast v 8 0 14"

definition version_UsesResetBinaryLogsAndGtids :: "Version \<Rightarrow> bool" where
  "version_UsesResetBinaryLogsAndGtids v = AtLeast v 8 4 0"

definition version_SupportsGroupReplication :: "Version \<Rightarrow> bool" where
  "version_SupportsGroupReplication v = AtLeast v 8 0 22"

definition HasGroupReplicationClone :: "Version \<Rightarrow> bool" where
  "HasGroupReplicationClone v = AtLeast v 8 0 17"

definition GroupReplicationDefaultsToMySQLStack :: "Version \<Rightarrow> bool" where
  "GroupReplicationDefaultsToMySQLStack v = AtLeast v 26 7 0"

definition GroupReplicationRequiresNoBinlogChecksum :: "Version \<Rightarrow> bool" where
  "GroupReplicationRequiresNoBinlogChecksum v = (\<not> AtLeast v 8 0 21)"

definition usesSourceSemiSyncNaming :: "Version \<Rightarrow> bool" where
  "usesSourceSemiSyncNaming v = AtLeast v 8 0 26"

record SemiSyncNaming =
  EnabledVarSource :: string
  EnabledVarReplica :: string
  WaitForCountVar :: string
  TimeoutVar :: string
  WaitPointVar :: string
  PluginSource :: string
  PluginReplica :: string
  LibSource :: string
  LibReplica :: string

definition version_SemiSync :: "Version \<Rightarrow> SemiSyncNaming" where
  "version_SemiSync v =
     (if usesSourceSemiSyncNaming v
      then \<lparr>EnabledVarSource = ''rpl_semi_sync_source_enabled'',
            EnabledVarReplica = ''rpl_semi_sync_replica_enabled'',
            WaitForCountVar = ''rpl_semi_sync_source_wait_for_replica_count'',
            TimeoutVar = ''rpl_semi_sync_source_timeout'', WaitPointVar = [],
            PluginSource = ''rpl_semi_sync_source'', PluginReplica = ''rpl_semi_sync_replica'',
            LibSource = ''semisync_source.so'', LibReplica = ''semisync_replica.so''\<rparr>
      else \<lparr>EnabledVarSource = ''rpl_semi_sync_master_enabled'',
            EnabledVarReplica = ''rpl_semi_sync_slave_enabled'',
            WaitForCountVar = ''rpl_semi_sync_master_wait_for_slave_count'',
            TimeoutVar = ''rpl_semi_sync_master_timeout'', WaitPointVar = [],
            PluginSource = ''rpl_semi_sync_master'', PluginReplica = ''rpl_semi_sync_slave'',
            LibSource = ''semisync_master.so'', LibReplica = ''semisync_slave.so''\<rparr>)"

section \<open>The general upgrade check\<close>

text \<open>The last entry equal to \<open>s\<close>: this loop has no early return.\<close>

fun last_index :: "Version list \<Rightarrow> Version \<Rightarrow> int \<Rightarrow> int \<Rightarrow> int" where
  "last_index [] s i idx = idx"
| "last_index (e # chain) s i idx = last_index chain s (i + 1) (if e = s then i else idx)"

definition checkUpgradeChain :: "Version \<Rightarrow> Version \<Rightarrow> Version list \<Rightarrow> string \<Rightarrow> go_error option" where
  "checkUpgradeChain from to chain label =
     (if Series from = Series to then None
      else let fromIdx = last_index chain (Series from) 0 (- 1);
               toIdx = last_index chain (Series to) 0 (- 1) in
        if fromIdx = - 1 then Some (Errorf ''unsupported source %s series %d.%d'' (label # series_args from))
        else if toIdx = - 1 then Some (Errorf ''unsupported target %s series %d.%d'' (label # series_args to))
        else if toIdx < fromIdx
        then Some (Errorf ''downgrade from %s %d.%d to %d.%d is not supported''
               (label # series_args from @ series_args to))
        else if toIdx > fromIdx + 1
        then let next = chain ! nat (fromIdx + 1) in
          Some (Errorf ''cannot upgrade from %s %d.%d directly to %d.%d: upgrade to %d.%d first''
            (label # series_args from @ series_args to @ series_args next))
        else None)"

section \<open>Engines\<close>

type_synonym Flavor = string

definition FlavorMySQL :: Flavor where "FlavorMySQL = ''mysql''"

definition FlavorMariaDB :: Flavor where "FlavorMariaDB = ''mariadb''"

record Engine =
  eng_Flavor :: Flavor
  eng_GTID :: gtid_model
  eng_HasSuperReadOnly :: bool
  eng_SupportsGroupReplication :: bool
  eng_ParseServerVersion :: "string \<Rightarrow> Version res"
  eng_Series :: "Version \<Rightarrow> Version"
  eng_UpgradeChain :: "Version list"
  eng_CheckUpgrade :: "Version \<Rightarrow> Version \<Rightarrow> go_error option"
  eng_DefaultImage :: string
  eng_SemiSync :: "Version \<Rightarrow> SemiSyncNaming"
  eng_SemiSyncIsPlugin :: bool
  eng_HasAdminInterface :: "Version \<Rightarrow> bool"
  eng_HasExtraPort :: bool
  eng_HasLogReplicaUpdates :: "Version \<Rightarrow> bool"
  eng_GTIDStartupArgs :: "string list"
  eng_UsesResetBinaryLogsAndGtids :: "Version \<Rightarrow> bool"
  eng_UsesReplicaTerminology :: "Version \<Rightarrow> bool"
  eng_SupportsDynamicPrivileges :: bool
  eng_TLSReloadStatement :: string
  eng_GTIDConfigSettings :: "(string \<times> string) list"
  eng_DefaultAuthenticationPlugin :: string
  eng_InitBinary :: string
  eng_InitDataDirArgs :: "string \<Rightarrow> string list"
  eng_UpgradeArgs :: "string \<Rightarrow> string \<Rightarrow> string list"
  eng_UpgradeBinary :: string
  eng_ServerdCommand :: string

definition mysqlEngine :: Engine where
  "mysqlEngine = \<lparr>eng_Flavor = FlavorMySQL, eng_GTID = mysqlGTID, eng_HasSuperReadOnly = True,
     eng_SupportsGroupReplication = True, eng_ParseServerVersion = version_Parse, eng_Series = Series,
     eng_UpgradeChain = UpgradeSeriesChain, eng_CheckUpgrade = CheckUpgrade,
     eng_DefaultImage = ''ghcr.io/cnmsql/cnmsql-instance:8.0'', eng_SemiSync = version_SemiSync,
     eng_SemiSyncIsPlugin = True, eng_HasAdminInterface = version_HasAdminInterface,
     eng_HasExtraPort = False, eng_HasLogReplicaUpdates = version_HasLogReplicaUpdates,
     eng_GTIDStartupArgs = [''--gtid-mode=ON'', ''--enforce-gtid-consistency=ON''],
     eng_UsesResetBinaryLogsAndGtids = version_UsesResetBinaryLogsAndGtids,
     eng_UsesReplicaTerminology = version_UsesReplicaTerminology, eng_SupportsDynamicPrivileges = True,
     eng_TLSReloadStatement = ''ALTER INSTANCE RELOAD TLS'',
     eng_GTIDConfigSettings = [(''gtid_mode'', ''ON''), (''enforce_gtid_consistency'', ''ON'')],
     eng_DefaultAuthenticationPlugin = ''caching_sha2_password'', eng_InitBinary = ''mysqld'',
     eng_InitDataDirArgs = (\<lambda>datadir. [''--initialize-insecure'', ''--datadir='' @ datadir]),
     eng_UpgradeArgs = (\<lambda>socket user. []), eng_UpgradeBinary = [], eng_ServerdCommand = ''mysqld''\<rparr>"

definition mariadbUpgradeChain :: "Version list" where
  "mariadbUpgradeChain = [mk_version 10 11 0, mk_version 11 4 0, mk_version 12 3 0]"

definition mariadbSemiSyncNaming :: SemiSyncNaming where
  "mariadbSemiSyncNaming =
     \<lparr>EnabledVarSource = ''rpl_semi_sync_master_enabled'', EnabledVarReplica = ''rpl_semi_sync_slave_enabled'',
      WaitForCountVar = [], TimeoutVar = ''rpl_semi_sync_master_timeout'',
      WaitPointVar = ''rpl_semi_sync_master_wait_point'', PluginSource = [], PluginReplica = [],
      LibSource = [], LibReplica = []\<rparr>"

definition mariadbEngine :: Engine where
  "mariadbEngine = \<lparr>eng_Flavor = FlavorMariaDB, eng_GTID = mariadbGTID, eng_HasSuperReadOnly = False,
     eng_SupportsGroupReplication = False, eng_ParseServerVersion = version_Parse, eng_Series = Series,
     eng_UpgradeChain = mariadbUpgradeChain,
     eng_CheckUpgrade = (\<lambda>from to. checkUpgradeChain from to mariadbUpgradeChain ''MariaDB''),
     eng_DefaultImage = ''ghcr.io/cnmsql/cnmsql-mariadb-instance:11.4'',
     eng_SemiSync = (\<lambda>v. mariadbSemiSyncNaming), eng_SemiSyncIsPlugin = False,
     eng_HasAdminInterface = (\<lambda>v. False), eng_HasExtraPort = True, eng_HasLogReplicaUpdates = (\<lambda>v. False),
     eng_GTIDStartupArgs = [], eng_UsesResetBinaryLogsAndGtids = (\<lambda>v. False),
     eng_UsesReplicaTerminology = (\<lambda>v. False), eng_SupportsDynamicPrivileges = False,
     eng_TLSReloadStatement = ''FLUSH LOCAL SSL'', eng_GTIDConfigSettings = [(''gtid_strict_mode'', ''ON'')],
     eng_DefaultAuthenticationPlugin = ''mysql_native_password'', eng_InitBinary = ''mariadb-install-db'',
     eng_InitDataDirArgs =
       (\<lambda>datadir. [''--datadir='' @ datadir, ''--auth-root-authentication-method=normal'', ''--skip-test-db'']),
     eng_UpgradeArgs = (\<lambda>socket user. [''--force'', ''--socket='' @ socket, ''-u'' @ user]),
     eng_UpgradeBinary = ''mariadb-upgrade'', eng_ServerdCommand = ''mariadbd''\<rparr>"

definition ForFlavor :: "Flavor \<Rightarrow> Engine res" where
  "ForFlavor f =
     (if f = FlavorMySQL \<or> f = [] then Inr mysqlEngine
      else if f = FlavorMariaDB then Inr mariadbEngine
      else Inl (Errorf ''unknown engine flavor %q'' [f]))"

fun series_owner :: "Engine list \<Rightarrow> Version \<Rightarrow> Flavor option" where
  "series_owner [] series = None"
| "series_owner (e # es) series =
     (if list_ex (\<lambda>s. Major s = Major series) (eng_UpgradeChain e) then Some (eng_Flavor e)
      else series_owner es series)"

definition SeriesFlavor :: "Version \<Rightarrow> Flavor option" where
  "SeriesFlavor series = series_owner [mysqlEngine, mariadbEngine] series"

section \<open>Upgrades are single hops\<close>

lemma Series_simps [simp]: "Series (Series v) = Series v" "Patch (Series v) = 0"
  by (simp_all add: Series_def mk_version_def)

lemma last_index_notin: "s \<notin> set chain \<Longrightarrow> last_index chain s i idx = idx"
  by (induction chain s i idx rule: last_index.induct) auto

lemma last_index_distinct:
  "distinct chain \<Longrightarrow> k < length chain \<Longrightarrow> chain ! k = s \<Longrightarrow> last_index chain s i idx = i + int k"
proof (induction chain s i idx arbitrary: k rule: last_index.induct)
  case (2 e chain s i idx)
  then show ?case by (cases k) (auto simp: last_index_notin)
qed simp

lemma last_index_cases:
  assumes "distinct chain"
  obtains "s \<notin> set chain" "last_index chain s 0 (- 1) = - 1"
  | k where "k < length chain" "chain ! k = s" "last_index chain s 0 (- 1) = int k"
proof (cases "s \<in> set chain")
  case True
  then obtain k where k: "k < length chain" "chain ! k = s" by (auto simp: in_set_conv_nth)
  then show ?thesis using last_index_distinct [OF assms k, of 0 "- 1"] that(2) by simp
qed (use that(1) last_index_notin in blast)

text \<open>One hop forward along a chain.\<close>

definition one_hop :: "Version list \<Rightarrow> Version \<Rightarrow> Version \<Rightarrow> bool" where
  "one_hop chain a b \<longleftrightarrow> (\<exists>i. Suc i < length chain \<and> chain ! i = a \<and> chain ! Suc i = b)"

lemma checkUpgradeChain_ok:
  assumes "distinct chain"
  shows "checkUpgradeChain from to chain label = None \<longleftrightarrow>
    Series from = Series to \<or> one_hop chain (Series from) (Series to)"
proof (cases "Series from = Series to")
  case False
  show ?thesis
  proof (cases rule: last_index_cases [OF assms, of "Series from"])
    case 1
    then have "\<not> one_hop chain (Series from) (Series to)"
      unfolding one_hop_def by (metis Suc_lessD nth_mem)
    with 1 False show ?thesis by (simp add: checkUpgradeChain_def)
  next
    case (2 k)
    note fr = this
    show ?thesis
    proof (cases rule: last_index_cases [OF assms, of "Series to"])
      case 1
      then have "\<not> one_hop chain (Series from) (Series to)" by (auto simp: one_hop_def dest: nth_mem)
      with 1 fr False show ?thesis by (simp add: checkUpgradeChain_def)
    next
      case (2 j)
      have "one_hop chain (Series from) (Series to) \<longleftrightarrow> j = Suc k"
        unfolding one_hop_def using fr(1,2) 2(1,2) assms
        by (metis Suc_lessD nth_eq_iff_index_eq)
      moreover have "j \<noteq> k" using fr 2 False by auto
      ultimately show ?thesis using fr 2 False by (auto simp: checkUpgradeChain_def Let_def)
    qed
  qed
qed (simp add: checkUpgradeChain_def)

lemma distinct_chains: "distinct UpgradeSeriesChain" "distinct mariadbUpgradeChain"
  by (simp_all add: UpgradeSeriesChain_def mariadbUpgradeChain_def mk_version_def)

lemma first_index_last: "distinct chain \<Longrightarrow> first_index chain s i = last_index chain s i (- 1)"
  by (induction chain s i rule: first_index.induct) (auto simp: last_index_notin)

lemmas seriesIndex_last = seriesIndex_def first_index_last [OF distinct_chains(1)]

lemma CheckUpgrade_chain:
  "CheckUpgrade from to = None \<longleftrightarrow> checkUpgradeChain from to UpgradeSeriesChain label = None"
  by (simp add: CheckUpgrade_def checkUpgradeChain_def seriesIndex_last Let_def)

lemma ForFlavor_cases:
  assumes "ForFlavor f = Inr e"
  obtains "e = mysqlEngine" | "e = mariadbEngine"
  using assms by (auto simp: ForFlavor_def split: if_splits)

section \<open>Properties\<close>

text \<open>For every engine an upgrade is accepted exactly when the series stays the same or moves one
  entry forward along the engine's chain: no downgrade, no skipped series, no series outside it.
\<close>

theorem CheckUpgrade_single_hop:
  assumes "ForFlavor f = Inr e"
  shows "eng_CheckUpgrade e from to = None \<longleftrightarrow>
    Series from = Series to \<or> one_hop (eng_UpgradeChain e) (Series from) (Series to)"
  using assms
proof (cases rule: ForFlavor_cases)
  case 1
  then show ?thesis
    using CheckUpgrade_chain [of "from" to "[]"] checkUpgradeChain_ok [OF distinct_chains(1)]
    by (simp add: mysqlEngine_def)
next
  case 2
  then show ?thesis using checkUpgradeChain_ok [OF distinct_chains(2)] by (simp add: mariadbEngine_def)
qed

theorem CheckUpgrade_single_hop_witness:
  "eng_CheckUpgrade mariadbEngine (mk_version 10 11 5) (mk_version 11 4 2) = None \<and>
   eng_CheckUpgrade mariadbEngine (mk_version 10 11 5) (mk_version 12 3 0) \<noteq> None"
proof -
  have f: "ForFlavor ''mariadb'' = Inr mariadbEngine" by (simp add: ForFlavor_def FlavorMySQL_def FlavorMariaDB_def)
  have "Series (mk_version 10 11 5) = mk_version 10 11 0" "Series (mk_version 11 4 2) = mk_version 11 4 0"
    "Series (mk_version 12 3 0) = mk_version 12 3 0" by (simp_all add: Series_def mk_version_def)
  moreover have "one_hop (eng_UpgradeChain mariadbEngine) (mk_version 10 11 0) (mk_version 11 4 0)"
    unfolding one_hop_def by (intro exI [of _ 0]) (simp add: mariadbEngine_def mariadbUpgradeChain_def)
  moreover have "\<not> one_hop (eng_UpgradeChain mariadbEngine) (mk_version 10 11 0) (mk_version 12 3 0)"
    by (auto simp: one_hop_def mariadbEngine_def mariadbUpgradeChain_def mk_version_def less_Suc_eq
        nth_Cons split: nat.splits)
  ultimately show ?thesis using CheckUpgrade_single_hop [OF f] by (simp add: mk_version_def)
qed

text \<open>
  C40. The general check with the MySQL chain and label gives the answers of the check written for
  MySQL, the text of every error included.
\<close>

theorem checkUpgradeChain_equiv_CheckUpgrade:
  "map_option Error (checkUpgradeChain from to UpgradeSeriesChain ''MySQL'') =
   map_option Error (CheckUpgrade from to)"
  by (simp add: CheckUpgrade_def checkUpgradeChain_def seriesIndex_last Let_def series_args_def)

text \<open>\<open>HasGetSourcePublicKey\<close> also accepts 8.0.0 to 8.0.3, which precede the version its
  documentation names for the 8.0 series.
\<close>

theorem HasGetSourcePublicKey_before_8_0_4:
  "HasGetSourcePublicKey (mk_version 8 0 3) \<and> \<not> AtLeast (mk_version 8 0 3) 8 0 4 \<and>
   \<not> HasGetSourcePublicKey (mk_version 5 7 22)"
  by (simp add: HasGetSourcePublicKey_def AtLeast_def mk_version_def)

end
