(* ===== verification/Cluster_Api.thy ===== *)
theory Cluster_Api
  imports Engine_Version Mariadb_Timeline
begin

text \<open>
  The Cluster resource (\<open>api/v1alpha1/cluster_types.go\<close>) with the fields the modelled components
  read or write, its derived settings, defaults and the checks of \<open>api/v1alpha1/cluster_funcs.go\<close>
  the components rely on. A pointer to a value is an option, a \<open>*metav1.Duration\<close> an optional number
  of nanoseconds, a \<open>*metav1.Time\<close> an optional time. \<open>zero_spec\<close> and \<open>zero_status\<close> are Go's
  zero values of the two structs.

  The lemmas show that defaulting is idempotent and leaves room for the forced stop, what a
  retention policy parses to and when the product wraps around, and which names pass as instance
  names.
\<close>

section \<open>The resource\<close>

record S3TLSConfig =
  tls_InsecureSkipVerify :: bool
  tls_CABundleSecret :: "string option"

record S3ObjectStore =
  s3_Endpoint :: string
  s3_Bucket :: string
  s3_Path :: string
  s3_ForcePathStyle :: "bool option"
  s3_SignatureVersion :: string
  s3_ServerSideEncryption :: "string option"
  s3_TLS :: "S3TLSConfig option"

record SemiSyncConfiguration =
  ss_Enabled :: bool
  ss_DataDurability :: string

record MySQLConfiguration =
  my_BinlogFormat :: string
  my_SemiSync :: "SemiSyncConfiguration option"

record FailoverPolicy =
  fp_MaxTransactionsBehind :: "int option"
  fp_MaxReplicationLag :: "int option"
  fp_PreferredPrimary :: "string list"
  fp_MinTimeBetweenFailovers :: "int option"
  fp_PrimaryStabilityWindow :: "int option"

record ReplicationHeartbeat =
  hb_Enabled :: "bool option"
  hb_Interval :: "int option"

record GroupReplicationConfiguration =
  gc_Consistency :: string
  gc_ExitStateAction :: string
  gc_AutoRejoinTries :: "int option"
  gc_GroupName :: string

record ReplicationConfiguration =
  rc_Mode :: string
  rc_GroupReplication :: "GroupReplicationConfiguration option"
  rc_Heartbeat :: "ReplicationHeartbeat option"
  rc_MaxReadyLag :: "int option"

record ContinuousArchivingConfiguration =
  cac_Enabled :: bool
  cac_TargetRPOSeconds :: int
  cac_PurgeAfterArchive :: "bool option"
  cac_ObjectStore :: "S3ObjectStore option"

record BackupConfiguration =
  bc_ObjectStore :: "S3ObjectStore option"
  bc_RetentionPolicy :: string
  bc_ReclaimPolicy :: string
  bc_ContinuousArchiving :: "ContinuousArchivingConfiguration option"

record ReplicaClusterConfiguration =
  rcc_Enabled :: "bool option"
  rcc_Source :: string

record ExternalCluster =
  ec_Name :: string
  ec_ObjectStore :: "S3ObjectStore option"
  ec_BinlogObjectStore :: "S3ObjectStore option"

record NodeMaintenanceWindow =
  nmw_ReusePVC :: "bool option"
  nmw_InProgress :: bool

record ClusterSpec =
  cs_Flavor :: Flavor
  cs_Instances :: int
  cs_MinSyncReplicas :: int
  cs_MaxSyncReplicas :: int
  cs_MySQL :: MySQLConfiguration
  cs_Replication :: "ReplicationConfiguration option"
  cs_ResizeInUseVolumes :: "bool option"
  cs_EnableSuperuserAccess :: "bool option"
  cs_PrimaryUpdateStrategy :: string
  cs_PrimaryUpdateMethod :: string
  cs_InPlaceInstanceManagerUpdates :: bool
  cs_BackupBeforeUpgrade :: "bool option"
  cs_MaxStartDelay :: int
  cs_MaxStopDelay :: int
  cs_SmartShutdownTimeout :: "int option"
  cs_MaxSwitchoverDelay :: int
  cs_FailoverDelay :: int
  cs_EnableFailover :: "bool option"
  cs_EnablePrimaryLease :: "bool option"
  cs_FailoverPolicy :: "FailoverPolicy option"
  cs_Backup :: "BackupConfiguration option"
  cs_Replica :: "ReplicaClusterConfiguration option"
  cs_ExternalClusters :: "ExternalCluster list"
  cs_EnablePDB :: "bool option"
  cs_EnableSwitchoverOnDrain :: "bool option"
  cs_NodeMaintenanceWindow :: "NodeMaintenanceWindow option"

record GroupMember =
  gm_Instance :: string
  gm_State :: string
  gm_Role :: string
  gm_Reachable :: bool

record GroupReplicationStatus =
  gs_GroupName :: string
  gs_Bootstrapped :: bool
  gs_PrimaryMember :: string
  gs_Members :: "GroupMember list"
  gs_HasQuorum :: bool
  gs_ObservedViewMax :: int
  gs_ObservedOnlineMax :: int
  gs_ViewID :: string
  gs_CommunicationProtocol :: string
  gs_CommunicationProtocolTarget :: string

record ContinuousArchivingStatus =
  cst_Enabled :: bool
  cst_Destination :: string
  cst_LastArchivedBinlog :: string
  cst_LastArchivedGTID :: string
  cst_LastArchivedTime :: "gotime option"
  cst_PendingFiles :: int
  cst_LastFailureReason :: string
  cst_LastFailureTime :: "gotime option"
  cst_PurgeHeldBy :: "string list"
  cst_PurgeHeldSince :: "gotime option"
  cst_ForkGTIDs :: "string list"
  cst_ForkDetectedAt :: "gotime option"
  cst_OldestSegmentPosition :: string
  cst_DisownedGTIDs :: string
  cst_Gaps :: "string list"
  cst_GapsSince :: "gotime option"
  cst_CoveredGTIDSet :: string

text \<open>\<open>MariaDBEpoch\<close> of the API: an epoch of the timeline with the instance it names and when it was first seen.\<close>

record StatusEpoch =
  se_Instance :: string
  se_ServerID :: nat
  se_Handoff :: string
  se_Since :: gotime

text \<open>\<open>metav1.Condition\<close>, without the time of its last transition.\<close>

record Condition =
  co_Type :: string
  co_Status :: string
  co_Reason :: string
  co_Message :: string
  co_ObservedGeneration :: int

record ClusterStatus =
  st_InstanceNames :: "string list"
  st_CurrentPrimary :: string
  st_TargetPrimary :: string
  st_CurrentPrimaryGeneration :: int
  st_CurrentPrimaryTimestamp :: "gotime option"
  st_TargetPrimaryTimestamp :: "gotime option"
  st_DivergedInstances :: "string list"
  st_FencedInstances :: "string list"
  st_PrimaryFailingSince :: "gotime option"
  st_PrimaryHealthySince :: "gotime option"
  st_LastFailoverTimestamp :: "gotime option"
  st_EstablishedAt :: "gotime option"
  st_Phase :: string
  st_PhaseReason :: string
  st_GTIDExecutedByInstance :: "(string, string) gomap"
  st_ExecutableHashByInstance :: "(string, string) gomap"
  st_ContinuousArchiving :: "ContinuousArchivingStatus option"
  st_GroupReplication :: "GroupReplicationStatus option"
  st_Instances :: int
  st_ReadyInstances :: int
  st_LatestGeneratedNode :: int
  st_ObservedGeneration :: int
  st_FailedInstances :: "string list"
  st_ReplicationBrokenInstances :: "string list"
  st_ResizingPVC :: "string list"
  st_MariaDBTimeline :: "StatusEpoch list"
  st_GTIDExecutedUpdatedAt :: "gotime option"
  st_ReplicationLagByInstance :: "(string, int) gomap"
  st_ReplicationLagUpdatedAt :: "gotime option"
  st_Conditions :: "Condition list"

record Cluster =
  cl_Name :: string
  cl_Spec :: ClusterSpec
  cl_Status :: ClusterStatus
  cl_UID :: string
  cl_Generation :: int
  cl_Annotations :: "(string, string) gomap"

definition zero_spec :: ClusterSpec where
  "zero_spec =
     \<lparr>cs_Flavor = [], cs_Instances = 0, cs_MinSyncReplicas = 0, cs_MaxSyncReplicas = 0,
      cs_MySQL = \<lparr>my_BinlogFormat = [], my_SemiSync = None\<rparr>, cs_Replication = None,
      cs_ResizeInUseVolumes = None, cs_EnableSuperuserAccess = None, cs_PrimaryUpdateStrategy = [],
      cs_PrimaryUpdateMethod = [], cs_InPlaceInstanceManagerUpdates = False, cs_BackupBeforeUpgrade = None,
      cs_MaxStartDelay = 0, cs_MaxStopDelay = 0, cs_SmartShutdownTimeout = None, cs_MaxSwitchoverDelay = 0,
      cs_FailoverDelay = 0, cs_EnableFailover = None, cs_EnablePrimaryLease = None, cs_FailoverPolicy = None,
      cs_Backup = None, cs_Replica = None, cs_ExternalClusters = [], cs_EnablePDB = None,
      cs_EnableSwitchoverOnDrain = None, cs_NodeMaintenanceWindow = None\<rparr>"

definition zero_status :: ClusterStatus where
  "zero_status =
     \<lparr>st_InstanceNames = [], st_CurrentPrimary = [], st_TargetPrimary = [],
      st_CurrentPrimaryGeneration = 0, st_CurrentPrimaryTimestamp = None, st_TargetPrimaryTimestamp = None, st_DivergedInstances = [],
      st_FencedInstances = [], st_PrimaryFailingSince = None, st_PrimaryHealthySince = None,
      st_LastFailoverTimestamp = None, st_EstablishedAt = None, st_Phase = [], st_PhaseReason = [],
      st_GTIDExecutedByInstance = [], st_ExecutableHashByInstance = [], st_ContinuousArchiving = None,
      st_GroupReplication = None, st_Instances = 0, st_ReadyInstances = 0, st_LatestGeneratedNode = 0, st_ObservedGeneration = 0,
      st_FailedInstances = [], st_ReplicationBrokenInstances = [], st_ResizingPVC = [], st_MariaDBTimeline = [],
      st_GTIDExecutedUpdatedAt = None, st_ReplicationLagByInstance = [], st_ReplicationLagUpdatedAt = None, st_Conditions = []\<rparr>"

definition cluster_of :: "string \<Rightarrow> ClusterSpec \<Rightarrow> ClusterStatus \<Rightarrow> Cluster" where
  "cluster_of name spec status =
     \<lparr>cl_Name = name, cl_Spec = spec, cl_Status = status, cl_UID = [], cl_Generation = 0, cl_Annotations = []\<rparr>"

lemma cluster_of_simps [simp]:
  "cl_Name (cluster_of n spec st) = n" "cl_Spec (cluster_of n spec st) = spec" "cl_Status (cluster_of n spec st) = st"
  "cl_UID (cluster_of n spec st) = []" "cl_Annotations (cluster_of n spec st) = []"
  "cluster_of n spec st\<lparr>cl_Status := st'\<rparr> = cluster_of n spec st'" "cluster_of n spec st\<lparr>cl_Spec := spec'\<rparr> = cluster_of n spec' st"
  by (simp_all add: cluster_of_def)

section \<open>Retention policies\<close>

definition retention_unit :: "char \<Rightarrow> int option" where
  "retention_unit c =
     (if c = CHR ''d'' then Some (24 * 3600 * Second)
      else if c = CHR ''w'' then Some (7 * 24 * 3600 * Second)
      else if c = CHR ''m'' then Some (30 * 24 * 3600 * Second)
      else None)"

text \<open>The regular expression \<open>^([1-9][0-9]*)([dwm])$\<close>: the two groups of a match.\<close>

definition retention_match :: "string \<Rightarrow> (string \<times> int) option" where
  "retention_match policy =
     (if policy = [] then None
      else let digits = butlast policy in
        if digits \<noteq> [] \<and> hd digits \<noteq> CHR ''0'' \<and> list_all is_digit digits
        then (case retention_unit (last policy) of None \<Rightarrow> None | Some u \<Rightarrow> Some (digits, u))
        else None)"

definition ParseRetentionPolicy :: "string \<Rightarrow> int res" where
  "ParseRetentionPolicy policy =
     (case retention_match policy of
        None \<Rightarrow> Inl (Errorf ''invalid retention policy %q: want <n>{d|w|m} (e.g. 30d, 8w, 3m)'' [policy])
      | Some (digits, unit) \<Rightarrow>
          (case Atoi digits of
             Inl e \<Rightarrow> Inl (Wrapf ''invalid retention policy %q: %w'' [policy] e)
           | Inr n \<Rightarrow> Inr (i64 (n * unit))))"

section \<open>Defaults\<close>

definition default_of :: "'a \<Rightarrow> 'a option \<Rightarrow> 'a option" where
  "default_of d x = (case x of None \<Rightarrow> Some d | Some v \<Rightarrow> Some v)"

definition S3ObjectStore_SetDefaults :: "S3ObjectStore \<Rightarrow> S3ObjectStore" where
  "S3ObjectStore_SetDefaults store =
     store\<lparr>s3_ForcePathStyle := default_of True (s3_ForcePathStyle store),
           s3_SignatureVersion := (if s3_SignatureVersion store = [] then ''s3v4'' else s3_SignatureVersion store)\<rparr>"

definition backup_defaults :: "BackupConfiguration \<Rightarrow> BackupConfiguration" where
  "backup_defaults b =
     b\<lparr>bc_ReclaimPolicy := (if bc_ReclaimPolicy b = [] then ''Retain'' else bc_ReclaimPolicy b),
       bc_ObjectStore := map_option S3ObjectStore_SetDefaults (bc_ObjectStore b),
       bc_ContinuousArchiving :=
         map_option (\<lambda>ca. ca\<lparr>cac_ObjectStore := map_option S3ObjectStore_SetDefaults (cac_ObjectStore ca)\<rparr>)
           (bc_ContinuousArchiving b)\<rparr>"

definition external_defaults :: "ExternalCluster \<Rightarrow> ExternalCluster" where
  "external_defaults e =
     e\<lparr>ec_ObjectStore := map_option S3ObjectStore_SetDefaults (ec_ObjectStore e),
       ec_BinlogObjectStore := map_option S3ObjectStore_SetDefaults (ec_BinlogObjectStore e)\<rparr>"

text \<open>The clamp of the smart shutdown: Go's integer division truncates towards zero.\<close>

definition clamp_smart :: "int \<Rightarrow> int \<Rightarrow> int" where
  "clamp_smart maxStop smart =
     (if smart \<ge> maxStop then (if maxStop < 0 then - ((- maxStop) div 2) else maxStop div 2) else smart)"

definition SetDefaults :: "ClusterSpec \<Rightarrow> ClusterSpec" where
  "SetDefaults spec =
     (let maxStop = (if cs_MaxStopDelay spec = 0 then 1800 else cs_MaxStopDelay spec);
          smart = (case cs_SmartShutdownTimeout spec of None \<Rightarrow> 180 | Some t \<Rightarrow> t)
      in spec\<lparr>cs_Instances := (if cs_Instances spec = 0 then 1 else cs_Instances spec),
              cs_MySQL := (cs_MySQL spec)\<lparr>my_BinlogFormat :=
                (if my_BinlogFormat (cs_MySQL spec) = [] then ''ROW'' else my_BinlogFormat (cs_MySQL spec))\<rparr>,
              cs_PrimaryUpdateStrategy :=
                (if cs_PrimaryUpdateStrategy spec = [] then ''unsupervised'' else cs_PrimaryUpdateStrategy spec),
              cs_PrimaryUpdateMethod :=
                (if cs_PrimaryUpdateMethod spec = [] then ''switchover'' else cs_PrimaryUpdateMethod spec),
              cs_MaxStartDelay := (if cs_MaxStartDelay spec = 0 then 3600 else cs_MaxStartDelay spec),
              cs_MaxStopDelay := maxStop,
              cs_SmartShutdownTimeout := Some (clamp_smart maxStop smart),
              cs_MaxSwitchoverDelay := (if cs_MaxSwitchoverDelay spec = 0 then 3600 else cs_MaxSwitchoverDelay spec),
              cs_EnablePDB := default_of True (cs_EnablePDB spec),
              cs_EnablePrimaryLease := default_of True (cs_EnablePrimaryLease spec),
              cs_EnableSuperuserAccess := default_of False (cs_EnableSuperuserAccess spec),
              cs_ResizeInUseVolumes := default_of True (cs_ResizeInUseVolumes spec),
              cs_Backup := map_option backup_defaults (cs_Backup spec),
              cs_ExternalClusters := map external_defaults (cs_ExternalClusters spec)\<rparr>)"

section \<open>Derived settings\<close>

definition ResolvedFlavor :: "Cluster \<Rightarrow> Flavor" where
  "ResolvedFlavor c = (if cs_Flavor (cl_Spec c) = [] then FlavorMySQL else cs_Flavor (cl_Spec c))"

definition ReplicationMode :: "Cluster \<Rightarrow> string" where
  "ReplicationMode c =
     (case cs_Replication (cl_Spec c) of
        None \<Rightarrow> ''async'' | Some r \<Rightarrow> if rc_Mode r = [] then ''async'' else rc_Mode r)"

definition IsGroupReplication :: "Cluster \<Rightarrow> bool" where
  "IsGroupReplication c \<longleftrightarrow> ReplicationMode c = ''groupReplication''"

definition heartbeat :: "Cluster \<Rightarrow> ReplicationHeartbeat option" where
  "heartbeat c = (case cs_Replication (cl_Spec c) of None \<Rightarrow> None | Some r \<Rightarrow> rc_Heartbeat r)"

definition clusterHeartbeatEnabled :: "ReplicationHeartbeat option \<Rightarrow> bool" where
  "clusterHeartbeatEnabled hb =
     (case hb of None \<Rightarrow> True | Some h \<Rightarrow> (case hb_Enabled h of None \<Rightarrow> True | Some b \<Rightarrow> b))"

definition clusterHeartbeatInterval :: "ReplicationHeartbeat option \<Rightarrow> int" where
  "clusterHeartbeatInterval hb =
     (case hb of None \<Rightarrow> Second
      | Some h \<Rightarrow> (case hb_Interval h of None \<Rightarrow> Second | Some d \<Rightarrow> if d \<le> 0 then Second else d))"

definition IsHeartbeatEnabled :: "Cluster \<Rightarrow> bool" where
  "IsHeartbeatEnabled c = clusterHeartbeatEnabled (heartbeat c)"

definition HeartbeatInterval :: "Cluster \<Rightarrow> int" where
  "HeartbeatInterval c = clusterHeartbeatInterval (heartbeat c)"

definition MaxReplicationLag :: "Cluster \<Rightarrow> int option" where
  "MaxReplicationLag c =
     (case cs_FailoverPolicy (cl_Spec c) of None \<Rightarrow> None | Some p \<Rightarrow> fp_MaxReplicationLag p)"

definition MaxReadyLag :: "Cluster \<Rightarrow> int option" where
  "MaxReadyLag c =
     (case cs_Replication (cl_Spec c) of None \<Rightarrow> None
      | Some r \<Rightarrow> (case rc_MaxReadyLag r of None \<Rightarrow> None | Some d \<Rightarrow> if d \<le> 0 then None else Some d))"

definition PreferredPrimary :: "Cluster \<Rightarrow> string list" where
  "PreferredPrimary c =
     (case cs_FailoverPolicy (cl_Spec c) of None \<Rightarrow> [] | Some p \<Rightarrow> fp_PreferredPrimary p)"

definition MinTimeBetweenFailovers :: "Cluster \<Rightarrow> int" where
  "MinTimeBetweenFailovers c =
     (case cs_FailoverPolicy (cl_Spec c) of None \<Rightarrow> 0
      | Some p \<Rightarrow> (case fp_MinTimeBetweenFailovers p of None \<Rightarrow> 0 | Some d \<Rightarrow> d))"

definition PrimaryStabilityWindow :: "Cluster \<Rightarrow> int" where
  "PrimaryStabilityWindow c =
     (case cs_FailoverPolicy (cl_Spec c) of None \<Rightarrow> 0
      | Some p \<Rightarrow> (case fp_PrimaryStabilityWindow p of None \<Rightarrow> 0 | Some d \<Rightarrow> d))"

definition bool_default :: "bool \<Rightarrow> bool option \<Rightarrow> bool" where
  "bool_default d x = (case x of None \<Rightarrow> d | Some b \<Rightarrow> b)"

definition EnableFailover :: "Cluster \<Rightarrow> bool" where
  "EnableFailover c = bool_default True (cs_EnableFailover (cl_Spec c))"

definition GetEnableSuperuserAccess :: "Cluster \<Rightarrow> bool" where
  "GetEnableSuperuserAccess c = bool_default False (cs_EnableSuperuserAccess (cl_Spec c))"

definition IsReplica :: "Cluster \<Rightarrow> bool" where
  "IsReplica c =
     (case cs_Replica (cl_Spec c) of None \<Rightarrow> False | Some r \<Rightarrow> bool_default True (rcc_Enabled r))"

definition IsSwitchoverOnDrainEnabled :: "Cluster \<Rightarrow> bool" where
  "IsSwitchoverOnDrainEnabled c = bool_default True (cs_EnableSwitchoverOnDrain (cl_Spec c))"

definition ShouldResizeInUseVolumes :: "Cluster \<Rightarrow> bool" where
  "ShouldResizeInUseVolumes c = bool_default True (cs_ResizeInUseVolumes (cl_Spec c))"

definition BackupBeforeUpgradeEnabled :: "Cluster \<Rightarrow> bool" where
  "BackupBeforeUpgradeEnabled c = bool_default True (cs_BackupBeforeUpgrade (cl_Spec c))"

definition GetMaxStopDelay :: "Cluster \<Rightarrow> int" where
  "GetMaxStopDelay c = (if cs_MaxStopDelay (cl_Spec c) > 0 then cs_MaxStopDelay (cl_Spec c) else 1800)"

definition GetSmartShutdownTimeout :: "Cluster \<Rightarrow> int" where
  "GetSmartShutdownTimeout c = (case cs_SmartShutdownTimeout (cl_Spec c) of Some t \<Rightarrow> t | None \<Rightarrow> 180)"

definition IsPrimaryLeaseEnabled :: "Cluster \<Rightarrow> bool" where
  "IsPrimaryLeaseEnabled c = bool_default True (cs_EnablePrimaryLease (cl_Spec c))"

definition IsEstablished :: "Cluster \<Rightarrow> bool" where
  "IsEstablished c \<longleftrightarrow> st_EstablishedAt (cl_Status c) \<noteq> None"

definition SemiSyncDurabilityPreferred :: "Cluster \<Rightarrow> bool" where
  "SemiSyncDurabilityPreferred c =
     (case my_SemiSync (cs_MySQL (cl_Spec c)) of None \<Rightarrow> True | Some s \<Rightarrow> ss_DataDurability s \<noteq> ''required'')"

definition IsSemiSyncEnabled :: "Cluster \<Rightarrow> bool" where
  "IsSemiSyncEnabled c = (case my_SemiSync (cs_MySQL (cl_Spec c)) of None \<Rightarrow> False | Some s \<Rightarrow> ss_Enabled s)"

definition ContinuousArchiving :: "Cluster \<Rightarrow> ContinuousArchivingConfiguration option" where
  "ContinuousArchiving c =
     (case cs_Backup (cl_Spec c) of None \<Rightarrow> None | Some b \<Rightarrow> bc_ContinuousArchiving b)"

definition IsArchivingEnabled :: "Cluster \<Rightarrow> bool" where
  "IsArchivingEnabled c =
     (case ContinuousArchiving c of None \<Rightarrow> False
      | Some ca \<Rightarrow> cac_Enabled ca \<and>
          (case cs_Backup (cl_Spec c) of None \<Rightarrow> False | Some b \<Rightarrow> bc_ObjectStore b \<noteq> None))"

definition BinlogObjectStore :: "Cluster \<Rightarrow> S3ObjectStore option" where
  "BinlogObjectStore c =
     (case cs_Backup (cl_Spec c) of
        None \<Rightarrow> None
      | Some b \<Rightarrow>
          (case bc_ContinuousArchiving b of
             Some ca \<Rightarrow> if cac_Enabled ca \<and> cac_ObjectStore ca \<noteq> None then cac_ObjectStore ca else bc_ObjectStore b
           | None \<Rightarrow> bc_ObjectStore b))"

definition ArchiveRPOSeconds :: "Cluster \<Rightarrow> int" where
  "ArchiveRPOSeconds c =
     (case ContinuousArchiving c of
        None \<Rightarrow> 300 | Some ca \<Rightarrow> if cac_TargetRPOSeconds ca \<le> 0 then 300 else cac_TargetRPOSeconds ca)"

definition IsPurgeAfterArchiveEnabled :: "Cluster \<Rightarrow> bool" where
  "IsPurgeAfterArchiveEnabled c =
     (case ContinuousArchiving c of None \<Rightarrow> False | Some ca \<Rightarrow> bool_default False (cac_PurgeAfterArchive ca))"

definition groupName :: "Cluster \<Rightarrow> string" where
  "groupName c =
     (case cs_Replication (cl_Spec c) of
        None \<Rightarrow> []
      | Some r \<Rightarrow> (case rc_GroupReplication r of None \<Rightarrow> [] | Some g \<Rightarrow> gc_GroupName g))"

definition PinnedGroupName :: "Cluster \<Rightarrow> string" where
  "PinnedGroupName c = (case st_GroupReplication (cl_Status c) of None \<Rightarrow> [] | Some g \<Rightarrow> gs_GroupName g)"

record ResolvedGroupReplicationTunables =
  rt_Consistency :: string
  rt_ExitStateAction :: string
  rt_AutoRejoinTries :: int

definition resolveGroupReplicationTunables :: "Cluster \<Rightarrow> ResolvedGroupReplicationTunables" where
  "resolveGroupReplicationTunables c =
     (let t = \<lparr>rt_Consistency = ''BEFORE_ON_PRIMARY_FAILOVER'', rt_ExitStateAction = ''READ_ONLY'',
               rt_AutoRejoinTries = 3\<rparr>
      in case cs_Replication (cl_Spec c) of
           None \<Rightarrow> t
         | Some r \<Rightarrow>
             (case rc_GroupReplication r of
                None \<Rightarrow> t
              | Some cfg \<Rightarrow>
                  \<lparr>rt_Consistency = (if gc_Consistency cfg = [] then rt_Consistency t else gc_Consistency cfg),
                   rt_ExitStateAction = (if gc_ExitStateAction cfg = [] then rt_ExitStateAction t else gc_ExitStateAction cfg),
                   rt_AutoRejoinTries = (case gc_AutoRejoinTries cfg of None \<Rightarrow> rt_AutoRejoinTries t | Some n \<Rightarrow> n)\<rparr>))"

definition FindExternalCluster :: "ClusterSpec \<Rightarrow> string \<Rightarrow> ExternalCluster option" where
  "FindExternalCluster spec name = find (\<lambda>e. ec_Name e = name) (cs_ExternalClusters spec)"

definition GetBinlogObjectStore :: "ExternalCluster \<Rightarrow> S3ObjectStore option" where
  "GetBinlogObjectStore e = (if ec_BinlogObjectStore e \<noteq> None then ec_BinlogObjectStore e else ec_ObjectStore e)"

definition Warnings :: "Cluster \<Rightarrow> string list" where
  "Warnings c =
     (let spec = cl_Spec c in
      if ResolvedFlavor c = FlavorMariaDB \<and> IsSemiSyncEnabled c \<and>
         (cs_MinSyncReplicas spec > 1 \<or> cs_MaxSyncReplicas spec > 1)
      then [Sprintf (''spec.minSyncReplicas=%d, spec.maxSyncReplicas=%d: MariaDB semi-synchronous replication '' @
              ''always waits for exactly one replica acknowledgement, so values above 1 and '' @
              ''spec.mysql.semiSync.dataDurability have no effect'')
              [FormatInt (cs_MinSyncReplicas spec), FormatInt (cs_MaxSyncReplicas spec)]]
      else [])"

section \<open>Checks\<close>

text \<open>
  An error of a field check, with the path of the field as text. The offending value the API machinery
  quotes in the message is left out.
\<close>

datatype field_error =
    Invalid string string
  | Required string string
  | Duplicate string string
  | Forbidden string string

definition path_child :: "string \<Rightarrow> string \<Rightarrow> string" where
  "path_child p name = p @ ''.'' @ name"

definition path_index :: "string \<Rightarrow> nat \<Rightarrow> string" where
  "path_index p i = p @ ''['' @ FormatUint i @ '']''"

definition isInstanceNameOf :: "string \<Rightarrow> string \<Rightarrow> bool" where
  "isInstanceNameOf clusterName name =
     (case CutPrefix name (clusterName @ ''-'') of
        None \<Rightarrow> False
      | Some suff \<Rightarrow>
          if suff = [] then False
          else (case Atoi suff of Inl e \<Rightarrow> False | Inr ordinal \<Rightarrow> ordinal > 0))"

definition check_timer :: "string \<Rightarrow> string \<Rightarrow> int option \<Rightarrow> field_error list" where
  "check_timer p name duration =
     (case duration of
        None \<Rightarrow> []
      | Some d \<Rightarrow> if d < 0 then [Invalid (path_child p name) (Sprintf ''%s cannot be negative'' [name])] else [])"

fun check_preferred :: "string \<Rightarrow> string \<Rightarrow> nat \<Rightarrow> string list \<Rightarrow> string list \<Rightarrow> field_error list" where
  "check_preferred cluster p i seen [] = []"
| "check_preferred cluster p i seen (name # names) =
     (if name \<in> set seen then [Duplicate (path_index p i) name]
      else if \<not> isInstanceNameOf cluster name
      then [Invalid (path_index p i)
              (Sprintf ''must be an instance of this cluster, i.e. %s-<ordinal>'' [cluster])]
      else []) @ check_preferred cluster p (Suc i) (name # seen) names"

text \<open>The two timers are the entries of a Go map: \<open>swap\<close> is the order in which \<open>range\<close> visits them.\<close>

definition validateFailoverPolicy :: "bool \<Rightarrow> Cluster \<Rightarrow> string \<Rightarrow> field_error list" where
  "validateFailoverPolicy swap c p =
     (case cs_FailoverPolicy (cl_Spec c) of
        None \<Rightarrow> []
      | Some policy \<Rightarrow>
          (let a = check_timer p ''minTimeBetweenFailovers'' (fp_MinTimeBetweenFailovers policy);
               b = check_timer p ''primaryStabilityWindow'' (fp_PrimaryStabilityWindow policy)
           in (if swap then b @ a else a @ b) @
              check_preferred (cl_Name c) (path_child p ''preferredPrimary'') 0 [] (fp_PreferredPrimary policy)))"

definition validateReplica :: "ClusterSpec \<Rightarrow> string \<Rightarrow> field_error list" where
  "validateReplica spec p =
     (case cs_Replica spec of
        None \<Rightarrow> []
      | Some r \<Rightarrow>
          if rcc_Source r = [] then [Required (path_child p ''source'') ''replica.source is required when replica is set'']
          else if FindExternalCluster spec (rcc_Source r) = None
          then [Invalid (path_child p ''source'') ''replica.source must reference an entry in externalClusters'']
          else [])"

definition isSupportedSSE :: "string \<Rightarrow> bool" where
  "isSupportedSSE algorithm =
     (let lowered = to_lower algorithm in
      lowered = ''aes256'' \<or> lowered = ''aws:s3'' \<or> lowered = ''aws:kms'' \<or>
      (prefix ''aws:kms:'' lowered \<and> length lowered > length ''aws:kms:''))"

definition S3ObjectStore_Validate :: "S3ObjectStore option \<Rightarrow> string \<Rightarrow> field_error list" where
  "S3ObjectStore_Validate store p =
     (case store of
        None \<Rightarrow> []
      | Some s \<Rightarrow>
          (case s3_ServerSideEncryption s of
             Some sse \<Rightarrow>
               if sse \<noteq> [] \<and> \<not> isSupportedSSE sse
               then [Invalid (path_child p ''serverSideEncryption'')
                       (''must be '' @ quote ''AES256'' @ '', '' @ quote ''aws:kms'' @ '' or '' @ quote ''aws:kms:<key-id>'')]
               else []
           | None \<Rightarrow> []) @
          (case s3_TLS s of
             Some tls \<Rightarrow>
               if tls_InsecureSkipVerify tls \<and> tls_CABundleSecret tls \<noteq> None
               then [Invalid (path_child (path_child p ''tls'') ''insecureSkipVerify'')
                       ''insecureSkipVerify and caBundleSecret are mutually exclusive: skipping verification ignores the CA bundle'']
               else []
           | None \<Rightarrow> []))"

definition validateBackup :: "ClusterSpec \<Rightarrow> string \<Rightarrow> field_error list" where
  "validateBackup spec p =
     (case cs_Backup spec of
        None \<Rightarrow> []
      | Some b \<Rightarrow>
          (if bc_RetentionPolicy b = [] then []
           else (case ParseRetentionPolicy (bc_RetentionPolicy b) of
                   Inl e \<Rightarrow> [Invalid (path_child p ''retentionPolicy'') (Error e)]
                 | Inr d \<Rightarrow>
                     if bc_ObjectStore b = None
                     then [Invalid (path_child p ''retentionPolicy'')
                             ''retentionPolicy requires backup.objectStore to be configured'']
                     else [])) @
          S3ObjectStore_Validate (bc_ObjectStore b) (path_child p ''objectStore'') @
          (case bc_ContinuousArchiving b of
             None \<Rightarrow> []
           | Some ca \<Rightarrow>
               S3ObjectStore_Validate (cac_ObjectStore ca) (path_child (path_child p ''continuousArchiving'') ''objectStore'') @
               (if cac_Enabled ca \<and> bc_ObjectStore b = None
                then [Invalid (path_child (path_child p ''continuousArchiving'') ''enabled'')
                        ''continuous archiving requires backup.objectStore to be configured'']
                else [])))"

section \<open>Defaults and checks\<close>

lemma default_of_idem [simp]: "default_of d (default_of d' x) = default_of d' x"
  by (auto simp: default_of_def split: option.splits)

lemma S3_defaults_idem: "S3ObjectStore_SetDefaults (S3ObjectStore_SetDefaults s) = S3ObjectStore_SetDefaults s"
  by (simp add: S3ObjectStore_SetDefaults_def)

lemma map_option_idem: "(\<And>x. f (f x) = f x) \<Longrightarrow> map_option f (map_option f x) = map_option f x"
  by (cases x) auto

lemmas S3_option_idem = map_option_idem [of S3ObjectStore_SetDefaults, OF S3_defaults_idem]

lemma backup_defaults_idem: "backup_defaults (backup_defaults b) = backup_defaults b"
  by (cases "bc_ContinuousArchiving b") (simp_all add: backup_defaults_def S3_option_idem)

lemma external_defaults_idem: "external_defaults (external_defaults e) = external_defaults e"
  by (simp add: external_defaults_def S3_option_idem)

lemma clamp_smart_idem: "clamp_smart m (clamp_smart m s) = clamp_smart m s"
  by (auto simp: clamp_smart_def)

lemma clamp_smart_less: "0 < m \<Longrightarrow> clamp_smart m s < m"
  by (auto simp: clamp_smart_def)

lemma SetDefaults_idem: "SetDefaults (SetDefaults s) = SetDefaults s"
  by (simp add: SetDefaults_def Let_def clamp_smart_idem external_defaults_idem
      map_option_idem [OF backup_defaults_idem])

lemma retention_unit_pos: "retention_unit c = Some u \<Longrightarrow> 0 < u"
  by (auto simp: retention_unit_def Second_def split: if_splits)

lemma parse_digits_pos:
  "list_all is_digit ds \<Longrightarrow> \<exists>n. parse_digits acc ds = Some n \<and> acc \<le> n"
proof (induction acc ds rule: parse_digits.induct)
  case (2 acc c cs)
  then obtain n where "parse_digits (10 * acc + digit_val c) cs = Some n" "10 * acc + digit_val c \<le> n" by auto
  then show ?case using "2.prems" by auto
qed simp

lemma digit_val_pos: "is_digit c \<Longrightarrow> c \<noteq> CHR ''0'' \<Longrightarrow> 0 < digit_val c"
proof -
  assume "is_digit c" "c \<noteq> CHR ''0''"
  then have "CHR ''0'' < c" by (auto simp: is_digit_def)
  then have "of_char CHR ''0'' < (of_char c :: nat)" unfolding less_char_def .
  then show ?thesis by (simp add: digit_val_def)
qed

lemma retention_match_Some:
  assumes "retention_match policy = Some (digits, unit)"
  shows "0 < unit" "\<exists>n. parse_dec digits = Some n \<and> 0 < n"
proof -
  show "0 < unit" using assms
    by (auto simp: retention_match_def Let_def dest: retention_unit_pos split: if_splits option.splits)
  have d: "digits \<noteq> []" "hd digits \<noteq> CHR ''0''" "list_all is_digit digits"
    using assms by (auto simp: retention_match_def Let_def split: if_splits option.splits)
  then obtain c cs where c: "digits = c # cs" "is_digit c" "c \<noteq> CHR ''0''" "list_all is_digit cs"
    by (cases digits) auto
  from parse_digits_pos [OF c(4), of "digit_val c"] digit_val_pos [OF c(2,3)]
  show "\<exists>n. parse_dec digits = Some n \<and> 0 < n" using c(1,2) by (auto simp: parse_dec_def)
qed

lemma ParseInt_digits:
  assumes "digits \<noteq> []" "list_all is_digit digits" "parse_dec digits = Some n" "ParseInt digits = Inr k"
  shows "k = int n"
proof -
  obtain c cs where c: "digits = c # cs" "is_digit c" using assms(1,2) by (cases digits) auto
  then have "c \<noteq> CHR ''-''" "c \<noteq> CHR ''+''" using not_digit_sign by auto
  with c(1) assms(3,4) show ?thesis by (auto simp: ParseInt_def split: if_splits)
qed

lemma Atoi_Inr: "Atoi s = Inr n \<longleftrightarrow> ParseInt s = Inr n"
  by (simp add: Atoi_def split: sum.splits)

lemma FormatUint_Suc_not_zero_head: "0 < n \<Longrightarrow> hd (FormatUint n) \<noteq> CHR ''0''"
proof (induction n rule: FormatUint.induct)
  case (1 n)
  show ?case
  proof (cases "n < 10")
    case True
    then have "digit_val (digit_char n) = n" by simp
    then have "digit_char n \<noteq> CHR ''0''" using "1.prems" by (auto simp: digit_val_def)
    then show ?thesis using True by (subst FormatUint.simps) simp
  next
    case False
    then have "hd (FormatUint (n div 10)) \<noteq> CHR ''0''" using 1 by simp
    then show ?thesis using False by (subst FormatUint.simps) simp
  qed
qed

lemma isInstanceNameOf_FormatUint:
  assumes "0 < n" "int n \<le> MaxInt64"
  shows "isInstanceNameOf c (c @ ''-'' @ FormatUint n)"
proof -
  have "ParseInt (FormatInt (int n)) = Inr (int n)" using assms by (intro ParseInt_FormatInt) auto
  then have "Atoi (FormatUint n) = Inr (int n)" by (simp add: Atoi_Inr FormatInt_def)
  moreover have "prefix (c @ ''-'') (c @ ''-'' @ FormatUint n)" by simp
  ultimately show ?thesis using assms(1) by (simp add: isInstanceNameOf_def CutPrefix_def)
qed

section \<open>Properties\<close>

text \<open>Defaulting a spec twice is defaulting it once, and after defaulting a cluster whose stop delay
  is positive stops gracefully before it is stopped hard.
\<close>

theorem SetDefaults_idempotent:
  "SetDefaults (SetDefaults s) = SetDefaults s \<and>
   (\<exists>t. cs_SmartShutdownTimeout (SetDefaults s) = Some t \<and>
     (0 < cs_MaxStopDelay (SetDefaults s) \<longrightarrow> t < cs_MaxStopDelay (SetDefaults s)))"
  using SetDefaults_idem [of s] by (simp add: SetDefaults_def Let_def clamp_smart_less)

theorem SetDefaults_idempotent_witness:
  "SetDefaults (SetDefaults (zero_spec\<lparr>cs_MaxStopDelay := 100\<rparr>)) = SetDefaults (zero_spec\<lparr>cs_MaxStopDelay := 100\<rparr>) \<and>
   cs_SmartShutdownTimeout (SetDefaults (zero_spec\<lparr>cs_MaxStopDelay := 100\<rparr>)) = Some 50 \<and> (50::int) < 100"
proof -
  have "cs_SmartShutdownTimeout (SetDefaults (zero_spec\<lparr>cs_MaxStopDelay := 100\<rparr>)) = Some 50"
    "cs_MaxStopDelay (SetDefaults (zero_spec\<lparr>cs_MaxStopDelay := 100\<rparr>)) = 100"
    by (simp_all add: SetDefaults_def zero_spec_def clamp_smart_def)
  with SetDefaults_idempotent [of "zero_spec\<lparr>cs_MaxStopDelay := 100\<rparr>"] show ?thesis by simp
qed

text \<open>A retention policy that parses is a positive count of days, weeks or months, and its duration
  is that product on int64: positive as long as the product fits.
\<close>

theorem ParseRetentionPolicy_duration:
  assumes "ParseRetentionPolicy policy = Inr d"
  shows "\<exists>digits unit n. retention_match policy = Some (digits, unit) \<and> parse_dec digits = Some n \<and>
    0 < n \<and> 0 < unit \<and> d = i64 (int n * unit) \<and> (int n * unit \<le> MaxInt64 \<longrightarrow> d = int n * unit \<and> 0 < d)"
proof -
  obtain digits unit where m: "retention_match policy = Some (digits, unit)"
    using assms by (auto simp: ParseRetentionPolicy_def split: option.splits)
  from retention_match_Some [OF m] obtain n where n: "parse_dec digits = Some n" "0 < n" "0 < unit" by auto
  have ds: "digits \<noteq> []" "list_all is_digit digits"
    using m by (auto simp: retention_match_def Let_def split: if_splits option.splits)
  obtain k where k: "ParseInt digits = Inr k" "d = i64 (k * unit)"
    using assms m by (auto simp: ParseRetentionPolicy_def Atoi_Inr split: sum.splits)
  then have d: "d = i64 (int n * unit)" using ParseInt_digits [OF ds n(1) k(1)] by simp
  moreover have "i64 (int n * unit) = int n * unit" if "int n * unit \<le> MaxInt64"
    using that n(2,3) by (intro i64_id) (auto simp: MaxInt64_def intro: order_trans [of _ 0])
  ultimately show ?thesis using m n by auto
qed

theorem ParseRetentionPolicy_duration_witness:
  "\<exists>digits unit n. retention_match ''8w'' = Some (digits, unit) \<and> parse_dec digits = Some n \<and>
    0 < n \<and> 0 < unit \<and> 4838400 * Second = i64 (int n * unit) \<and>
    (int n * unit \<le> MaxInt64 \<longrightarrow> 4838400 * Second = int n * unit \<and> 0 < 4838400 * Second)"
proof -
  have "ParseRetentionPolicy ''8w'' = Inr (4838400 * Second)" by code_simp
  from ParseRetentionPolicy_duration [OF this] show ?thesis by simp
qed

text \<open>The product wraps around: a policy of 110000 days is accepted by the admission check and
  parses to a negative duration.
\<close>

theorem ParseRetentionPolicy_wraps:
  "(\<exists>d < 0. ParseRetentionPolicy ''110000d'' = Inr d) \<and>
   validateBackup (zero_spec\<lparr>cs_Backup := Some \<lparr>bc_ObjectStore =
       Some \<lparr>s3_Endpoint = [], s3_Bucket = ''b'', s3_Path = [], s3_ForcePathStyle = None,
         s3_SignatureVersion = [], s3_ServerSideEncryption = None, s3_TLS = None\<rparr>,
       bc_RetentionPolicy = ''110000d'', bc_ReclaimPolicy = [], bc_ContinuousArchiving = None\<rparr>\<rparr>)
     ''spec.backup'' = []"
proof -
  have p: "ParseRetentionPolicy ''110000d'' = Inr (- 8942744073709551616)" by code_simp
  show ?thesis by (simp add: p validateBackup_def S3ObjectStore_Validate_def zero_spec_def)
qed

text \<open>Every name the operator builds from the cluster's name and an ordinal passes as an instance
  name; so do spellings of an ordinal that no instance has.
\<close>

theorem isInstanceNameOf_names:
  "(\<forall>n. 0 < n \<and> int n \<le> MaxInt64 \<longrightarrow> isInstanceNameOf c (c @ ''-'' @ FormatUint n)) \<and>
   isInstanceNameOf ''demo'' ''demo-01'' \<and> (\<nexists>n. 0 < n \<and> ''demo-01'' = ''demo'' @ ''-'' @ FormatUint n)"
proof -
  have "isInstanceNameOf ''demo'' ''demo-01''" by code_simp
  moreover have False if "0 < n" "''demo-01'' = ''demo'' @ ''-'' @ FormatUint n" for n
  proof -
    have "FormatUint n = ''01''" using that(2) by simp
    then show False using FormatUint_Suc_not_zero_head [OF that(1)] by simp
  qed
  ultimately show ?thesis using isInstanceNameOf_FormatUint by blast
qed

theorem isInstanceNameOf_names_witness:
  "isInstanceNameOf ''db'' (''db'' @ ''-'' @ FormatUint 12) \<and> ''db'' @ ''-'' @ FormatUint 12 = ''db-12''"
proof -
  have "''db'' @ ''-'' @ FormatUint 12 = ''db-12''" by code_simp
  moreover have "isInstanceNameOf ''db'' (''db'' @ ''-'' @ FormatUint 12)"
    using isInstanceNameOf_names [of "''db''", THEN conjunct1, THEN spec, of 12] by (simp add: MaxInt64_def)
  ultimately show ?thesis by blast
qed

end
