(* ===== verification/Instance_Report.thy ===== *)
theory Instance_Report
  imports Go_Prelude
begin

text \<open>
  What an instance manager reports about its server (\<open>pkg/management/mysql/webserver/status.go\<close>): its role and
  read-only state, its GTID position, the state of replication, of the group, of the archiver and of its data volume.
  The fields the operator only displays (versions, uptime, semi-sync flags) are left out.
\<close>

record ReplicationStatus =
  rs_SourceHost :: string
  rs_IORunning :: bool
  rs_SQLRunning :: bool
  rs_LastIOErrno :: int
  rs_LastError :: string
  rs_RetrievedGTIDSet :: string

record GroupReplicationMember =
  grm_MemberID :: string
  grm_Host :: string
  grm_State :: string
  grm_Role :: string

record GroupReplicationMemberStatus =
  grs_MemberID :: string
  grs_State :: string
  grs_ViewID :: string
  grs_CommunicationProtocol :: string
  grs_Members :: "GroupReplicationMember list"

record ArchiveEpochStatus =
  aes_Instance :: string
  aes_ServerID :: nat
  aes_Handoff :: string

record ArchiveForkStatus =
  afs_Segment :: string
  afs_InstanceName :: string
  afs_GTIDs :: string
  afs_DetectedAt :: string

record ArchivingStatus =
  ars_Active :: bool
  ars_LastArchivedBinlog :: string
  ars_LastArchivedGTID :: string
  ars_LastArchivedTime :: string
  ars_PendingFiles :: int
  ars_LastError :: string
  ars_LastErrorTime :: string
  ars_PurgeHeldBy :: "string list"
  ars_PurgeHeldSince :: string
  ars_Forks :: "ArchiveForkStatus list"
  ars_ForkCheckedAt :: string
  ars_ForkCheckGeneration :: int
  ars_OldestSegmentPosition :: string
  ars_DeferredFile :: string
  ars_DisownedGTIDs :: string
  ars_Gaps :: "string list"
  ars_CoveredGTIDSet :: string
  ars_MariaDBTimeline :: "ArchiveEpochStatus list"

record StorageStatus =
  sto_UsedBytes :: int
  sto_CapacityBytes :: int

record InstanceStatus =
  is_Role :: string
  is_IsReady :: bool
  is_NotReadyReason :: string
  is_ReadOnly :: bool
  is_SuperReadOnly :: bool
  is_GTIDExecuted :: string
  is_GTIDPurged :: string
  is_GTIDSlavePos :: string
  is_ServerID :: nat
  is_Replication :: "ReplicationStatus option"
  is_ExecutableHash :: string
  is_InPlaceUpgrading :: bool
  is_Archiving :: "ArchivingStatus option"
  is_GroupReplication :: "GroupReplicationMemberStatus option"
  is_LagMillis :: "int option"
  is_Storage :: "StorageStatus option"

definition zero_report :: InstanceStatus where
  "zero_report = \<lparr>is_Role = [], is_IsReady = False, is_NotReadyReason = [], is_ReadOnly = False, is_SuperReadOnly = False,
     is_GTIDExecuted = [], is_GTIDPurged = [], is_GTIDSlavePos = [], is_ServerID = 0, is_Replication = None, is_ExecutableHash = [], is_InPlaceUpgrading = False, is_Archiving = None,
     is_GroupReplication = None, is_LagMillis = None, is_Storage = None\<rparr>"

end
