(* ===== verification/Topology.thy ===== *)
theory Topology
  imports Cluster_Api
begin

text \<open>
  The boundary between the common reconciler and the replication topologies
  (\<open>internal/controller/topology\<close>): the observed states and results, the status patch, and the
  policy of automatic promotions of \<open>failover_policy.go\<close>.

  A pass of a reconciler works on its own copy of the Cluster and on the API server. The server is a
  parameter: the stored status, the Pods, the primary Lease and the recorded events are fields of
  \<open>pass\<close>, and \<open>pa_faults\<close> lists, for the calls in the order they are made, the error a call returns;
  a call that returns an error changes nothing, and past the end of the list no call fails.
  Nothing else changes the server during a pass. Reading an absent object gives \<open>NotFound\<close>.

  The lemmas give what the anti-flapping cooldown guarantees and what the automatic choice of a
  switchover target returns.
\<close>

section \<open>Observed states and results\<close>

definition PhaseReady :: string where "PhaseReady = ''Ready''"

definition PhaseBlocked :: string where "PhaseBlocked = ''Blocked''"

definition PhaseSwitchover :: string where "PhaseSwitchover = ''Switchover''"

definition PhaseDegraded :: string where "PhaseDegraded = ''Degraded''"

definition PhaseFailingOver :: string where "PhaseFailingOver = ''FailingOver''"

record PrimaryLeaseStatus =
  Held :: bool
  RetryAfter :: int

record InstanceAvailability =
  ia_Ready :: bool
  ia_LagGated :: bool

record AvailabilityState =
  as_PrimaryName :: string
  as_Instances :: "(string, InstanceAvailability) gomap"
  as_DivergedInstances :: "string list"
  as_FencedInstances :: "string list"

record FailoverInstance =
  fi_Ready :: bool
  fi_Primary :: bool
  fi_Replica :: bool
  fi_Role :: string
  fi_IORunning :: bool
  fi_SQLRunning :: bool
  fi_GTID :: string
  fi_RetrievedGTID :: string
  fi_GTIDPurged :: string
  fi_HeartbeatAge :: "int option"
  fi_InPlaceUpgrading :: bool

definition zero_instance :: FailoverInstance where
  "zero_instance =
     \<lparr>fi_Ready = False, fi_Primary = False, fi_Replica = False, fi_Role = [], fi_IORunning = False,
      fi_SQLRunning = False, fi_GTID = [], fi_RetrievedGTID = [], fi_GTIDPurged = [],
      fi_HeartbeatAge = None, fi_InPlaceUpgrading = False\<rparr>"

record FailoverState =
  fs_PrimaryName :: string
  fs_InstanceNames :: "string list"
  fs_Instances :: "(string, FailoverInstance) gomap"
  fs_Fenced :: "string list"
  fs_Diverged :: "string list"
  fs_Terminating :: "string list"

text \<open>Reading \<open>observed.Instances[name]\<close>: the zero value when the name is absent.\<close>

definition instance_at :: "FailoverState \<Rightarrow> string \<Rightarrow> FailoverInstance" where
  "instance_at observed name =
     (case map_of (fs_Instances observed) name of None \<Rightarrow> zero_instance | Some i \<Rightarrow> i)"

record OperationPhase =
  op_Phase :: string
  op_Reason :: string
  op_Ready :: bool
  op_Progressing :: bool

record FailoverRequest =
  fr_Instances :: int
  fr_Observed :: FailoverState
  fr_RetryInterval :: int
  fr_ProvisioningRetry :: int
  fr_DisownedGTIDs :: string

record FailoverResult =
  Handled :: bool
  RequeueAfter :: int
  Phase :: "OperationPhase option"

definition zero_result :: FailoverResult where
  "zero_result = \<lparr>Handled = False, RequeueAfter = 0, Phase = None\<rparr>"

record QuorumResult =
  qr_Blocked :: bool
  qr_Reason :: string
  qr_CurrentSize :: int
  qr_Quorum :: int

record ForceQuorumRecovery =
  fq_Action :: string
  fq_Survivor :: string
  fq_ForceMembers :: string

section \<open>The API server and the status patch\<close>

record Pod =
  pod_Deleting :: bool
  pod_Annotations :: "(string, string) gomap"

record Lease =
  ls_HolderIdentity :: "string option"
  ls_RenewTime :: "gotime option"
  ls_LeaseDurationSeconds :: "int option"

record pass =
  pa_cluster :: Cluster
  pa_latest :: ClusterStatus
  pa_pods :: "(string, Pod) gomap"
  pa_lease :: "Lease option"
  pa_events :: "(string \<times> string \<times> string) list"
  pa_faults :: "go_error option list"

definition api_call :: "pass \<Rightarrow> go_error option \<times> pass" where
  "api_call p =
     (case pa_faults p of [] \<Rightarrow> (None, p) | f # fs \<Rightarrow> (f, p\<lparr>pa_faults := fs\<rparr>))"

text \<open>
  A \<open>metav1.Time\<close> is written as RFC 3339 with whole seconds, so a stored status has its times truncated,
  and the patch reads the stored status back.
\<close>

definition stored :: "ClusterStatus \<Rightarrow> ClusterStatus" where
  "stored st = st\<lparr>
     st_CurrentPrimaryTimestamp := map_option truncate_second (st_CurrentPrimaryTimestamp st),
     st_TargetPrimaryTimestamp := map_option truncate_second (st_TargetPrimaryTimestamp st),
     st_PrimaryFailingSince := map_option truncate_second (st_PrimaryFailingSince st),
     st_PrimaryHealthySince := map_option truncate_second (st_PrimaryHealthySince st),
     st_LastFailoverTimestamp := map_option truncate_second (st_LastFailoverTimestamp st),
     st_EstablishedAt := map_option truncate_second (st_EstablishedAt st)\<rparr>"

definition PatchClusterStatus :: "(ClusterStatus \<Rightarrow> ClusterStatus) \<Rightarrow> pass \<Rightarrow> go_error option \<times> pass" where
  "PatchClusterStatus mutate p =
     (case api_call p of
        (Some e, p1) \<Rightarrow> (Some e, p1)
      | (None, p1) \<Rightarrow>
          (let latest = stored (mutate (pa_latest p1)) in
           case api_call p1 of
             (Some e, p2) \<Rightarrow> (Some e, p2)
           | (None, p2) \<Rightarrow>
               (None, p2\<lparr>pa_latest := latest, pa_cluster := (pa_cluster p2)\<lparr>cl_Status := latest\<rparr>\<rparr>)))"

definition record_event :: "bool \<Rightarrow> string \<Rightarrow> string \<Rightarrow> string \<Rightarrow> pass \<Rightarrow> pass" where
  "record_event recorder ty reason message p =
     (if recorder then p\<lparr>pa_events := pa_events p @ [(ty, reason, message)]\<rparr> else p)"

section \<open>The promotion policy\<close>

definition primaryHealthySince :: "Cluster \<Rightarrow> gotime" where
  "primaryHealthySince c =
     (case st_PrimaryHealthySince (cl_Status c) of
        None \<Rightarrow> zero_time
      | Some since \<Rightarrow>
          (case st_CurrentPrimaryTimestamp (cl_Status c) of
             Some elected \<Rightarrow> if elected > since then elected else since
           | None \<Rightarrow> since))"

definition primarySettledAt :: "Cluster \<Rightarrow> gotime" where
  "primarySettledAt c =
     (let settled = (case st_LastFailoverTimestamp (cl_Status c) of None \<Rightarrow> zero_time | Some t \<Rightarrow> t);
          window = PrimaryStabilityWindow c
      in if window \<le> 0 then settled
         else let healthy = primaryHealthySince c in
           if healthy \<noteq> zero_time \<and> healthy + window > settled then healthy + window else settled)"

definition FailoverCooldownRemaining :: "gotime \<Rightarrow> Cluster \<Rightarrow> int" where
  "FailoverCooldownRemaining now c =
     (let cooldown = MinTimeBetweenFailovers c in
      if cooldown \<le> 0 then 0
      else let settled = primarySettledAt c in
        if settled = zero_time then 0 else max (time_Sub (settled + cooldown) now) 0)"

definition primaryMovable :: "gotime \<Rightarrow> Cluster \<Rightarrow> FailoverState \<Rightarrow> bool" where
  "primaryMovable now c observed =
     (let current = st_CurrentPrimary (cl_Status c); target = st_TargetPrimary (cl_Status c) in
      if current = [] \<or> fs_PrimaryName observed = [] then False
      else if target \<noteq> [] \<and> target \<noteq> current then False
      else if (case map_of (fs_Instances observed) current of
                 None \<Rightarrow> True | Some status \<Rightarrow> \<not> fi_Ready status \<or> \<not> fi_Primary status) then False
      else if current \<in> set (fs_Terminating observed) then False
      else if FailoverCooldownRemaining now c > 0 then False
      else True)"

definition candidateEligible :: "Cluster \<Rightarrow> FailoverState \<Rightarrow> string \<Rightarrow> bool" where
  "candidateEligible c observed name \<longleftrightarrow>
     name \<notin> set (fs_Fenced observed) \<and> name \<notin> set (fs_Diverged observed) \<and>
     name \<notin> set (st_DivergedInstances (cl_Status c)) \<and> name \<notin> set (fs_Terminating observed)"

fun failback_walk :: "Cluster \<Rightarrow> FailoverState \<Rightarrow> (string \<Rightarrow> bool) \<Rightarrow> string \<Rightarrow> string list \<Rightarrow> string" where
  "failback_walk c observed promotable current [] = []"
| "failback_walk c observed promotable current (name # names) =
     (if name = current then []
      else if \<not> candidateEligible c observed name then failback_walk c observed promotable current names
      else if promotable name then name
      else failback_walk c observed promotable current names)"

definition PreferredFailbackTarget :: "gotime \<Rightarrow> Cluster \<Rightarrow> FailoverState \<Rightarrow> (string \<Rightarrow> bool) \<Rightarrow> string" where
  "PreferredFailbackTarget now c observed promotable =
     (let preferred = PreferredPrimary c; current = st_CurrentPrimary (cl_Status c) in
      if length preferred = 0 \<or> \<not> primaryMovable now c observed then []
      else failback_walk c observed promotable current preferred)"

fun add_missing :: "string list \<Rightarrow> string list \<Rightarrow> string list" where
  "add_missing candidates [] = candidates"
| "add_missing candidates (name # names) =
     add_missing (if name \<in> set candidates then candidates else candidates @ [name]) names"

fun in_range_walk ::
  "Cluster \<Rightarrow> FailoverState \<Rightarrow> (string \<Rightarrow> bool) \<Rightarrow> (string \<Rightarrow> bool) \<Rightarrow> string \<Rightarrow> string list \<Rightarrow> string" where
  "in_range_walk c observed inRange promotable current [] = []"
| "in_range_walk c observed inRange promotable current (name # names) =
     (if name = current \<or> \<not> inRange name \<or> \<not> candidateEligible c observed name
      then in_range_walk c observed inRange promotable current names
      else if promotable name then name
      else in_range_walk c observed inRange promotable current names)"

definition InRangeSwitchoverTarget ::
  "gotime \<Rightarrow> Cluster \<Rightarrow> FailoverState \<Rightarrow> (string \<Rightarrow> bool) \<Rightarrow> (string \<Rightarrow> bool) \<Rightarrow> string" where
  "InRangeSwitchoverTarget now c observed inRange promotable =
     (let current = st_CurrentPrimary (cl_Status c) in
      if current = [] \<or> inRange current \<or> \<not> primaryMovable now c observed then []
      else in_range_walk c observed inRange promotable current
             (add_missing (PreferredPrimary c) (fs_InstanceNames observed)))"

section \<open>The status patch\<close>

lemma truncate_second_idem [simp]: "truncate_second (truncate_second t) = truncate_second t"
  by (simp add: truncate_second_def Second_def)

lemma stored_simps [simp]:
  "st_TargetPrimary (stored st) = st_TargetPrimary st" "st_CurrentPrimary (stored st) = st_CurrentPrimary st"
  "st_InstanceNames (stored st) = st_InstanceNames st" "st_FencedInstances (stored st) = st_FencedInstances st"
  "st_DivergedInstances (stored st) = st_DivergedInstances st" "st_Phase (stored st) = st_Phase st"
  "st_PhaseReason (stored st) = st_PhaseReason st"
  "st_GTIDExecutedByInstance (stored st) = st_GTIDExecutedByInstance st"
  "st_ExecutableHashByInstance (stored st) = st_ExecutableHashByInstance st"
  "st_ContinuousArchiving (stored st) = st_ContinuousArchiving st"
  "st_GroupReplication (stored st) = st_GroupReplication st"
  "st_LastFailoverTimestamp (stored st) = map_option truncate_second (st_LastFailoverTimestamp st)"
  "st_TargetPrimaryTimestamp (stored st) = map_option truncate_second (st_TargetPrimaryTimestamp st)"
  "st_CurrentPrimaryTimestamp (stored st) = map_option truncate_second (st_CurrentPrimaryTimestamp st)"
  "st_PrimaryFailingSince (stored st) = map_option truncate_second (st_PrimaryFailingSince st)"
  "st_PrimaryHealthySince (stored st) = map_option truncate_second (st_PrimaryHealthySince st)"
  "st_EstablishedAt (stored st) = map_option truncate_second (st_EstablishedAt st)"
  by (simp_all add: stored_def)

lemma stored_idem [simp]: "stored (stored st) = stored st"
  by (simp add: stored_def option.map_comp comp_def)

lemma api_callE:
  assumes "api_call p = (f, p')"
  obtains fs where "p' = p\<lparr>pa_faults := fs\<rparr>"
  using assms that [of "pa_faults p'"] by (auto simp: api_call_def split: list.splits)

lemma PatchClusterStatus_cases:
  assumes "PatchClusterStatus mutate p = (r, p')"
  obtains e fs where "r = Some e" "p' = p\<lparr>pa_faults := fs\<rparr>"
  | fs where "r = None" "p' = p\<lparr>pa_faults := fs, pa_latest := stored (mutate (pa_latest p)),
      pa_cluster := (pa_cluster p)\<lparr>cl_Status := stored (mutate (pa_latest p))\<rparr>\<rparr>"
proof -
  obtain f1 p1 where c1: "api_call p = (f1, p1)" by force
  obtain f2 p2 where c2: "api_call p1 = (f2, p2)" by force
  obtain fs1 where e1: "p1 = p\<lparr>pa_faults := fs1\<rparr>" using c1 by (rule api_callE)
  obtain fs2 where e2: "p2 = p\<lparr>pa_faults := fs2\<rparr>" using api_callE [OF c2] e1 by auto
  show ?thesis
  proof (cases f1)
    case (Some e)
    then have "r = Some e" "p' = p\<lparr>pa_faults := fs1\<rparr>" using assms c1 e1 by (simp_all add: PatchClusterStatus_def)
    then show ?thesis by (rule that(1))
  next
    case None
    show ?thesis
    proof (cases f2)
      case (Some x)
      then have "r = Some x" "p' = p\<lparr>pa_faults := fs2\<rparr>"
        using assms c1 c2 None e2 by (simp_all add: PatchClusterStatus_def)
      then show ?thesis by (rule that(1))
    next
      case n2: None
      then have "r = None" "p' = p\<lparr>pa_faults := fs2, pa_latest := stored (mutate (pa_latest p)),
          pa_cluster := (pa_cluster p)\<lparr>cl_Status := stored (mutate (pa_latest p))\<rparr>\<rparr>"
        using assms c1 c2 None e1 e2 by (simp_all add: PatchClusterStatus_def Let_def)
      then show ?thesis by (rule that(2))
    qed
  qed
qed

section \<open>The cooldown\<close>

lemma cooldown_elapsed:
  assumes "0 < MinTimeBetweenFailovers c" "primarySettledAt c \<noteq> zero_time"
  shows "FailoverCooldownRemaining now c = 0 \<longleftrightarrow> primarySettledAt c + MinTimeBetweenFailovers c \<le> now"
  using assms time_Sub_pos [of "primarySettledAt c + MinTimeBetweenFailovers c" now]
  by (auto simp: FailoverCooldownRemaining_def Let_def max_def)

lemma primarySettledAt_ge_failover:
  "st_LastFailoverTimestamp (cl_Status c) = Some t \<Longrightarrow> t \<le> primarySettledAt c"
  by (auto simp: primarySettledAt_def Let_def)

lemma primarySettledAt_ge_healthy:
  assumes "0 < PrimaryStabilityWindow c" "st_PrimaryHealthySince (cl_Status c) = Some h" "zero_time < h"
  shows "h + PrimaryStabilityWindow c \<le> primarySettledAt c"
proof -
  have h: "h \<le> primaryHealthySince c" "primaryHealthySince c \<noteq> zero_time"
    using assms(2,3) by (auto simp: primaryHealthySince_def split: option.splits)
  then show ?thesis using assms(1) by (auto simp: primarySettledAt_def Let_def)
qed

section \<open>The automatic choice of a target\<close>

lemma failback_walk_correct:
  assumes "failback_walk c observed promotable current names = r" "r \<noteq> []"
  shows "\<exists>before after. names = before @ r # after \<and> r \<noteq> current \<and> candidateEligible c observed r \<and> promotable r \<and>
    (\<forall>n \<in> set before. n \<noteq> current \<and> \<not> (candidateEligible c observed n \<and> promotable n))"
  using assms(1)
proof (induction names)
  case Nil
  then show ?case using assms(2) by simp
next
  case (Cons name names)
  show ?case
  proof (cases "name \<noteq> current \<and> candidateEligible c observed name \<and> promotable name")
    case True
    then have "r = name" using Cons.prems by simp
    with True show ?thesis by (intro exI [of _ "[]"] exI [of _ names]) simp
  next
    case False
    have "name \<noteq> current" using Cons.prems assms(2) by auto
    then have "failback_walk c observed promotable current names = r" using Cons.prems False by (simp split: if_splits)
    from Cons.IH [OF this] obtain before after where b: "names = before @ r # after" "r \<noteq> current"
      "candidateEligible c observed r" "promotable r"
      "\<forall>n \<in> set before. n \<noteq> current \<and> \<not> (candidateEligible c observed n \<and> promotable n)" by blast
    show ?thesis using b False \<open>name \<noteq> current\<close> by (intro exI [of _ "name # before"] exI [of _ after]) simp
  qed
qed

lemma in_range_walk_some:
  "in_range_walk c observed inRange promotable current names \<noteq> [] \<Longrightarrow>
   r = in_range_walk c observed inRange promotable current names \<Longrightarrow>
   r \<in> set names \<and> r \<noteq> current \<and> inRange r \<and> candidateEligible c observed r \<and> promotable r"
  by (induction names) (simp_all split: if_splits)

lemma in_range_walk_none:
  "in_range_walk c observed inRange promotable current names = [] \<Longrightarrow> [] \<notin> set names \<Longrightarrow> n \<in> set names \<Longrightarrow>
   \<not> (n \<noteq> current \<and> inRange n \<and> candidateEligible c observed n \<and> promotable n)"
  by (induction names) (auto split: if_splits)

lemma set_add_missing: "set (add_missing cs ns) = set cs \<union> set ns"
  by (induction cs ns rule: add_missing.induct) auto

lemma primaryMovableD:
  assumes "primaryMovable now c observed"
  shows "FailoverCooldownRemaining now c \<le> 0"
    "\<exists>s. map_of (fs_Instances observed) (st_CurrentPrimary (cl_Status c)) = Some s \<and> fi_Ready s \<and> fi_Primary s"
    "st_CurrentPrimary (cl_Status c) \<notin> set (fs_Terminating observed)"
    "st_TargetPrimary (cl_Status c) \<in> {[], st_CurrentPrimary (cl_Status c)}"
  using assms by (auto simp: primaryMovable_def Let_def split: if_splits option.splits)

section \<open>Properties\<close>

text \<open>The anti-flapping cooldown: while one is set, no automatic promotion is allowed before the
  cooldown has passed since the last automatic failover, nor, with a stability window, before the
  primary was healthy without a break for the window and the cooldown passed after that.
\<close>

theorem cooldown_spaces_failovers:
  assumes "0 < MinTimeBetweenFailovers c" "FailoverCooldownRemaining now c = 0"
    "st_LastFailoverTimestamp (cl_Status c) = Some t" "zero_time < t"
  shows "t + MinTimeBetweenFailovers c \<le> now \<and>
    (\<forall>h. 0 < PrimaryStabilityWindow c \<and> st_PrimaryHealthySince (cl_Status c) = Some h \<and> zero_time < h \<longrightarrow>
       h + PrimaryStabilityWindow c + MinTimeBetweenFailovers c \<le> now)"
proof -
  have ge: "t \<le> primarySettledAt c" by (rule primarySettledAt_ge_failover [OF assms(3)])
  then have "primarySettledAt c + MinTimeBetweenFailovers c \<le> now"
    using assms cooldown_elapsed [OF assms(1)] by auto
  then show ?thesis using ge primarySettledAt_ge_healthy by fastforce
qed

theorem cooldown_spaces_failovers_witness:
  "let c = cluster_of ''db''
      (zero_spec\<lparr>cs_FailoverPolicy := Some \<lparr>fp_MaxTransactionsBehind = None, fp_MaxReplicationLag = None,
        fp_PreferredPrimary = [], fp_MinTimeBetweenFailovers = Some 50, fp_PrimaryStabilityWindow = Some 10\<rparr>\<rparr>)
      (zero_status\<lparr>st_LastFailoverTimestamp := Some 100, st_PrimaryHealthySince := Some 120\<rparr>)
   in 100 + MinTimeBetweenFailovers c \<le> 180 \<and> 120 + PrimaryStabilityWindow c + MinTimeBetweenFailovers c \<le> 180 \<and>
      FailoverCooldownRemaining 179 c = 1"
proof -
  let ?c = "cluster_of ''db''
      (zero_spec\<lparr>cs_FailoverPolicy := Some \<lparr>fp_MaxTransactionsBehind = None, fp_MaxReplicationLag = None,
        fp_PreferredPrimary = [], fp_MinTimeBetweenFailovers = Some 50, fp_PrimaryStabilityWindow = Some 10\<rparr>\<rparr>)
      (zero_status\<lparr>st_LastFailoverTimestamp := Some 100, st_PrimaryHealthySince := Some 120\<rparr>)"
  have "0 < MinTimeBetweenFailovers ?c" "FailoverCooldownRemaining 180 ?c = 0" "0 < PrimaryStabilityWindow ?c"
    "zero_time < 100" "zero_time < 120" "FailoverCooldownRemaining 179 ?c = 1" by code_simp+
  moreover have "st_LastFailoverTimestamp (cl_Status ?c) = Some 100" "st_PrimaryHealthySince (cl_Status ?c) = Some 120"
    by simp_all
  ultimately show ?thesis using cooldown_spaces_failovers [of ?c 180 100] by (simp add: Let_def)
qed

text \<open>A failback target is the most preferred instance that is fit: it is promotable, neither fenced
  nor diverged nor terminating, everything preferred to it is unfit and none of it is the current
  primary, which is healthy, is not on its way out, has no switchover in flight and is past the
  cooldown.
\<close>

theorem PreferredFailbackTarget_best:
  assumes "PreferredFailbackTarget now c observed promotable = r" "r \<noteq> []"
  shows "\<exists>before after. PreferredPrimary c = before @ r # after \<and> r \<noteq> st_CurrentPrimary (cl_Status c) \<and>
    candidateEligible c observed r \<and> promotable r \<and>
    (\<forall>n \<in> set before. n \<noteq> st_CurrentPrimary (cl_Status c) \<and> \<not> (candidateEligible c observed n \<and> promotable n)) \<and>
    primaryMovable now c observed \<and> FailoverCooldownRemaining now c \<le> 0"
proof -
  have m: "primaryMovable now c observed"
    and w: "failback_walk c observed promotable (st_CurrentPrimary (cl_Status c)) (PreferredPrimary c) = r"
    using assms by (auto simp: PreferredFailbackTarget_def Let_def split: if_splits)
  show ?thesis using failback_walk_correct [OF w assms(2)] m primaryMovableD(1) [OF m] by blast
qed

definition wit_cluster :: Cluster where
  "wit_cluster = cluster_of ''db''
      (zero_spec\<lparr>cs_FailoverPolicy := Some \<lparr>fp_MaxTransactionsBehind = None, fp_MaxReplicationLag = None,
       fp_PreferredPrimary = [''db-1'', ''db-2''], fp_MinTimeBetweenFailovers = None, fp_PrimaryStabilityWindow = None\<rparr>\<rparr>)
     (zero_status\<lparr>st_CurrentPrimary := ''db-3''\<rparr>)"

definition wit_observed :: FailoverState where
  "wit_observed = \<lparr>fs_PrimaryName = ''db-3'', fs_InstanceNames = [''db-1'', ''db-2'', ''db-3''],
     fs_Instances = [(''db-3'', zero_instance\<lparr>fi_Ready := True, fi_Primary := True\<rparr>)],
     fs_Fenced = [''db-1''], fs_Diverged = [], fs_Terminating = []\<rparr>"

theorem PreferredFailbackTarget_best_witness:
  "PreferredFailbackTarget 0 wit_cluster wit_observed (\<lambda>_. True) = ''db-2'' \<and>
   (\<exists>before after. PreferredPrimary wit_cluster = before @ ''db-2'' # after \<and>
      ''db-2'' \<noteq> st_CurrentPrimary (cl_Status wit_cluster))"
proof -
  have "PreferredFailbackTarget 0 wit_cluster wit_observed (\<lambda>_. True) = ''db-2''" by code_simp
  with PreferredFailbackTarget_best [OF this] show ?thesis by blast
qed

text \<open>When the primary sits outside the desired range and may be moved, the target is an in-range,
  fit and promotable instance other than the primary, and no target is returned only when no
  preferred or observed instance is one.
\<close>

theorem InRangeSwitchoverTarget_sound_complete:
  assumes "st_CurrentPrimary (cl_Status c) \<noteq> []" "\<not> inRange (st_CurrentPrimary (cl_Status c))"
    "primaryMovable now c observed" "[] \<notin> set (PreferredPrimary c) \<union> set (fs_InstanceNames observed)"
  shows "let r = InRangeSwitchoverTarget now c observed inRange promotable;
             fit = (\<lambda>n. n \<noteq> st_CurrentPrimary (cl_Status c) \<and> inRange n \<and> candidateEligible c observed n \<and> promotable n);
             names = set (PreferredPrimary c) \<union> set (fs_InstanceNames observed)
         in if r = [] then \<forall>n \<in> names. \<not> fit n else r \<in> names \<and> fit r"
proof -
  let ?names = "add_missing (PreferredPrimary c) (fs_InstanceNames observed)"
  let ?r = "in_range_walk c observed inRange promotable (st_CurrentPrimary (cl_Status c)) ?names"
  have r: "InRangeSwitchoverTarget now c observed inRange promotable = ?r"
    using assms by (simp add: InRangeSwitchoverTarget_def Let_def)
  have "[] \<notin> set ?names" using assms(4) by (simp add: set_add_missing)
  then show ?thesis
    using in_range_walk_none [of c observed inRange promotable "st_CurrentPrimary (cl_Status c)" ?names]
      in_range_walk_some [of c observed inRange promotable "st_CurrentPrimary (cl_Status c)" ?names ?r]
    unfolding r Let_def by (simp add: set_add_missing)
qed

theorem InRangeSwitchoverTarget_sound_complete_witness:
  "InRangeSwitchoverTarget 0 wit_cluster wit_observed (\<lambda>n. n \<noteq> ''db-3'') (\<lambda>_. True) = ''db-2'' \<and>
   ''db-2'' \<in> set (PreferredPrimary wit_cluster) \<union> set (fs_InstanceNames wit_observed)"
proof -
  have h: "st_CurrentPrimary (cl_Status wit_cluster) \<noteq> []"
    "\<not> (\<lambda>n. n \<noteq> ''db-3'') (st_CurrentPrimary (cl_Status wit_cluster))"
    "primaryMovable 0 wit_cluster wit_observed"
    "[] \<notin> set (PreferredPrimary wit_cluster) \<union> set (fs_InstanceNames wit_observed)" by code_simp+
  have "InRangeSwitchoverTarget 0 wit_cluster wit_observed (\<lambda>n. n \<noteq> ''db-3'') (\<lambda>_. True) = ''db-2''" by code_simp
  with InRangeSwitchoverTarget_sound_complete
    [of wit_cluster "\<lambda>n. n \<noteq> ''db-3''" 0 wit_observed "\<lambda>_. True"] h
  show ?thesis by (simp add: Let_def)
qed

end
