(* ===== verification/Async_Observation.thy ===== *)
theory Async_Observation
  imports Topology Instance_Report
begin

text \<open>
  Observation of an asynchronous topology (\<open>internal/controller/async/cluster_observation.go\<close>):
  which instances diverged from the primary and which stopped replicating. It reads
  the replication blocks of the reports in \<open>Instance_Report\<close>.

  The lemmas show that a recorded divergence is dropped only on positive proof, that errant and
  disowned transactions are always found, and that only present instances are flagged.
\<close>

section \<open>Input and output\<close>

record ObservationInput =
  oi_PrimaryName :: string
  oi_InstanceNames :: "string list"
  oi_StatusByInstance :: "(string, InstanceStatus) gomap"
  oi_GTIDByInstance :: "(string, string) gomap"
  oi_ConfiguredMembers :: int
  oi_ObservedViewMax :: int
  oi_EngineFlavor :: Flavor
  oi_PriorDivergedInstances :: "string list"
  oi_MariaDBTimeline :: MariaDBTimeline
  oi_DisownedGTIDs :: string

record Observation =
  ob_PrimaryName :: string
  ob_PrimaryAuthoritative :: bool
  ob_DivergedInstances :: "string list"
  ob_ReplicationBrokenInstances :: "string list"
  ob_GroupReplication :: "GroupReplicationStatus option"

section \<open>Disowned transactions\<close>

definition disownedSet :: "Flavor \<Rightarrow> string \<Rightarrow> GTIDSet option" where
  "disownedSet flavor raw =
     (if raw = [] \<or> flavor = FlavorMariaDB then None
      else case ParseGTIDSet raw of
             Inl e \<Rightarrow> None
           | Inr s \<Rightarrow> if IsEmpty s then None else Some s)"

fun holdsDisowned :: "GTIDSet \<Rightarrow> string list \<Rightarrow> bool" where
  "holdsDisowned disowned [] = False"
| "holdsDisowned disowned (raw # sets) =
     (case ParseGTIDSet raw of
        Inr s \<Rightarrow> if \<not> IsEmpty (Intersect s disowned) then True else holdsDisowned disowned sets
      | Inl e \<Rightarrow> holdsDisowned disowned sets)"

fun disowned_loop :: "GTIDSet \<Rightarrow> ObservationInput \<Rightarrow> string list \<Rightarrow> string list \<Rightarrow> string list" where
  "disowned_loop disowned input [] diverged = diverged"
| "disowned_loop disowned input (name # names) diverged =
     disowned_loop disowned input names
       (if name = oi_PrimaryName input \<or> name \<in> set diverged then diverged
        else if holdsDisowned disowned [string_at (oi_GTIDByInstance input) name] then diverged @ [name]
        else diverged)"

definition holdingDisowned :: "ObservationInput \<Rightarrow> string list \<Rightarrow> string list" where
  "holdingDisowned input diverged =
     (case disownedSet (oi_EngineFlavor input) (oi_DisownedGTIDs input) of
        None \<Rightarrow> diverged
      | Some disowned \<Rightarrow> disowned_loop disowned input (oi_InstanceNames input) diverged)"

section \<open>Divergence\<close>

definition mariadbSourceRefused :: int where
  "mariadbSourceRefused = 1236"

definition refusedByPrimary :: "InstanceStatus option \<Rightarrow> string \<Rightarrow> bool" where
  "refusedByPrimary status primary =
     (case status of
        None \<Rightarrow> False
      | Some s \<Rightarrow>
          (case is_Replication s of
             None \<Rightarrow> False
           | Some r \<Rightarrow>
               primary \<noteq> [] \<and> rs_LastIOErrno r = mariadbSourceRefused \<and>
               fst (cut_at CHR ''.'' (rs_SourceHost r)) = primary))"

definition stillPresent :: "string list \<Rightarrow> string list \<Rightarrow> string list" where
  "stillPresent names instanceNames = filter (\<lambda>n. n \<in> set instanceNames) names"

fun off_timeline_loop :: "ObservationInput \<Rightarrow> string list \<Rightarrow> string list \<Rightarrow> string list" where
  "off_timeline_loop input [] diverged = diverged"
| "off_timeline_loop input (name # names) diverged =
     off_timeline_loop input names
       (let gtid = string_at (oi_GTIDByInstance input) name in
        if name = oi_PrimaryName input \<or> name \<in> set diverged then diverged
        else if gtid = [] then diverged
        else (case Judge (oi_MariaDBTimeline input) gtid of
                Inr (on, known) \<Rightarrow> if known \<and> \<not> on then diverged @ [name] else diverged
              | Inl e \<Rightarrow> diverged))"

definition offTimeline :: "ObservationInput \<Rightarrow> string list \<Rightarrow> string list" where
  "offTimeline input diverged =
     (if oi_EngineFlavor input \<noteq> FlavorMariaDB \<or> length (oi_MariaDBTimeline input) = 0 then diverged
      else off_timeline_loop input (oi_InstanceNames input) diverged)"

text \<open>The body of the comparison loop: whether the instance \<open>name\<close> is appended.\<close>

definition is_diverged :: "gtid_model \<Rightarrow> ObservationInput \<Rightarrow> string \<Rightarrow> string \<Rightarrow> bool" where
  "is_diverged gtidModel input primaryGTID name =
     (let mariadb = (oi_EngineFlavor input = FlavorMariaDB);
          prior = (name \<in> set (oi_PriorDivergedInstances input));
          gtid = string_at (oi_GTIDByInstance input) name
      in if name = oi_PrimaryName input then False
         else if mariadb \<and> refusedByPrimary (map_of (oi_StatusByInstance input) name) (oi_PrimaryName input) then True
         else if gtid = [] then prior
         else (case gm_Contains gtidModel primaryGTID gtid of
                 Inl e \<Rightarrow> prior
               | Inr contains \<Rightarrow>
                   if \<not> contains then True
                   else if mariadb \<and> length (oi_MariaDBTimeline input) > 0
                   then (let j = Judge (oi_MariaDBTimeline input) gtid;
                             proven = (case j of Inr (on, known) \<Rightarrow> known \<and> on | Inl e \<Rightarrow> False)
                         in (case j of Inr (on, known) \<Rightarrow> known \<and> \<not> on | Inl e \<Rightarrow> False) \<or> (prior \<and> \<not> proven))
                   else False))"

definition detectDivergedReplicas :: "ObservationInput \<Rightarrow> string list" where
  "detectDivergedReplicas input =
     (case ForFlavor (oi_EngineFlavor input) of
        Inl e \<Rightarrow> stillPresent (oi_PriorDivergedInstances input) (oi_InstanceNames input)
      | Inr eng \<Rightarrow>
          (let primaryGTID = string_at (oi_GTIDByInstance input) (oi_PrimaryName input) in
           if primaryGTID = []
           then holdingDisowned input
                  (offTimeline input (stillPresent (oi_PriorDivergedInstances input) (oi_InstanceNames input)))
           else holdingDisowned input
                  (filter (is_diverged (eng_GTID eng) input primaryGTID) (oi_InstanceNames input))))"

section \<open>Stopped replication\<close>

definition replicationBroken :: "InstanceStatus \<Rightarrow> bool" where
  "replicationBroken status =
     (case is_Replication status of
        None \<Rightarrow> False
      | Some r \<Rightarrow> rs_LastError r \<noteq> [] \<and> (\<not> rs_SQLRunning r \<or> \<not> rs_IORunning r))"

definition detectReplicationBroken :: "ObservationInput \<Rightarrow> string list \<Rightarrow> string list" where
  "detectReplicationBroken input divergedInstances =
     filter (\<lambda>name. \<not> (name = oi_PrimaryName input \<or> name \<in> set divergedInstances) \<and>
               (case map_of (oi_StatusByInstance input) name of
                  None \<Rightarrow> False | Some status \<Rightarrow> replicationBroken status)) (oi_InstanceNames input)"

definition async_Observe :: "ObservationInput \<Rightarrow> Observation" where
  "async_Observe input =
     (let diverged = detectDivergedReplicas input in
      \<lparr>ob_PrimaryName = [], ob_PrimaryAuthoritative = False, ob_DivergedInstances = diverged,
       ob_ReplicationBrokenInstances = detectReplicationBroken input diverged, ob_GroupReplication = None\<rparr>)"

section \<open>What the guards find\<close>

lemma disownedSet_Some:
  "disownedSet flavor raw = Some s \<Longrightarrow> flavor \<noteq> FlavorMariaDB \<and> wf_set s \<and> gtids s \<noteq> {}"
  by (auto simp: disownedSet_def ParseGTIDSet_wf IsEmpty_iff split: if_splits sum.splits)

lemma holdsDisowned_iff:
  assumes "wf_set d"
  shows "holdsDisowned d sets \<longleftrightarrow> (\<exists>raw \<in> set sets. \<exists>s. ParseGTIDSet raw = Inr s \<and> gtids s \<inter> gtids d \<noteq> {})"
proof (induction sets)
  case (Cons raw sets)
  show ?case
  proof (cases "ParseGTIDSet raw")
    case (Inl e)
    then show ?thesis using Cons by auto
  next
    case (Inr s)
    then have "wf_set s" by (rule ParseGTIDSet_wf)
    then have "IsEmpty (Intersect s d) \<longleftrightarrow> gtids s \<inter> gtids d = {}"
      using Intersect_correct [OF _ assms] by (simp add: IsEmpty_iff)
    with Inr Cons show ?thesis by auto
  qed
qed simp

lemma set_disowned_loop:
  "set (disowned_loop d input names diverged) =
   set diverged \<union> {n \<in> set names. n \<noteq> oi_PrimaryName input \<and> holdsDisowned d [string_at (oi_GTIDByInstance input) n]}"
  by (induction names arbitrary: diverged) (auto simp del: holdsDisowned.simps)

lemma set_holdingDisowned:
  "set (holdingDisowned input diverged) =
   set diverged \<union>
   {n \<in> set (oi_InstanceNames input). n \<noteq> oi_PrimaryName input \<and>
      (\<exists>d. disownedSet (oi_EngineFlavor input) (oi_DisownedGTIDs input) = Some d \<and>
        holdsDisowned d [string_at (oi_GTIDByInstance input) n])}"
  by (auto simp: holdingDisowned_def set_disowned_loop split: option.splits simp del: holdsDisowned.simps)

definition judged_off :: "ObservationInput \<Rightarrow> string \<Rightarrow> bool" where
  "judged_off input name \<longleftrightarrow> string_at (oi_GTIDByInstance input) name \<noteq> [] \<and>
     Judge (oi_MariaDBTimeline input) (string_at (oi_GTIDByInstance input) name) = Inr (False, True)"

lemma off_timeline_step:
  "off_timeline_loop input (name # names) diverged =
   off_timeline_loop input names
     (if name = oi_PrimaryName input \<or> name \<in> set diverged \<or> \<not> judged_off input name then diverged
      else diverged @ [name])"
proof -
  let ?j = "Judge (oi_MariaDBTimeline input) (string_at (oi_GTIDByInstance input) name)"
  have "(case ?j of Inr (on, known) \<Rightarrow> if known \<and> \<not> on then diverged @ [name] else diverged | Inl e \<Rightarrow> diverged) =
      (if ?j = Inr (False, True) then diverged @ [name] else diverged)"
    by (simp split: sum.split prod.split)
  then show ?thesis by (simp add: judged_off_def Let_def)
qed

lemma set_off_timeline_loop:
  "set (off_timeline_loop input names diverged) =
   set diverged \<union> {n \<in> set names. n \<noteq> oi_PrimaryName input \<and> judged_off input n}"
proof (induction names arbitrary: diverged)
  case (Cons n names)
  show ?case unfolding off_timeline_step Cons.IH by auto
qed simp

lemma set_offTimeline:
  "set (offTimeline input diverged) =
   set diverged \<union> {n \<in> set (oi_InstanceNames input). n \<noteq> oi_PrimaryName input \<and>
     oi_EngineFlavor input = FlavorMariaDB \<and> oi_MariaDBTimeline input \<noteq> [] \<and> judged_off input n}"
  by (auto simp: offTimeline_def set_off_timeline_loop)

text \<open>Every instance the observation flags, in one formula.\<close>

lemma set_detectDiverged:
  assumes "ForFlavor (oi_EngineFlavor input) = Inr eng"
  shows "n \<in> set (detectDivergedReplicas input) \<longleftrightarrow>
    n \<in> set (oi_InstanceNames input) \<and>
    (if string_at (oi_GTIDByInstance input) (oi_PrimaryName input) = []
     then n \<in> set (oi_PriorDivergedInstances input) \<or>
       n \<noteq> oi_PrimaryName input \<and> oi_EngineFlavor input = FlavorMariaDB \<and> oi_MariaDBTimeline input \<noteq> [] \<and>
       judged_off input n
     else is_diverged (eng_GTID eng) input (string_at (oi_GTIDByInstance input) (oi_PrimaryName input)) n) \<or>
    n \<in> set (oi_InstanceNames input) \<and> n \<noteq> oi_PrimaryName input \<and>
      (\<exists>d. disownedSet (oi_EngineFlavor input) (oi_DisownedGTIDs input) = Some d \<and>
        holdsDisowned d [string_at (oi_GTIDByInstance input) n])"
  using assms
  by (auto simp: detectDivergedReplicas_def Let_def set_holdingDisowned set_offTimeline stillPresent_def
      simp del: holdsDisowned.simps)

lemma not_is_diverged:
  assumes "\<not> is_diverged M input pg n" "n \<noteq> oi_PrimaryName input" "n \<in> set (oi_PriorDivergedInstances input)"
  shows "string_at (oi_GTIDByInstance input) n \<noteq> []"
    "gm_Contains M pg (string_at (oi_GTIDByInstance input) n) = Inr True"
    "oi_EngineFlavor input = FlavorMariaDB \<Longrightarrow> oi_MariaDBTimeline input \<noteq> [] \<Longrightarrow>
     Judge (oi_MariaDBTimeline input) (string_at (oi_GTIDByInstance input) n) = Inr (True, True)"
proof -
  let ?g = "string_at (oi_GTIDByInstance input) n"
  show g: "?g \<noteq> []" using assms by (auto simp: is_diverged_def Let_def split: if_splits)
  show c: "gm_Contains M pg ?g = Inr True"
    using assms g by (cases "gm_Contains M pg ?g") (auto simp: is_diverged_def Let_def split: if_splits)
  assume "oi_EngineFlavor input = FlavorMariaDB" "oi_MariaDBTimeline input \<noteq> []"
  then show "Judge (oi_MariaDBTimeline input) ?g = Inr (True, True)"
    using assms g c by (cases "Judge (oi_MariaDBTimeline input) ?g")
      (auto simp: is_diverged_def Let_def split: if_splits)
qed

section \<open>Properties\<close>

text \<open>
  C30. Divergence is sticky: an instance that was flagged, is still present and is not the primary
  loses the flag only when the flavor is known, both positions are readable, the primary's contains
  the instance's, and, on MariaDB with a timeline, the timeline proves the position to be on it.
\<close>

theorem divergence_sticky:
  assumes "n \<in> set (oi_PriorDivergedInstances input)" "n \<in> set (oi_InstanceNames input)"
    "n \<noteq> oi_PrimaryName input" "n \<notin> set (detectDivergedReplicas input)"
  shows "\<exists>eng. ForFlavor (oi_EngineFlavor input) = Inr eng \<and>
    string_at (oi_GTIDByInstance input) (oi_PrimaryName input) \<noteq> [] \<and>
    string_at (oi_GTIDByInstance input) n \<noteq> [] \<and>
    gm_Contains (eng_GTID eng) (string_at (oi_GTIDByInstance input) (oi_PrimaryName input))
      (string_at (oi_GTIDByInstance input) n) = Inr True \<and>
    (oi_EngineFlavor input = FlavorMariaDB \<and> oi_MariaDBTimeline input \<noteq> [] \<longrightarrow>
       Judge (oi_MariaDBTimeline input) (string_at (oi_GTIDByInstance input) n) = Inr (True, True))"
proof -
  obtain eng where e: "ForFlavor (oi_EngineFlavor input) = Inr eng"
    using assms by (cases "ForFlavor (oi_EngineFlavor input)") (auto simp: detectDivergedReplicas_def stillPresent_def)
  let ?pg = "string_at (oi_GTIDByInstance input) (oi_PrimaryName input)"
  have "?pg \<noteq> []" "\<not> is_diverged (eng_GTID eng) input ?pg n"
    using assms set_detectDiverged [OF e, of n] by (auto split: if_splits)
  with e not_is_diverged [OF this(2) assms(3,1)] show ?thesis by blast
qed

definition wit_input :: ObservationInput where
  "wit_input = \<lparr>oi_PrimaryName = ''db-2'', oi_InstanceNames = [''db-1'', ''db-2'', ''db-3''],
     oi_StatusByInstance = [], oi_GTIDByInstance = [(''db-1'', ''0-1-7''), (''db-2'', ''0-2-20''), (''db-3'', ''0-2-15'')],
     oi_ConfiguredMembers = 0, oi_ObservedViewMax = 0, oi_EngineFlavor = FlavorMariaDB, oi_PriorDivergedInstances = [''db-1'', ''db-3''],
     oi_MariaDBTimeline = [\<lparr>ServerID = 1, Handoff = []\<rparr>, \<lparr>ServerID = 2, Handoff = ''0-1-5''\<rparr>],
     oi_DisownedGTIDs = []\<rparr>"

theorem divergence_sticky_witness:
  "detectDivergedReplicas wit_input = [''db-1''] \<and>
   Judge (oi_MariaDBTimeline wit_input) (string_at (oi_GTIDByInstance wit_input) ''db-3'') = Inr (True, True)"
proof -
  have d: "detectDivergedReplicas wit_input = [''db-1'']" by code_simp
  have h: "''db-3'' \<in> set (oi_PriorDivergedInstances wit_input)" "''db-3'' \<in> set (oi_InstanceNames wit_input)"
    "''db-3'' \<noteq> oi_PrimaryName wit_input" "''db-3'' \<notin> set (detectDivergedReplicas wit_input)"
    unfolding d by (simp_all add: wit_input_def)
  have f: "oi_EngineFlavor wit_input = FlavorMariaDB" "oi_MariaDBTimeline wit_input \<noteq> []"
    by (simp_all add: wit_input_def)
  from divergence_sticky [OF h] d f show ?thesis by blast
qed

text \<open>
  C32. On MySQL a present instance other than the primary whose readable set holds a transaction the
  primary lacks is flagged, and so is one that holds a transaction the archive disowned, whether or
  not the primary's position is known.
\<close>

theorem errant_and_disowned_flagged:
  assumes "oi_EngineFlavor input = FlavorMySQL" "n \<in> set (oi_InstanceNames input)" "n \<noteq> oi_PrimaryName input"
    "ParseGTIDSet (string_at (oi_GTIDByInstance input) n) = Inr s"
    "(\<exists>P. string_at (oi_GTIDByInstance input) (oi_PrimaryName input) \<noteq> [] \<and>
        ParseGTIDSet (string_at (oi_GTIDByInstance input) (oi_PrimaryName input)) = Inr P \<and> \<not> gtids s \<subseteq> gtids P) \<or>
     (\<exists>D. oi_DisownedGTIDs input \<noteq> [] \<and> ParseGTIDSet (oi_DisownedGTIDs input) = Inr D \<and> gtids s \<inter> gtids D \<noteq> {})"
  shows "n \<in> set (detectDivergedReplicas input)"
proof -
  have e: "ForFlavor (oi_EngineFlavor input) = Inr mysqlEngine" using assms(1) by (simp add: ForFlavor_def)
  have m: "FlavorMySQL \<noteq> FlavorMariaDB" by (simp add: FlavorMySQL_def FlavorMariaDB_def)
  from assms(5) show ?thesis
  proof
    assume "\<exists>P. string_at (oi_GTIDByInstance input) (oi_PrimaryName input) \<noteq> [] \<and>
        ParseGTIDSet (string_at (oi_GTIDByInstance input) (oi_PrimaryName input)) = Inr P \<and> \<not> gtids s \<subseteq> gtids P"
    then obtain P where P: "string_at (oi_GTIDByInstance input) (oi_PrimaryName input) \<noteq> []"
      "ParseGTIDSet (string_at (oi_GTIDByInstance input) (oi_PrimaryName input)) = Inr P" "\<not> gtids s \<subseteq> gtids P"
      by blast
    have "gm_Contains mysqlGTID (string_at (oi_GTIDByInstance input) (oi_PrimaryName input))
        (string_at (oi_GTIDByInstance input) n) = Inr False"
      using P(2,3) assms(4) mysql.Contains_Inr by (simp add: mysql_reach_def)
    moreover have "string_at (oi_GTIDByInstance input) n \<noteq> []"
      using P(3) assms(4) by (auto simp: ParseGTIDSet_def strip_spaces_def)
    ultimately have "is_diverged (eng_GTID mysqlEngine) input (string_at (oi_GTIDByInstance input) (oi_PrimaryName input)) n"
      using assms(1,3) m by (simp add: is_diverged_def mysqlEngine_def Let_def)
    then show ?thesis using set_detectDiverged [OF e] assms(2) P(1) by simp
  next
    assume "\<exists>D. oi_DisownedGTIDs input \<noteq> [] \<and> ParseGTIDSet (oi_DisownedGTIDs input) = Inr D \<and> gtids s \<inter> gtids D \<noteq> {}"
    then obtain D where D: "oi_DisownedGTIDs input \<noteq> []" "ParseGTIDSet (oi_DisownedGTIDs input) = Inr D"
      "gtids s \<inter> gtids D \<noteq> {}" by blast
    have w: "wf_set D" using D(2) by (rule ParseGTIDSet_wf)
    then have "disownedSet (oi_EngineFlavor input) (oi_DisownedGTIDs input) = Some D"
      using D assms(1) m by (auto simp: disownedSet_def IsEmpty_iff)
    moreover have "holdsDisowned D [string_at (oi_GTIDByInstance input) n]"
      unfolding holdsDisowned_iff [OF w] using D(3) assms(4) by simp
    ultimately show ?thesis using set_detectDiverged [OF e] assms(2,3) by blast
  qed
qed

theorem errant_and_disowned_flagged_witness:
  "''b'' \<in> set (detectDivergedReplicas \<lparr>oi_PrimaryName = ''a'', oi_InstanceNames = [''a'', ''b''],
     oi_StatusByInstance = [], oi_GTIDByInstance = [(''b'', ''u:1-9'')], oi_ConfiguredMembers = 0, oi_ObservedViewMax = 0,
     oi_EngineFlavor = FlavorMySQL, oi_PriorDivergedInstances = [], oi_MariaDBTimeline = [], oi_DisownedGTIDs = ''u:8-12''\<rparr>)"
proof -
  have p: "ParseGTIDSet ''u:1-9'' = Inr [(''u'', [mk_iv 1 9])]" "ParseGTIDSet ''u:8-12'' = Inr [(''u'', [mk_iv 8 12])]"
    by code_simp+
  have "(''u'', 8) \<in> gtids [(''u'', [mk_iv 1 9])] \<inter> gtids [(''u'', [mk_iv 8 12])]"
    by (simp add: gtids_def slice_at_def iv_set_def)
  then have i: "gtids [(''u'', [mk_iv 1 9])] \<inter> gtids [(''u'', [mk_iv 8 12])] \<noteq> {}" by blast
  show ?thesis
    by (rule errant_and_disowned_flagged [where s = "[(''u'', [mk_iv 1 9])]"]) (use p i in \<open>simp_all add: string_at_def\<close>)
qed

text \<open>
  C34. On MariaDB a present instance other than the primary that the timeline judges to be off it is
  flagged as soon as the primary's position is empty or readable.
\<close>

theorem off_timeline_flagged:
  assumes "oi_EngineFlavor input = FlavorMariaDB" "n \<in> set (oi_InstanceNames input)" "n \<noteq> oi_PrimaryName input"
    "oi_MariaDBTimeline input \<noteq> []" "string_at (oi_GTIDByInstance input) n \<noteq> []"
    "Judge (oi_MariaDBTimeline input) (string_at (oi_GTIDByInstance input) n) = Inr (False, True)"
    "parseMariaPos (string_at (oi_GTIDByInstance input) (oi_PrimaryName input)) = Inr P"
  shows "n \<in> set (detectDivergedReplicas input)"
proof -
  have e: "ForFlavor (oi_EngineFlavor input) = Inr mariadbEngine"
    using assms(1) by (simp add: ForFlavor_def FlavorMySQL_def FlavorMariaDB_def)
  obtain q where "parseMariaPos (string_at (oi_GTIDByInstance input) n) = Inr q"
    using assms(6) by (auto simp: Judge_def ParseMariaDBPosition_def go_simps)
  then have "\<exists>b. gm_Contains mariadbGTID (string_at (oi_GTIDByInstance input) (oi_PrimaryName input))
      (string_at (oi_GTIDByInstance input) n) = Inr b"
    using assms(7) by (simp add: mariadbGTID_def maria_Contains_def)
  then have "is_diverged (eng_GTID mariadbEngine) input (string_at (oi_GTIDByInstance input) (oi_PrimaryName input)) n"
    using assms by (auto simp: is_diverged_def mariadbEngine_def Let_def)
  then show ?thesis using set_detectDiverged [OF e, of n] assms by (simp add: judged_off_def)
qed

theorem off_timeline_flagged_witness:
  "''db-1'' \<in> set (detectDivergedReplicas wit_input)"
proof -
  have j: "Judge (oi_MariaDBTimeline wit_input) (string_at (oi_GTIDByInstance wit_input) ''db-1'') = Inr (False, True)"
    "parseMariaPos (string_at (oi_GTIDByInstance wit_input) (oi_PrimaryName wit_input)) =
       Inr [(0, \<lparr>me_server = 2, me_seq = 20\<rparr>)]" by code_simp+
  show ?thesis
    by (rule off_timeline_flagged [OF _ _ _ _ _ j]) (simp_all add: wit_input_def string_at_def)
qed

end
