(* ===== verification/Async_Election.thy ===== *)
theory Async_Election
  imports Async_Observation "HOL-Library.Product_Lexorder"
begin

text \<open>
  The election of a new primary among asynchronous replicas
  (\<open>SelectFailoverCandidate\<close> of \<open>internal/controller/async/cluster_failover.go\<close> and the functions it
  calls): the pool of candidates, how many transactions and how many seconds of writes each would
  lose, the two bounds, the preference and the dominance check.

  The abstract election is \<open>elects\<close>, a predicate on the sets of transactions the replicas executed
  and hold. The lemmas, proved once over the GTID interface in the locale \<open>gtid_laws\<close>, show that
  the code elects exactly such a replica, the best ranked one, and elects none only when there is
  none or a position cannot be read.
\<close>

section \<open>Input and outcome\<close>

record FailoverCandidate =
  cand_Name :: string
  cand_TransactionsBehind :: int
  cand_TimeBehind :: "int option"
  cand_Reason :: string

record Election =
  el_Observed :: FailoverState
  el_KnownDiverged :: "string list"
  el_GTID :: gtid_model
  el_MaxTransactionsBehind :: "int option"
  el_ArchiveCovered :: string
  el_Preferred :: "string list"
  el_ReferenceGTID :: string
  el_MaxReplicationLag :: "int option"
  el_PrimaryDownFor :: int
  el_Disowned :: "GTIDSet option"

text \<open>A refusal: the zero value of \<open>FailoverCandidate\<close> with a reason.\<close>

definition refused :: "string \<Rightarrow> FailoverCandidate" where
  "refused reason = \<lparr>cand_Name = [], cand_TransactionsBehind = 0, cand_TimeBehind = None, cand_Reason = reason\<rparr>"

section \<open>Transactions and writes a candidate would lose\<close>

definition count_at :: "(string, int) gomap \<Rightarrow> string \<Rightarrow> int" where
  "count_at m k = (case map_of m k of None \<Rightarrow> 0 | Some v \<Rightarrow> v)"

fun held_loop :: "gtid_model \<Rightarrow> FailoverState \<Rightarrow> string list \<Rightarrow> (string, string) gomap res" where
  "held_loop M observed [] = Inr []"
| "held_loop M observed (name # names) =
     (let status = instance_at observed name in
      case gm_Union M [fi_GTID status, fi_RetrievedGTID status] of
        Inl err \<Rightarrow> Inl (Wrapf ''merging gtid sets of %s: %w'' [name] err)
      | Inr merged \<Rightarrow> bind_res (held_loop M observed names) (\<lambda>held. Inr ((name, merged) # held)))"

fun behind_loop :: "gtid_model \<Rightarrow> string \<Rightarrow> (string, string) gomap \<Rightarrow> (string, int) gomap res" where
  "behind_loop M reference [] = Inr []"
| "behind_loop M reference ((name, held) # rest) =
     (case gm_MissingCount M held reference of
        Inl err \<Rightarrow> Inl (Wrapf ''measuring lag of %s: %w'' [name] err)
      | Inr missing \<Rightarrow> bind_res (behind_loop M reference rest) (\<lambda>behind. Inr ((name, missing) # behind)))"

definition transactionsBehind ::
  "FailoverState \<Rightarrow> string list \<Rightarrow> gtid_model \<Rightarrow> string \<Rightarrow> (string, int) gomap res" where
  "transactionsBehind observed candidates M referenceGTID =
     bind_res (held_loop M observed candidates) (\<lambda>held.
       case gm_Union M (referenceGTID # map snd held) of
         Inl err \<Rightarrow> Inl (Wrapf ''merging candidate gtid sets: %w'' [] err)
       | Inr reference \<Rightarrow> behind_loop M reference held)"

definition withinBound :: "string list \<Rightarrow> (string, int) gomap \<Rightarrow> int option \<Rightarrow> string list" where
  "withinBound candidates behind maxBehind =
     (case maxBehind of
        None \<Rightarrow> candidates
      | Some bound \<Rightarrow> filter (\<lambda>name. count_at behind name \<le> bound) candidates)"

definition writesBehind ::
  "FailoverState \<Rightarrow> string list \<Rightarrow> (string, int) gomap \<Rightarrow> int \<Rightarrow> (string, int option) gomap" where
  "writesBehind observed candidates behind primaryDownFor =
     map (\<lambda>name.
       (name, if count_at behind name = 0 then Some 0
              else case fi_HeartbeatAge (instance_at observed name) of
                     None \<Rightarrow> None
                   | Some age \<Rightarrow> Some (max (i64 (age - primaryDownFor)) 0))) candidates"

definition time_at :: "(string, int option) gomap \<Rightarrow> string \<Rightarrow> int option" where
  "time_at m k = (case map_of m k of None \<Rightarrow> None | Some v \<Rightarrow> v)"

definition withinLagBound :: "string list \<Rightarrow> (string, int option) gomap \<Rightarrow> int option \<Rightarrow> string list" where
  "withinLagBound candidates timeBehind maxLag =
     (case maxLag of
        None \<Rightarrow> candidates
      | Some bound \<Rightarrow>
          filter (\<lambda>name. case time_at timeBehind name of None \<Rightarrow> False | Some lost \<Rightarrow> lost \<le> bound) candidates)"

fun lag_closest :: "(string, int option) gomap \<Rightarrow> string list \<Rightarrow> string \<Rightarrow> string" where
  "lag_closest timeBehind [] closest = closest"
| "lag_closest timeBehind (name # names) closest =
     (case time_at timeBehind name of
        None \<Rightarrow> lag_closest timeBehind names closest
      | Some lost \<Rightarrow>
          lag_closest timeBehind names
            (if closest = [] \<or> (case time_at timeBehind closest of None \<Rightarrow> False | Some best \<Rightarrow> lost < best)
             then name else closest))"

definition lagBlockReason :: "string list \<Rightarrow> (string, int option) gomap \<Rightarrow> int \<Rightarrow> string" where
  "lagBlockReason candidates timeBehind maxLag =
     (let closest = lag_closest timeBehind candidates [] in
      if closest = []
      then Sprintf (''maxReplicationLag (%s) is set but no replica reported a replication-lag heartbeat, '' @
             ''so none can be shown to be within it; check that spec.replication.heartbeat is enabled'')
             [Duration_String maxLag]
      else Sprintf (''the closest replica (%s) is %s of writes behind the failed primary, more than maxReplicationLag (%s); '' @
             ''promoting it would lose those writes'')
             [closest,
              (case time_at timeBehind closest of
                 None \<Rightarrow> [] | Some lost \<Rightarrow> Duration_String (Round lost Second)),
              Duration_String maxLag])"

text \<open>
  \<open>slices.MinFunc\<close>: the first least element. The comparison is the difference of the two counts as an
  \<open>int\<close>.
\<close>

fun closest_loop :: "(string, int) gomap \<Rightarrow> string list \<Rightarrow> string \<Rightarrow> string" where
  "closest_loop behind [] m = m"
| "closest_loop behind (name # names) m =
     closest_loop behind names (if i64 (count_at behind name - count_at behind m) < 0 then name else m)"

section \<open>The order of the candidates\<close>

text \<open>\<open>slices.Index\<close>, with the length of the list when the name is not listed.\<close>

definition preference_rank :: "string list \<Rightarrow> string \<Rightarrow> nat" where
  "preference_rank preferred name = length (takeWhile (\<lambda>n. n \<noteq> name) preferred)"

definition orderByPreference :: "string list \<Rightarrow> string list \<Rightarrow> string list" where
  "orderByPreference candidates preferred =
     (if length preferred = 0 then candidates else sort_key (preference_rank preferred) candidates)"

fun reaches_past :: "GTIDSet \<Rightarrow> GTIDSet \<Rightarrow> bool" where
  "reaches_past archive [] = False"
| "reaches_past archive ((uuid, intervals) # rest) =
     (case slice_at archive uuid of
        [] \<Rightarrow> reaches_past archive rest
      | iv0 # _ \<Rightarrow>
          if list_ex (\<lambda>iv. End iv \<ge> Start iv0) intervals then True else reaches_past archive rest)"

definition archiveCoversHistory :: "string \<Rightarrow> string \<Rightarrow> bool" where
  "archiveCoversHistory covered purged =
     (case ParseGTIDSet covered of
        Inl err \<Rightarrow> True
      | Inr archive \<Rightarrow>
          (case ParseGTIDSet purged of
             Inl err \<Rightarrow> True
           | Inr held \<Rightarrow> \<not> reaches_past archive (Difference held archive)))"

definition continuity :: "FailoverState \<Rightarrow> string \<Rightarrow> string \<Rightarrow> nat" where
  "continuity observed covered name =
     (if archiveCoversHistory covered (fi_GTIDPurged (instance_at observed name)) then 0 else 1)"

definition orderByArchiveContinuity ::
  "string list \<Rightarrow> string list \<Rightarrow> FailoverState \<Rightarrow> string \<Rightarrow> string list" where
  "orderByArchiveContinuity candidates preferred observed covered =
     (if covered = [] then candidates
      else sort_key (\<lambda>name. (preference_rank preferred name, continuity observed covered name)) candidates)"

section \<open>The election\<close>

fun candidates_loop :: "Election \<Rightarrow> string list \<Rightarrow> string list \<times> nat" where
  "candidates_loop e [] = ([], 0)"
| "candidates_loop e (name # names) =
     (let observed = el_Observed e; rest = candidates_loop e names in
      if name = fs_PrimaryName observed \<or> name \<in> set (fs_Fenced observed) then rest
      else if name \<in> set (el_KnownDiverged e) then (fst rest, Suc (snd rest))
      else case map_of (fs_Instances observed) name of
             None \<Rightarrow> rest
           | Some status \<Rightarrow>
               if \<not> fi_Replica status \<or> \<not> fi_SQLRunning status \<or> fi_GTID status = [] then rest
               else if (case el_Disowned e of
                          None \<Rightarrow> False
                        | Some disowned \<Rightarrow> holdsDisowned disowned [fi_GTID status, fi_RetrievedGTID status])
               then (fst rest, Suc (snd rest))
               else (name # fst rest, snd rest))"

fun dominates_loop :: "gtid_model \<Rightarrow> FailoverState \<Rightarrow> string \<Rightarrow> string list \<Rightarrow> bool res" where
  "dominates_loop M observed candidate [] = Inr True"
| "dominates_loop M observed candidate (other # others) =
     (if candidate = other then dominates_loop M observed candidate others
      else case gm_Contains M (fi_GTID (instance_at observed candidate)) (fi_GTID (instance_at observed other)) of
             Inl err \<Rightarrow> Inl err
           | Inr contains \<Rightarrow> if \<not> contains then Inr False else dominates_loop M observed candidate others)"

fun elect_loop :: "gtid_model \<Rightarrow> FailoverState \<Rightarrow> string list \<Rightarrow> string list \<Rightarrow> string option res" where
  "elect_loop M observed eligible [] = Inr None"
| "elect_loop M observed eligible (candidate # rest) =
     (case dominates_loop M observed candidate eligible of
        Inl err \<Rightarrow> Inl err
      | Inr dominatesAll \<Rightarrow> if dominatesAll then Inr (Some candidate) else elect_loop M observed eligible rest)"

definition SelectFailoverCandidate :: "Election \<Rightarrow> FailoverCandidate" where
  "SelectFailoverCandidate e =
     (let observed = el_Observed e; M = el_GTID e;
          (candidates, divergedSkipped) = candidates_loop e (fs_InstanceNames observed)
      in case candidates of
           [] \<Rightarrow>
             if divergedSkipped > 0
             then refused ''every replica candidate has diverged from the failed primary (errant transactions); manual recovery required''
             else refused ''no healthy replica candidate available''
         | first # others \<Rightarrow>
             (case transactionsBehind observed candidates M (el_ReferenceGTID e) of
                Inl err \<Rightarrow> refused (Error err)
              | Inr behind \<Rightarrow>
                  let eligible = withinBound candidates behind (el_MaxTransactionsBehind e) in
                  if eligible = []
                  then let closest = closest_loop behind others first in
                    (refused (Sprintf ''the closest replica (%s) is %d transactions behind the failed primary, more than maxTransactionsBehind (%d); promoting it would lose those transactions''
                       [closest, FormatInt (count_at behind closest),
                        (case el_MaxTransactionsBehind e of None \<Rightarrow> [] | Some bound \<Rightarrow> FormatInt bound)]))
                      \<lparr>cand_TransactionsBehind := count_at behind closest\<rparr>
                  else
                    let timeBehind = writesBehind observed eligible behind (el_PrimaryDownFor e);
                        withinLag = withinLagBound eligible timeBehind (el_MaxReplicationLag e)
                    in if withinLag = []
                       then refused (lagBlockReason eligible timeBehind
                              (case el_MaxReplicationLag e of None \<Rightarrow> 0 | Some l \<Rightarrow> l))
                       else
                         let ordered = orderByArchiveContinuity (orderByPreference withinLag (el_Preferred e))
                               (el_Preferred e) observed (el_ArchiveCovered e)
                         in (case elect_loop M observed ordered ordered of
                               Inl err \<Rightarrow> refused (Sprintf ''comparing gtid sets: %v'' [Error err])
                             | Inr None \<Rightarrow> refused ''candidate replicas have diverged GTID sets that cannot be proven safe''
                             | Inr (Some candidate) \<Rightarrow>
                                 \<lparr>cand_Name = candidate, cand_TransactionsBehind = count_at behind candidate,
                                  cand_TimeBehind = time_at timeBehind candidate, cand_Reason = []\<rparr>)))"

section \<open>What an election needs of the cluster\<close>

definition maxTransactionsBehind :: "Cluster \<Rightarrow> int option" where
  "maxTransactionsBehind c =
     (case cs_FailoverPolicy (cl_Spec c) of None \<Rightarrow> None | Some policy \<Rightarrow> fp_MaxTransactionsBehind policy)"

definition archiveCovered :: "Cluster \<Rightarrow> string" where
  "archiveCovered c =
     (case st_ContinuousArchiving (cl_Status c) of
        Some ca \<Rightarrow> if IsArchivingEnabled c then cst_CoveredGTIDSet ca else []
      | None \<Rightarrow> [])"

section \<open>The abstract election\<close>

definition is_candidate :: "Election \<Rightarrow> string \<Rightarrow> bool" where
  "is_candidate e name \<longleftrightarrow>
     name \<noteq> fs_PrimaryName (el_Observed e) \<and> name \<notin> set (fs_Fenced (el_Observed e)) \<and>
     name \<notin> set (el_KnownDiverged e) \<and>
     (\<exists>status. map_of (fs_Instances (el_Observed e)) name = Some status \<and>
        fi_Replica status \<and> fi_SQLRunning status \<and> fi_GTID status \<noteq> [] \<and>
        (\<forall>disowned. el_Disowned e = Some disowned \<longrightarrow>
           \<not> holdsDisowned disowned [fi_GTID status, fi_RetrievedGTID status]))"

definition pool :: "Election \<Rightarrow> string list" where
  "pool e = filter (is_candidate e) (fs_InstanceNames (el_Observed e))"

text \<open>
  \<open>X n\<close> and \<open>H n\<close> are what replica \<open>n\<close> executed and holds, \<open>R\<close> what the old primary was last known to
  hold. \<open>missing_of\<close> counts what \<open>n\<close> would lose of all that is known to have existed.
\<close>

definition missing_of :: "Election \<Rightarrow> ('k \<times> int) set \<Rightarrow> (string \<Rightarrow> ('k \<times> int) set) \<Rightarrow> string \<Rightarrow> int" where
  "missing_of e R H n = min MaxInt64 (int (card (counted (R \<union> (\<Union>m \<in> set (pool e). H m) - H n))))"

definition loss_of :: "Election \<Rightarrow> int \<Rightarrow> string \<Rightarrow> int option" where
  "loss_of e missing n =
     (if missing = 0 then Some 0
      else map_option (\<lambda>age. max (i64 (age - el_PrimaryDownFor e)) 0)
             (fi_HeartbeatAge (instance_at (el_Observed e) n)))"

definition admitted :: "Election \<Rightarrow> ('k \<times> int) set \<Rightarrow> (string \<Rightarrow> ('k \<times> int) set) \<Rightarrow> string \<Rightarrow> bool" where
  "admitted e R H n \<longleftrightarrow>
     (case el_MaxTransactionsBehind e of None \<Rightarrow> True | Some bound \<Rightarrow> missing_of e R H n \<le> bound) \<and>
     (case el_MaxReplicationLag e of
        None \<Rightarrow> True
      | Some bound \<Rightarrow>
          (case loss_of e (missing_of e R H n) n of None \<Rightarrow> False | Some lost \<Rightarrow> lost \<le> bound))"

definition elects ::
  "Election \<Rightarrow> ('k \<times> int) set \<Rightarrow> (string \<Rightarrow> ('k \<times> int) set) \<Rightarrow> (string \<Rightarrow> ('k \<times> int) set) \<Rightarrow> string \<Rightarrow> bool" where
  "elects e R X H n \<longleftrightarrow>
     n \<in> set (pool e) \<and> admitted e R H n \<and> (\<forall>m \<in> set (pool e). admitted e R H m \<longrightarrow> X m \<subseteq> X n)"

definition election_rank :: "Election \<Rightarrow> string \<Rightarrow> nat \<times> nat" where
  "election_rank e n =
     (preference_rank (el_Preferred e) n,
      if el_ArchiveCovered e = [] then 0 else continuity (el_Observed e) (el_ArchiveCovered e) n)"

section \<open>The pool and its order\<close>

lemma candidates_loop_pool: "fst (candidates_loop e names) = filter (is_candidate e) names"
  by (induction names) (auto simp: Let_def is_candidate_def split: option.splits)

lemma candidates_pool: "fst (candidates_loop e (fs_InstanceNames (el_Observed e))) = pool e"
  by (simp add: candidates_loop_pool pool_def)

lemma sort_key_refined:
  fixes f :: "'a \<Rightarrow> 'b :: linorder" and g :: "'a \<Rightarrow> 'c :: linorder"
  assumes "\<And>x y. f x = f y \<Longrightarrow> g x = g y"
  shows "sort_key f (sort_key g xs) = sort_key f xs"
proof (rule properties_for_sort_key [symmetric])
  fix k assume "k \<in> set (sort_key f (sort_key g xs))"
  have "filter (\<lambda>y. f k = f y) (filter (\<lambda>y. g y = g k) (sort_key g xs)) =
      filter (\<lambda>y. f k = f y) (filter (\<lambda>y. g y = g k) xs)"
    by (simp only: sort_key_stable)
  moreover have "filter (\<lambda>y. f k = f y) (filter (\<lambda>y. g y = g k) zs) = filter (\<lambda>y. f k = f y) zs" for zs
    by (auto intro!: filter_cong simp: filter_filter dest: assms)
  ultimately have "filter (\<lambda>y. f k = f y) (sort_key g xs) = filter (\<lambda>y. f k = f y) xs" by simp
  moreover have "filter (\<lambda>y. f k = f y) (sort_key f zs) = filter (\<lambda>y. f k = f y) zs" for zs
    using sort_key_stable [of f "f k" zs] by (simp add: eq_commute)
  ultimately show "filter (\<lambda>y. f k = f y) (sort_key f (sort_key g xs)) = filter (\<lambda>y. f k = f y) xs" by simp
qed simp_all

lemma ordered_by_rank:
  "orderByArchiveContinuity (orderByPreference xs (el_Preferred e)) (el_Preferred e) (el_Observed e)
     (el_ArchiveCovered e) = sort_key (election_rank e) xs"
proof (cases "el_ArchiveCovered e = []")
  case True
  have "sort_key (election_rank e) xs = sort_key (preference_rank (el_Preferred e)) xs"
  proof (rule properties_for_sort_key)
    fix k assume "k \<in> set (sort_key (preference_rank (el_Preferred e)) xs)"
    show "filter (\<lambda>y. election_rank e k = election_rank e y) (sort_key (preference_rank (el_Preferred e)) xs) =
        filter (\<lambda>y. election_rank e k = election_rank e y) xs"
      using sort_key_stable [of "preference_rank (el_Preferred e)" "preference_rank (el_Preferred e) k" xs] True
      by (simp add: election_rank_def eq_commute)
  next
    show "sorted (map (election_rank e) (sort_key (preference_rank (el_Preferred e)) xs))"
      using sorted_sort_key [of "preference_rank (el_Preferred e)" xs] True
      by (auto simp: election_rank_def sorted_map less_eq_prod_def elim: sorted_wrt_mono_rel [rotated])
  qed simp
  moreover have "sort_key (preference_rank []) xs = xs"
    by (rule properties_for_sort_key) (simp_all add: preference_rank_def sorted_map)
  ultimately show ?thesis
    using True by (simp add: orderByArchiveContinuity_def orderByPreference_def)
next
  case False
  have r: "election_rank e = (\<lambda>n. (preference_rank (el_Preferred e) n, continuity (el_Observed e) (el_ArchiveCovered e) n))"
    using False by (simp add: election_rank_def fun_eq_iff)
  have "sort_key (election_rank e) (sort_key (preference_rank (el_Preferred e)) xs) = sort_key (election_rank e) xs"
    by (rule sort_key_refined) (simp add: r)
  then show ?thesis
    using False by (auto simp: orderByArchiveContinuity_def orderByPreference_def r)
qed

lemma find_filter: "find P (filter Q xs) = find (\<lambda>x. Q x \<and> P x) xs"
  by (induction xs) auto

lemma find_split:
  "find P xs = Some x \<Longrightarrow> \<exists>as bs. xs = as @ x # bs \<and> P x \<and> (\<forall>y \<in> set as. \<not> P y)"
proof (induction xs)
  case (Cons a xs)
  show ?case
  proof (cases "P a")
    case True
    then have "a # xs = [] @ x # xs \<and> P x \<and> (\<forall>y \<in> set []. \<not> P y)" using Cons.prems by auto
    then show ?thesis by blast
  next
    case False
    then obtain as bs where "xs = as @ x # bs" "P x" "\<forall>y \<in> set as. \<not> P y" using Cons by auto
    then have "a # xs = (a # as) @ x # bs \<and> P x \<and> (\<forall>y \<in> set (a # as). \<not> P y)" using False by simp
    then show ?thesis by blast
  qed
qed simp

lemma find_sort_least:
  fixes f :: "'a \<Rightarrow> 'b :: linorder"
  assumes "find P (sort_key f xs) = Some x"
  shows "x \<in> set xs \<and> P x \<and> (\<forall>y \<in> set xs. P y \<longrightarrow> f x \<le> f y)"
proof -
  obtain as bs where s: "sort_key f xs = as @ x # bs" "P x" "\<forall>y \<in> set as. \<not> P y"
    using find_split [OF assms] by blast
  have srt: "sorted (map f (as @ x # bs))" using sorted_sort_key [of f xs] s(1) by simp
  have "set xs = set (as @ x # bs)" using s(1) by (metis set_sort)
  with s(2,3) srt show ?thesis by (auto simp: sorted_append)
qed

section \<open>The code implements the abstract election\<close>

lemma held_loop_fst: "held_loop M obs names = Inr hs \<Longrightarrow> map fst hs = names"
  by (induction names arbitrary: hs) (auto simp: Let_def go_simps split: sum.splits)

lemma held_loop_union:
  "held_loop M obs names = Inr hs \<Longrightarrow> n \<in> set names \<Longrightarrow>
   \<exists>v. gm_Union M [fi_GTID (instance_at obs n), fi_RetrievedGTID (instance_at obs n)] = Inr v"
proof (induction names arbitrary: hs)
  case (Cons m names)
  then obtain v where v: "gm_Union M [fi_GTID (instance_at obs m), fi_RetrievedGTID (instance_at obs m)] = Inr v"
    by (cases "gm_Union M [fi_GTID (instance_at obs m), fi_RetrievedGTID (instance_at obs m)]") auto
  then obtain rest where "held_loop M obs names = Inr rest" using Cons.prems by (auto simp: go_simps)
  then show ?case using Cons v by auto
qed simp

lemma map_of_pairs: "n \<in> set ns \<Longrightarrow> map_of (map (\<lambda>n. (n, f n)) ns) n = Some (f n)"
  by (induction ns) auto

lemma count_at_pairs: "n \<in> set ns \<Longrightarrow> count_at (map (\<lambda>n. (n, f n)) ns) n = f n"
  by (simp add: count_at_def map_of_pairs)

lemma time_at_writesBehind:
  "n \<in> set ns \<Longrightarrow> time_at (writesBehind (el_Observed e) ns behind (el_PrimaryDownFor e)) n = loss_of e (count_at behind n) n"
  by (simp add: time_at_def writesBehind_def map_of_pairs loss_of_def map_option_case)

context gtid_laws
begin

lemma held_loop_correct:
  assumes "\<And>n. n \<in> set names \<Longrightarrow> reach (fi_GTID (instance_at obs n)) = Inr (X n) \<and>
      reach (fi_RetrievedGTID (instance_at obs n)) = Inr (Y n)"
  shows "\<exists>f. held_loop M obs names = Inr (map (\<lambda>n. (n, f n)) names) \<and> (\<forall>n \<in> set names. reach (f n) = Inr (X n \<union> Y n))"
proof -
  have u: "\<exists>u. gm_Union M [fi_GTID (instance_at obs n), fi_RetrievedGTID (instance_at obs n)] = Inr u \<and> reach u = Inr (X n \<union> Y n)"
    if "n \<in> set names" for n
    using Union_law [of "[fi_GTID (instance_at obs n), fi_RetrievedGTID (instance_at obs n)]" "[X n, Y n]"] assms [OF that]
    by (simp add: Un_commute)
  then obtain f where f: "\<And>n. n \<in> set names \<Longrightarrow>
      gm_Union M [fi_GTID (instance_at obs n), fi_RetrievedGTID (instance_at obs n)] = Inr (f n) \<and> reach (f n) = Inr (X n \<union> Y n)"
    by metis
  have "held_loop M obs ns = Inr (map (\<lambda>n. (n, f n)) ns)" if "set ns \<subseteq> set names" for ns
    using that by (induction ns) (simp_all add: f bind_res_def)
  then show ?thesis using f by blast
qed

lemma behind_loop_correct:
  assumes "reach reference = Inr R" "\<And>n. n \<in> set names \<Longrightarrow> reach (f n) = Inr (H n)"
  shows "behind_loop M reference (map (\<lambda>n. (n, f n)) names) =
    Inr (map (\<lambda>n. (n, min MaxInt64 (int (card (counted (R - H n)))))) names)"
  using assms(2) by (induction names) (simp_all add: MissingCount_law assms(1) bind_res_def)

lemma transactionsBehind_correct:
  assumes "reach ref = Inr R" "\<And>n. n \<in> set (pool e) \<Longrightarrow> reach (fi_GTID (instance_at obs n)) = Inr (X n) \<and>
      reach (fi_RetrievedGTID (instance_at obs n)) = Inr (Y n)"
  shows "transactionsBehind obs (pool e) M ref = Inr (map (\<lambda>n. (n, missing_of e R (\<lambda>n. X n \<union> Y n) n)) (pool e))"
proof -
  obtain f where f: "held_loop M obs (pool e) = Inr (map (\<lambda>n. (n, f n)) (pool e))"
    "\<And>n. n \<in> set (pool e) \<Longrightarrow> reach (f n) = Inr (X n \<union> Y n)"
    using held_loop_correct [OF assms(2)] by blast
  have "list_all2 (\<lambda>raw A. reach raw = Inr A) (ref # map f (pool e)) (R # map (\<lambda>n. X n \<union> Y n) (pool e))"
    using assms(1) f(2) by (simp add: list_all2_map1 list_all2_map2 list_all2_same)
  from Union_law [OF this] obtain u where u: "gm_Union M (ref # map f (pool e)) = Inr u"
    "reach u = Inr (R \<union> (\<Union>m \<in> set (pool e). X m \<union> Y m))" by auto
  have "behind_loop M u (map (\<lambda>n. (n, f n)) (pool e)) =
      Inr (map (\<lambda>n. (n, missing_of e R (\<lambda>n. X n \<union> Y n) n)) (pool e))"
    using behind_loop_correct [of u _ "pool e" f "\<lambda>n. X n \<union> Y n", OF u(2) f(2)] by (simp add: missing_of_def)
  then show ?thesis using f(1) u(1) by (simp add: transactionsBehind_def bind_res_def comp_def)
qed

lemma transactionsBehind_readable:
  assumes "transactionsBehind obs names M ref = Inr b"
  shows "(\<exists>R. reach ref = Inr R) \<and> (\<forall>n \<in> set names. \<exists>X Y. reach (fi_GTID (instance_at obs n)) = Inr X \<and>
      reach (fi_RetrievedGTID (instance_at obs n)) = Inr Y)"
proof -
  obtain hs where h1: "held_loop M obs names = Inr hs"
    using assms by (auto simp: transactionsBehind_def go_simps)
  then obtain u where "gm_Union M (ref # map snd hs) = Inr u"
    using assms by (cases "gm_Union M (ref # map snd hs)") (auto simp: transactionsBehind_def bind_res_def)
  note h = h1 this
  have "\<exists>R. reach ref = Inr R"
    using h(2) Union_error [of ref "ref # map snd hs"] by (cases "reach ref") auto
  moreover have "\<exists>X Y. reach (fi_GTID (instance_at obs n)) = Inr X \<and> reach (fi_RetrievedGTID (instance_at obs n)) = Inr Y"
    if mem: "n \<in> set names" for n
  proof -
    obtain v where v: "gm_Union M [fi_GTID (instance_at obs n), fi_RetrievedGTID (instance_at obs n)] = Inr v"
      using held_loop_union [OF h(1) mem] by blast
    have "\<exists>X. reach raw = Inr X" if "raw \<in> {fi_GTID (instance_at obs n), fi_RetrievedGTID (instance_at obs n)}" for raw
      using v that Union_error [of raw "[fi_GTID (instance_at obs n), fi_RetrievedGTID (instance_at obs n)]"]
      by (cases "reach raw") auto
    then show ?thesis by blast
  qed
  ultimately show ?thesis by blast
qed

lemma dominates_loop_correct:
  assumes "\<And>n. n \<in> insert c (set others) \<Longrightarrow> reach (fi_GTID (instance_at obs n)) = Inr (X n)"
  shows "dominates_loop M obs c others = Inr (\<forall>o' \<in> set others. X o' \<subseteq> X c)"
  using assms by (induction others) (auto simp: Contains_law bind_res_def)

lemma elect_loop_correct:
  assumes "\<And>n. n \<in> set elig \<Longrightarrow> reach (fi_GTID (instance_at obs n)) = Inr (X n)" "set names \<subseteq> set elig"
  shows "elect_loop M obs elig names = Inr (find (\<lambda>c. \<forall>o' \<in> set elig. X o' \<subseteq> X c) names)"
  using assms(2)
proof (induction names)
  case (Cons c names)
  then have "dominates_loop M obs c elig = Inr (\<forall>o' \<in> set elig. X o' \<subseteq> X c)"
    using dominates_loop_correct [of c elig obs X] assms(1) by auto
  then show ?case using Cons by simp
qed simp

end

lemma admitted_list:
  assumes b: "\<And>n. n \<in> set (pool e) \<Longrightarrow> count_at b n = missing_of e R H n"
  shows "(let elig = withinBound (pool e) b (el_MaxTransactionsBehind e) in
     withinLagBound elig (writesBehind (el_Observed e) elig b (el_PrimaryDownFor e)) (el_MaxReplicationLag e)) =
     filter (admitted e R H) (pool e)"
proof -
  let ?elig = "withinBound (pool e) b (el_MaxTransactionsBehind e)"
  let ?P = "\<lambda>n. case el_MaxTransactionsBehind e of None \<Rightarrow> True | Some bound \<Rightarrow> missing_of e R H n \<le> bound"
  let ?Q = "\<lambda>n. case el_MaxReplicationLag e of None \<Rightarrow> True
    | Some bound \<Rightarrow> (case loss_of e (missing_of e R H n) n of None \<Rightarrow> False | Some lost \<Rightarrow> lost \<le> bound)"
  have elig: "?elig = filter ?P (pool e)"
    by (auto simp: withinBound_def b split: option.splits intro: filter_cong)
  have "withinLagBound ?elig (writesBehind (el_Observed e) ?elig b (el_PrimaryDownFor e)) (el_MaxReplicationLag e) =
      filter ?Q ?elig"
    unfolding withinLagBound_def
    by (cases "el_MaxReplicationLag e") (auto simp: time_at_writesBehind elig b intro!: filter_cong)
  also have "\<dots> = filter (admitted e R H) (pool e)"
    unfolding elig filter_filter admitted_def [abs_def] by (rule filter_cong) auto
  finally show ?thesis by (simp only: Let_def)
qed

lemma find_cong_set: "(\<And>x. x \<in> set xs \<Longrightarrow> P x = Q x) \<Longrightarrow> find P xs = find Q xs"
  by (induction xs) auto

lemma Select_of_pool:
  assumes "transactionsBehind (el_Observed e) (pool e) (el_GTID e) (el_ReferenceGTID e) = Inr b"
    "\<And>n. n \<in> set (pool e) \<Longrightarrow> count_at b n = missing_of e R H n"
    "elect_loop (el_GTID e) (el_Observed e) (sort_key (election_rank e) (filter (admitted e R H) (pool e)))
       (sort_key (election_rank e) (filter (admitted e R H) (pool e))) = Inr w"
  shows "cand_Name (SelectFailoverCandidate e) = (case w of None \<Rightarrow> [] | Some n \<Rightarrow> n) \<and>
    (\<forall>n \<in> set (pool e). w = Some n \<longrightarrow> admitted e R H n \<longrightarrow>
       SelectFailoverCandidate e = \<lparr>cand_Name = n, cand_TransactionsBehind = missing_of e R H n,
         cand_TimeBehind = loss_of e (missing_of e R H n) n, cand_Reason = []\<rparr>)"
proof -
  obtain k where loop: "candidates_loop e (fs_InstanceNames (el_Observed e)) = (pool e, k)"
    using candidates_pool [of e] by (cases "candidates_loop e (fs_InstanceNames (el_Observed e))") simp
  let ?elig = "withinBound (pool e) b (el_MaxTransactionsBehind e)"
  let ?time = "writesBehind (el_Observed e) ?elig b (el_PrimaryDownFor e)"
  let ?lag = "withinLagBound ?elig ?time (el_MaxReplicationLag e)"
  have lag: "?lag = filter (admitted e R H) (pool e)"
    using admitted_list [of e b R H, OF assms(2)] by (simp only: Let_def)
  have sub: "set ?lag \<subseteq> set ?elig" by (auto simp: withinLagBound_def split: option.splits)
  show ?thesis
  proof (cases "?lag = []")
    case True
    then have "w = None" using assms(3) lag by simp
    moreover have "cand_Name (SelectFailoverCandidate e) = []"
      using True assms(1) by (cases "pool e") (simp_all add: SelectFailoverCandidate_def loop Let_def refused_def)
    ultimately show ?thesis by simp
  next
    case False
    then have ne: "pool e \<noteq> []" "?elig \<noteq> []" using lag sub by auto
    then have sel: "SelectFailoverCandidate e = (case w of
         None \<Rightarrow> refused ''candidate replicas have diverged GTID sets that cannot be proven safe''
       | Some n \<Rightarrow> \<lparr>cand_Name = n, cand_TransactionsBehind = count_at b n, cand_TimeBehind = time_at ?time n, cand_Reason = []\<rparr>)"
      using False assms(1,3) lag
      by (cases "pool e"; cases w) (simp_all add: SelectFailoverCandidate_def loop Let_def ordered_by_rank del: filter.simps)
    have "time_at ?time n = loss_of e (missing_of e R H n) n" if "n \<in> set (pool e)" "admitted e R H n" for n
    proof -
      have "n \<in> set ?lag" using that lag by simp
      then have "n \<in> set ?elig" using sub by blast
      then show ?thesis using assms(2) [OF that(1)] by (simp add: time_at_writesBehind)
    qed
    with sel assms(2) show ?thesis by (cases w) (auto simp: refused_def)
  qed
qed

context gtid_laws
begin

lemma election_correct:
  assumes "el_GTID e = M" "reach (el_ReferenceGTID e) = Inr R"
    "\<And>n. n \<in> set (pool e) \<Longrightarrow> reach (fi_GTID (instance_at (el_Observed e) n)) = Inr (X n) \<and>
       reach (fi_RetrievedGTID (instance_at (el_Observed e) n)) = Inr (Y n)"
  shows "(case find (elects e R X (\<lambda>n. X n \<union> Y n)) (sort_key (election_rank e) (pool e)) of
     None \<Rightarrow> cand_Name (SelectFailoverCandidate e) = []
   | Some n \<Rightarrow> SelectFailoverCandidate e =
       \<lparr>cand_Name = n, cand_TransactionsBehind = missing_of e R (\<lambda>n. X n \<union> Y n) n,
        cand_TimeBehind = loss_of e (missing_of e R (\<lambda>n. X n \<union> Y n) n) n, cand_Reason = []\<rparr>)"
proof -
  let ?H = "\<lambda>n. X n \<union> Y n"
  let ?adm = "filter (admitted e R ?H) (pool e)"
  let ?w = "find (elects e R X ?H) (sort_key (election_rank e) (pool e))"
  have "elect_loop M (el_Observed e) (sort_key (election_rank e) ?adm) (sort_key (election_rank e) ?adm) =
      Inr (find (\<lambda>c. \<forall>o' \<in> set (sort_key (election_rank e) ?adm). X o' \<subseteq> X c) (sort_key (election_rank e) ?adm))"
    by (rule elect_loop_correct) (use assms(3) in auto)
  also have "sort_key (election_rank e) ?adm = filter (admitted e R ?H) (sort_key (election_rank e) (pool e))"
    by (rule filter_sort [symmetric])
  also have "find (\<lambda>c. \<forall>o' \<in> set (filter (admitted e R ?H) (sort_key (election_rank e) (pool e))). X o' \<subseteq> X c)
      (filter (admitted e R ?H) (sort_key (election_rank e) (pool e))) = ?w"
    unfolding find_filter by (rule find_cong_set) (auto simp: elects_def)
  finally have w: "elect_loop (el_GTID e) (el_Observed e) (sort_key (election_rank e) ?adm) (sort_key (election_rank e) ?adm) = Inr ?w"
    using assms(1) filter_sort [of "admitted e R ?H" "election_rank e" "pool e"] by simp
  have tb: "transactionsBehind (el_Observed e) (pool e) (el_GTID e) (el_ReferenceGTID e) =
      Inr (map (\<lambda>n. (n, missing_of e R ?H n)) (pool e))"
    using transactionsBehind_correct [OF assms(2,3)] assms(1) by simp
  note sel = Select_of_pool [OF tb count_at_pairs w]
  show ?thesis
  proof (cases ?w)
    case (Some n)
    then have "n \<in> set (pool e)" "admitted e R ?H n"
      using find_sort_least [OF Some] by (auto simp: elects_def)
    then show ?thesis using sel Some by simp
  qed (use sel in simp)
qed

lemma election_readable:
  assumes "el_GTID e = M" "cand_Name (SelectFailoverCandidate e) \<noteq> []"
  shows "(\<exists>R. reach (el_ReferenceGTID e) = Inr R) \<and>
    (\<forall>n \<in> set (pool e). \<exists>X Y. reach (fi_GTID (instance_at (el_Observed e) n)) = Inr X \<and>
       reach (fi_RetrievedGTID (instance_at (el_Observed e) n)) = Inr Y)"
proof -
  obtain k where loop: "candidates_loop e (fs_InstanceNames (el_Observed e)) = (pool e, k)"
    using candidates_pool [of e] by (cases "candidates_loop e (fs_InstanceNames (el_Observed e))") simp
  have "\<exists>b. transactionsBehind (el_Observed e) (pool e) M (el_ReferenceGTID e) = Inr b"
    using assms by (cases "transactionsBehind (el_Observed e) (pool e) M (el_ReferenceGTID e)")
      (cases "pool e"; simp add: SelectFailoverCandidate_def loop Let_def refused_def split: if_splits)+
  then show ?thesis using transactionsBehind_readable by blast
qed

lemma election_winner:
  assumes "el_GTID e = M" "reach (el_ReferenceGTID e) = Inr R"
    "\<And>n. n \<in> set (pool e) \<Longrightarrow> reach (fi_GTID (instance_at (el_Observed e) n)) = Inr (X n) \<and>
       reach (fi_RetrievedGTID (instance_at (el_Observed e) n)) = Inr (Y n)"
    "cand_Name (SelectFailoverCandidate e) = n" "n \<noteq> []"
  shows "elects e R X (\<lambda>m. X m \<union> Y m) n \<and>
    (\<forall>m. elects e R X (\<lambda>m. X m \<union> Y m) m \<longrightarrow> election_rank e n \<le> election_rank e m) \<and>
    cand_TransactionsBehind (SelectFailoverCandidate e) = missing_of e R (\<lambda>m. X m \<union> Y m) n"
proof -
  let ?find = "find (elects e R X (\<lambda>m. X m \<union> Y m)) (sort_key (election_rank e) (pool e))"
  note c = election_correct [of e R X Y, OF assms(1-3)]
  have f: "?find = Some n" using c assms(4,5) by (cases ?find) auto
  from find_sort_least [OF f] have "elects e R X (\<lambda>m. X m \<union> Y m) n \<and>
      (\<forall>m. elects e R X (\<lambda>m. X m \<union> Y m) m \<longrightarrow> election_rank e n \<le> election_rank e m)"
    by (auto simp: elects_def)
  then show ?thesis using c f by simp
qed

end

context gtid_laws
begin

lemma elected_fit:
  assumes "el_GTID e = M" "cand_Name (SelectFailoverCandidate e) = n" "n \<noteq> []"
  shows "n \<in> set (fs_InstanceNames (el_Observed e)) \<and> is_candidate e n \<and>
    (\<forall>bound. el_MaxTransactionsBehind e = Some bound \<longrightarrow> cand_TransactionsBehind (SelectFailoverCandidate e) \<le> bound) \<and>
    (\<forall>bound. el_MaxReplicationLag e = Some bound \<longrightarrow>
       (\<exists>lost. cand_TimeBehind (SelectFailoverCandidate e) = Some lost \<and> lost \<le> bound))"
proof -
  obtain R X Y where r: "reach (el_ReferenceGTID e) = Inr R"
    "\<And>m. m \<in> set (pool e) \<Longrightarrow> reach (fi_GTID (instance_at (el_Observed e) m)) = Inr (X m) \<and>
       reach (fi_RetrievedGTID (instance_at (el_Observed e) m)) = Inr (Y m)"
    using election_readable [OF assms(1)] assms(2,3) by metis
  let ?H = "\<lambda>m. X m \<union> Y m"
  have w: "elects e R X ?H n" using election_winner [OF assms(1) r assms(2,3)] by blast
  have s: "SelectFailoverCandidate e = \<lparr>cand_Name = n, cand_TransactionsBehind = missing_of e R ?H n,
      cand_TimeBehind = loss_of e (missing_of e R ?H n) n, cand_Reason = []\<rparr>"
    using election_correct [OF assms(1) r] assms(2,3)
    by (cases "find (elects e R X ?H) (sort_key (election_rank e) (pool e))") auto
  have "n \<in> set (fs_InstanceNames (el_Observed e)) \<and> is_candidate e n" using w by (simp add: elects_def pool_def)
  moreover have "admitted e R ?H n" using w by (simp add: elects_def)
  ultimately show ?thesis unfolding s by (auto simp: admitted_def split: option.splits)
qed

end

section \<open>Properties\<close>

lemma pool_mysql_reach:
  assumes "\<forall>n \<in> set (pool e). ParseGTIDSet (fi_GTID (instance_at (el_Observed e) n)) = Inr (X n) \<and>
       ParseGTIDSet (fi_RetrievedGTID (instance_at (el_Observed e) n)) = Inr (Y n)" "n \<in> set (pool e)"
  shows "mysql_reach (fi_GTID (instance_at (el_Observed e) n)) = Inr (gtids (X n)) \<and>
       mysql_reach (fi_RetrievedGTID (instance_at (el_Observed e) n)) = Inr (gtids (Y n))"
  using assms by (auto simp: mysql_reach_Inr)


definition wit_replica :: "string \<Rightarrow> string \<Rightarrow> FailoverInstance" where
  "wit_replica gtid retrieved = zero_instance\<lparr>fi_Ready := True, fi_Replica := True, fi_SQLRunning := True,
     fi_GTID := gtid, fi_RetrievedGTID := retrieved\<rparr>"

definition wit_election :: Election where
  "wit_election = \<lparr>el_Observed =
     \<lparr>fs_PrimaryName = ''db-1'', fs_InstanceNames = [''db-1'', ''db-2'', ''db-3''],
      fs_Instances = [(''db-2'', wit_replica ''u:1-10'' []), (''db-3'', wit_replica ''u:1-9'' ''u:10-20'')],
      fs_Fenced = [], fs_Diverged = [], fs_Terminating = []\<rparr>,
     el_KnownDiverged = [], el_GTID = mysqlGTID, el_MaxTransactionsBehind = None, el_ArchiveCovered = [],
     el_Preferred = [], el_ReferenceGTID = ''u:1-20'', el_MaxReplicationLag = None, el_PrimaryDownFor = 0,
     el_Disowned = None\<rparr>"

lemma wit_election_pool: "pool wit_election = [''db-2'', ''db-3'']"
  by (simp add: pool_def is_candidate_def wit_election_def wit_replica_def zero_instance_def)


text \<open>
  C14. On MariaDB an elected replica is a candidate within both bounds that executed everything any
  other candidate within them executed, every position was readable, no candidate fit to win is ranked
  before it, and the reported loss is the number of transactions known of that it does not hold.
\<close>

theorem election_safe_mariadb:
  assumes "el_GTID e = mariadbGTID" "cand_Name (SelectFailoverCandidate e) = n" "n \<noteq> []"
  shows "\<exists>R X Y. parseMariaPos (el_ReferenceGTID e) = Inr R \<and>
    (\<forall>m \<in> set (pool e). parseMariaPos (fi_GTID (instance_at (el_Observed e) m)) = Inr (X m) \<and>
       parseMariaPos (fi_RetrievedGTID (instance_at (el_Observed e) m)) = Inr (Y m)) \<and>
    (let H = \<lambda>m. maria_set (X m) \<union> maria_set (Y m); wins = elects e (maria_set R) (\<lambda>m. maria_set (X m)) H
     in wins n \<and> (\<forall>m. wins m \<longrightarrow> election_rank e n \<le> election_rank e m) \<and>
        cand_TransactionsBehind (SelectFailoverCandidate e) = missing_of e (maria_set R) H n)"
proof -
  from mariadb.election_readable [of e] assms obtain R X Y where
    p: "parseMariaPos (el_ReferenceGTID e) = Inr R"
    "\<forall>m \<in> set (pool e). parseMariaPos (fi_GTID (instance_at (el_Observed e) m)) = Inr (X m) \<and>
       parseMariaPos (fi_RetrievedGTID (instance_at (el_Observed e) m)) = Inr (Y m)"
    unfolding maria_reach_Inr by metis
  let ?H = "\<lambda>m. maria_set (X m) \<union> maria_set (Y m)"
  have r: "maria_reach (el_ReferenceGTID e) = Inr (maria_set R)" using p(1) by (auto simp: maria_reach_Inr)
  have "elects e (maria_set R) (\<lambda>m. maria_set (X m)) ?H n \<and>
    (\<forall>m. elects e (maria_set R) (\<lambda>m. maria_set (X m)) ?H m \<longrightarrow> election_rank e n \<le> election_rank e m) \<and>
    cand_TransactionsBehind (SelectFailoverCandidate e) = missing_of e (maria_set R) ?H n"
    by (rule mariadb.election_winner [OF assms(1) r _ assms(2,3)]) (use p(2) in \<open>auto simp: maria_reach_Inr\<close>)
  then show ?thesis using p unfolding Let_def by (intro exI conjI) simp_all
qed

theorem election_safe_mariadb_witness:
  "cand_Name (SelectFailoverCandidate (wit_election\<lparr>el_GTID := mariadbGTID, el_ReferenceGTID := ''0-1-20'',
     el_Observed := (el_Observed wit_election)\<lparr>fs_Instances :=
       [(''db-2'', wit_replica ''0-1-10'' []), (''db-3'', wit_replica ''0-1-12'' [])]\<rparr>\<rparr>)) = ''db-3'' \<and>
   (\<exists>R. parseMariaPos ''0-1-20'' = Inr R)"
proof -
  let ?e = "wit_election\<lparr>el_GTID := mariadbGTID, el_ReferenceGTID := ''0-1-20'',
     el_Observed := (el_Observed wit_election)\<lparr>fs_Instances :=
       [(''db-2'', wit_replica ''0-1-10'' []), (''db-3'', wit_replica ''0-1-12'' [])]\<rparr>\<rparr>"
  have s: "cand_Name (SelectFailoverCandidate ?e) = ''db-3''" by code_simp
  have g: "el_GTID ?e = mariadbGTID" by simp
  from election_safe_mariadb [OF g s] s show ?thesis by auto
qed

text \<open>
  C16. Whatever the engine, an elected replica is listed, is not the primary, is neither fenced nor
  known to have diverged, reports as a replica whose SQL thread runs, holds no disowned transaction,
  and is within the bounds on lost transactions and lost writes.
\<close>

theorem elected_is_fit:
  assumes "ForFlavor flavor = Inr eng" "el_GTID e = eng_GTID eng"
    "cand_Name (SelectFailoverCandidate e) = n" "n \<noteq> []"
  shows "n \<in> set (fs_InstanceNames (el_Observed e)) \<and> is_candidate e n \<and>
    (\<forall>bound. el_MaxTransactionsBehind e = Some bound \<longrightarrow> cand_TransactionsBehind (SelectFailoverCandidate e) \<le> bound) \<and>
    (\<forall>bound. el_MaxReplicationLag e = Some bound \<longrightarrow>
       (\<exists>lost. cand_TimeBehind (SelectFailoverCandidate e) = Some lost \<and> lost \<le> bound))"
proof -
  have m: "M = mysqlGTID \<or> M = mariadbGTID" if "M = eng_GTID eng" for M
    using that assms(1) by (auto simp: ForFlavor_def mysqlEngine_def mariadbEngine_def split: if_splits)
  show ?thesis using m [OF assms(2)]
  proof
    assume "el_GTID e = mysqlGTID"
    from mysql.elected_fit [OF this assms(3,4)] show ?thesis .
  next
    assume "el_GTID e = mariadbGTID"
    from mariadb.elected_fit [OF this assms(3,4)] show ?thesis .
  qed
qed

theorem elected_is_fit_witness:
  "is_candidate (wit_election\<lparr>el_MaxTransactionsBehind := Some 0\<rparr>) ''db-3'' \<and>
   cand_TransactionsBehind (SelectFailoverCandidate (wit_election\<lparr>el_MaxTransactionsBehind := Some 0\<rparr>)) \<le> 0"
proof -
  let ?e = "wit_election\<lparr>el_MaxTransactionsBehind := Some 0\<rparr>"
  have s: "cand_Name (SelectFailoverCandidate ?e) = ''db-3''" by code_simp
  have g: "ForFlavor FlavorMySQL = Inr mysqlEngine" "el_GTID ?e = eng_GTID mysqlEngine"
    by (simp_all add: ForFlavor_def wit_election_def mysqlEngine_def)
  from elected_is_fit [OF g s] show ?thesis by simp
qed

text \<open>The dominance check compares what the replicas executed and not what they hold: a replica
  that executed one transaction more is elected and the ten that only another candidate received are
  lost, although that candidate would lose none.
\<close>

theorem election_ignores_received:
  "cand_Name (SelectFailoverCandidate wit_election) = ''db-2'' \<and>
   cand_TransactionsBehind (SelectFailoverCandidate wit_election) = 10 \<and>
   cand_Name (SelectFailoverCandidate (wit_election\<lparr>el_MaxTransactionsBehind := Some 0\<rparr>)) = ''db-3'' \<and>
   cand_TransactionsBehind (SelectFailoverCandidate (wit_election\<lparr>el_MaxTransactionsBehind := Some 0\<rparr>)) = 0"
  by code_simp

end
