(* ===== verification/Async_Failover.thy ===== *)
theory Async_Failover
  imports Async_Election
begin

text \<open>
  Emergency failover of the asynchronous topology (\<open>ReconcileFailover\<close> of
  \<open>internal/controller/async/cluster_failover.go\<close>) with the primary lease
  (\<open>cluster_primary_lease.go\<close>) and the check of a switchover target (\<open>cluster_switchover.go\<close>).

  A pass returns the result, the error and the state it leaves: its own Cluster, the stored status,
  the Pods, the events. \<open>recorder\<close> says whether an event recorder is configured and \<open>operatorHash\<close>
  is the operator's own executable hash. Log lines are left out.

  The lemmas give the conditions under which the role moves, that the old primary is fenced and its
  lease expired before it does, that a failing call leaves the target alone, that a pass with no
  failing call and every condition met performs the failover, and that a sequence of passes keeps
  failovers apart.
\<close>

section \<open>The primary lease\<close>

definition primaryLeaseDuration :: int where
  "primaryLeaseDuration = 15 * Second"

definition no_lease :: PrimaryLeaseStatus where
  "no_lease = \<lparr>Held = False, RetryAfter = 0\<rparr>"

definition async_PrimaryLeaseStatus :: "gotime \<Rightarrow> string \<Rightarrow> pass \<Rightarrow> PrimaryLeaseStatus res \<times> pass" where
  "async_PrimaryLeaseStatus now holder p =
     (if \<not> IsPrimaryLeaseEnabled (pa_cluster p) then (Inr no_lease, p)
      else case api_call p of
             (Some err, p1) \<Rightarrow> (Inl err, p1)
           | (None, p1) \<Rightarrow>
               (case pa_lease p1 of
                  None \<Rightarrow> (Inr no_lease, p1)
                | Some lease \<Rightarrow>
                    if ls_HolderIdentity lease \<noteq> Some holder then (Inr no_lease, p1)
                    else case ls_RenewTime lease of
                           None \<Rightarrow> (Inr no_lease, p1)
                         | Some renew \<Rightarrow>
                             let duration = (case ls_LeaseDurationSeconds lease of
                                               None \<Rightarrow> primaryLeaseDuration | Some s \<Rightarrow> i64 (s * Second));
                                 remaining = i64 (duration - time_Sub now renew)
                             in if remaining \<le> 0 then (Inr no_lease, p1)
                                else (Inr \<lparr>Held = True, RetryAfter = remaining\<rparr>, p1)))"

section \<open>The state of the primary and of a handoff\<close>

definition PrimaryHealthy :: "FailoverState \<Rightarrow> bool" where
  "PrimaryHealthy observed =
     (case map_of (fs_Instances observed) (fs_PrimaryName observed) of
        None \<Rightarrow> False | Some status \<Rightarrow> fi_Ready status \<and> fi_Primary status)"

definition hasObservedReplica :: "FailoverState \<Rightarrow> bool" where
  "hasObservedReplica observed = list_ex (\<lambda>(name, _). name \<noteq> fs_PrimaryName observed) (fs_Instances observed)"

definition primaryUnhealthyReason :: "FailoverState \<Rightarrow> string" where
  "primaryUnhealthyReason observed =
     (case map_of (fs_Instances observed) (fs_PrimaryName observed) of
        None \<Rightarrow> ''instance manager status is unreachable''
      | Some status \<Rightarrow>
          if fs_PrimaryName observed \<in> set (fs_Terminating observed) then ''pod is terminating''
          else if \<not> fi_Ready status then ''pod is not ready''
          else if \<not> fi_Primary status then Sprintf ''instance reports role %s, not primary'' [fi_Role status]
          else ''primary is unhealthy'')"

definition phaseResult :: "int \<Rightarrow> string \<Rightarrow> string \<Rightarrow> FailoverResult" where
  "phaseResult requeueAfter phase reason =
     \<lparr>Handled = True, RequeueAfter = requeueAfter,
      Phase = Some \<lparr>op_Phase = phase, op_Reason = reason, op_Ready = False, op_Progressing = True\<rparr>\<rparr>"

definition validateSwitchoverTarget :: "FailoverState \<Rightarrow> string \<Rightarrow> go_error option" where
  "validateSwitchoverTarget observed target =
     (case map_of (fs_Instances observed) target of
        None \<Rightarrow> Some (Errorf ''target primary %s is not reporting status'' [target])
      | Some status \<Rightarrow>
          if \<not> fi_Ready status then Some (Errorf ''target primary %s is not ready'' [target])
          else if \<not> fi_Replica status
          then Some (Errorf ''target primary %s has role %s, want replica'' [target, fi_Role status])
          else if \<not> fi_IORunning status \<or> \<not> fi_SQLRunning status
          then Some (Errorf ''target primary %s replication is not healthy'' [target])
          else None)"

definition switchoverOverdue :: "gotime \<Rightarrow> Cluster \<Rightarrow> bool" where
  "switchoverOverdue now c =
     (let maxDelay = i64 (cs_MaxSwitchoverDelay (cl_Spec c) * Second) in
      maxDelay > 0 \<and>
      (case st_TargetPrimaryTimestamp (cl_Status c) of None \<Rightarrow> False | Some t \<Rightarrow> time_Sub now t > maxDelay))"

definition targetHoldsPromotionLease :: "gotime \<Rightarrow> string list \<Rightarrow> pass \<Rightarrow> bool res \<times> pass" where
  "targetHoldsPromotionLease now knownDiverged p =
     (let c = pa_cluster p; target = st_TargetPrimary (cl_Status c) in
      if target = [] \<or> target = st_CurrentPrimary (cl_Status c) \<or> target \<in> set knownDiverged then (Inr False, p)
      else case async_PrimaryLeaseStatus now target p of
             (Inl err, p1) \<Rightarrow> (Inl err, p1)
           | (Inr lease, p1) \<Rightarrow> if \<not> Held lease then (Inr False, p1) else (Inr (\<not> switchoverOverdue now c), p1))"

definition switchoverInFlight :: "gotime \<Rightarrow> Cluster \<Rightarrow> FailoverState \<Rightarrow> string list \<Rightarrow> bool \<Rightarrow> bool" where
  "switchoverInFlight now c observed knownDiverged targetHoldsLease =
     (let target = st_TargetPrimary (cl_Status c) in
      if target = [] \<or> target = st_CurrentPrimary (cl_Status c) then False
      else if target \<in> set knownDiverged then False
      else if validateSwitchoverTarget observed target = None then True
      else if targetHoldsLease then True
      else case map_of (fs_Instances observed) target of
             None \<Rightarrow> False
           | Some status \<Rightarrow>
               if fi_Ready status \<and> fi_Primary status then True
               else fi_Replica status \<and> fi_SQLRunning status \<and> \<not> switchoverOverdue now c)"

section \<open>Writes of a pass\<close>

definition fencingAnnotation :: string where
  "fencingAnnotation = ''cnmsql.cnmsql.co/fencing''"

text \<open>A deleted Pod keeps running until its grace period is over: deletion stamps it.\<close>

definition fenceInstancePod :: "string \<Rightarrow> pass \<Rightarrow> go_error option \<times> pass" where
  "fenceInstancePod name p =
     (case api_call p of
        (Some err, p1) \<Rightarrow> (Some err, p1)
      | (None, p1) \<Rightarrow>
          (case map_of (pa_pods p1) name of
             None \<Rightarrow> (None, p1)
           | Some pod \<Rightarrow>
               if pod_Deleting pod then (None, p1)
               else if string_at (pod_Annotations pod) fencingAnnotation = ''true'' \<and>
                       name \<in> set (st_FencedInstances (cl_Status (pa_cluster p1)))
               then (None, p1)
               else case api_call p1 of
                      (Some err, p2) \<Rightarrow> (Some err, p2)
                    | (None, p2) \<Rightarrow>
                        (None, p2\<lparr>pa_pods := AList.update name (pod\<lparr>pod_Deleting := True\<rparr>) (pa_pods p2)\<rparr>)))"

definition recordPrimaryFailing :: "gotime \<Rightarrow> pass \<Rightarrow> gotime res \<times> pass" where
  "recordPrimaryFailing now p =
     (case st_PrimaryFailingSince (cl_Status (pa_cluster p)) of
        Some existing \<Rightarrow> (Inr existing, p)
      | None \<Rightarrow>
          (let t = truncate_second now in
           case PatchClusterStatus (\<lambda>status. status\<lparr>st_PrimaryFailingSince := Some t\<rparr>) p of
             (Some err, p1) \<Rightarrow> (Inl err, p1)
           | (None, p1) \<Rightarrow> (Inr t, p1)))"

definition recordPrimaryHealthy :: "gotime \<Rightarrow> pass \<Rightarrow> go_error option \<times> pass" where
  "recordPrimaryHealthy now p =
     (let status = cl_Status (pa_cluster p); recovered = (st_PrimaryFailingSince status \<noteq> None) in
      if \<not> recovered \<and> st_PrimaryHealthySince status \<noteq> None then (None, p)
      else PatchClusterStatus (\<lambda>status. status\<lparr>st_PrimaryFailingSince := None,
             st_PrimaryHealthySince := Some (truncate_second now)\<rparr>) p)"

definition isInstanceHashStale :: "Cluster \<Rightarrow> string \<Rightarrow> string \<Rightarrow> bool \<times> bool" where
  "isInstanceHashStale c name operatorHash =
     (case map_of (st_ExecutableHashByInstance (cl_Status c)) name of
        None \<Rightarrow> (False, False)
      | Some hash \<Rightarrow> (hash \<noteq> [] \<and> hash \<noteq> operatorHash, True))"

section \<open>Failover\<close>

definition blockedResult :: "string \<Rightarrow> FailoverResult" where
  "blockedResult reason =
     \<lparr>Handled = False, RequeueAfter = 0,
      Phase = Some \<lparr>op_Phase = PhaseBlocked, op_Reason = reason, op_Ready = False, op_Progressing = True\<rparr>\<rparr>"

definition handledResult :: FailoverResult where
  "handledResult = \<lparr>Handled = True, RequeueAfter = 0, Phase = None\<rparr>"

text \<open>The grace before a failover: the configured delay, longer during an in-place manager upgrade.\<close>

definition failover_delay :: "Cluster \<Rightarrow> FailoverState \<Rightarrow> string \<Rightarrow> int" where
  "failover_delay c observed operatorHash =
     (let delay = i64 (cs_FailoverDelay (cl_Spec c) * Second);
          delay = (if cs_InPlaceInstanceManagerUpdates (cl_Spec c) \<and> operatorHash \<noteq> [] \<and>
                      isInstanceHashStale c (fs_PrimaryName observed) operatorHash = (True, True)
                   then max delay (30 * Second) else delay)
      in (case map_of (fs_Instances observed) (fs_PrimaryName observed) of
            None \<Rightarrow> delay
          | Some primary \<Rightarrow> if fi_InPlaceUpgrading primary then max delay (30 * Second) else delay))"

definition failover_election :: "gotime \<Rightarrow> Cluster \<Rightarrow> FailoverRequest \<Rightarrow> gtid_model \<Rightarrow> string list \<Rightarrow> gotime \<Rightarrow> Election" where
  "failover_election now c request M knownDiverged failingSince =
     (let observed = fr_Observed request in
      \<lparr>el_Observed = observed, el_KnownDiverged = knownDiverged, el_GTID = M,
       el_MaxTransactionsBehind = maxTransactionsBehind c, el_ArchiveCovered = archiveCovered c,
       el_Preferred = PreferredPrimary c,
       el_ReferenceGTID = string_at (st_GTIDExecutedByInstance (cl_Status c)) (fs_PrimaryName observed),
       el_MaxReplicationLag = MaxReplicationLag c, el_PrimaryDownFor = time_Sub now failingSince,
       el_Disowned = disownedSet (ResolvedFlavor c) (fr_DisownedGTIDs request)\<rparr>)"

definition failover_message :: "string \<Rightarrow> FailoverCandidate \<Rightarrow> string" where
  "failover_message primary elected =
     Sprintf ''Failing over from %s to %s'' [primary, cand_Name elected] @
     (if cand_TransactionsBehind elected > 0
      then Sprintf '', which is %d transactions behind it'' [FormatInt (cand_TransactionsBehind elected)] @
           (case cand_TimeBehind elected of
              None \<Rightarrow> [] | Some t \<Rightarrow> Sprintf '' (%s of writes)'' [Duration_String (Round t Second)])
      else [])"

text \<open>From the election on: the lease, the fence, the status patch and the event.\<close>

definition failover_commit :: "bool \<Rightarrow> gotime \<Rightarrow> FailoverRequest \<Rightarrow> FailoverCandidate \<Rightarrow> pass \<Rightarrow> (FailoverResult \<times> go_error option) \<times> pass" where
  "failover_commit recorder now request elected p =
     (let primary = fs_PrimaryName (fr_Observed request) in
      case async_PrimaryLeaseStatus now primary p of
        (Inl err, p1) \<Rightarrow> ((handledResult, Some err), p1)
      | (Inr lease, p1) \<Rightarrow>
          if Held lease
          then ((phaseResult (RetryAfter lease) PhaseDegraded
                   (Sprintf ''Primary lease still held by %s; waiting for expiry'' [primary]), None), p1)
          else case fenceInstancePod primary p1 of
                 (Some err, p2) \<Rightarrow> ((handledResult, Some (Wrapf ''fence old primary %s: %w'' [primary] err)), p2)
               | (None, p2) \<Rightarrow>
                   (let message = failover_message primary elected in
                    case PatchClusterStatus (\<lambda>status. status\<lparr>st_TargetPrimary := cand_Name elected,
                           st_TargetPrimaryTimestamp := Some now, st_PrimaryFailingSince := None,
                           st_PrimaryHealthySince := None, st_LastFailoverTimestamp := Some now,
                           st_Phase := PhaseFailingOver, st_PhaseReason := message\<rparr>) p2 of
                      (Some err, p3) \<Rightarrow> ((handledResult, Some err), p3)
                    | (None, p3) \<Rightarrow>
                        ((handledResult\<lparr>RequeueAfter := fr_ProvisioningRetry request\<rparr>, None),
                         record_event recorder ''Warning'' PhaseFailingOver message p3)))"

text \<open>From the failing marker on: the delay, the cooldown and the election.\<close>

definition failover_elect :: "bool \<Rightarrow> string \<Rightarrow> gotime \<Rightarrow> FailoverRequest \<Rightarrow> string list \<Rightarrow> gotime \<Rightarrow> pass \<Rightarrow> (FailoverResult \<times> go_error option) \<times> pass" where
  "failover_elect recorder operatorHash now request knownDiverged failingSince p =
     (let c = pa_cluster p; observed = fr_Observed request; primary = fs_PrimaryName observed;
          remaining = i64 (failover_delay c observed operatorHash - time_Sub now failingSince);
          cooldown = FailoverCooldownRemaining now c
      in if remaining > 0
         then ((phaseResult remaining PhaseDegraded
                  (Sprintf ''Primary %s unreachable; waiting %s before failover''
                     [primary, Duration_String (Round remaining Second)]), None), p)
         else if cooldown > 0
         then ((blockedResult (Sprintf (''Cannot fail over from %s: the last primary promotion is too recent to fail over again; '' @
                  ''minTimeBetweenFailovers (%s) allows the next one in %s'')
                  [primary, Duration_String (MinTimeBetweenFailovers c), Duration_String (Round cooldown Second)]), None), p)
         else case ForFlavor (ResolvedFlavor c) of
                Inl err \<Rightarrow> ((zero_result, Some (Errorf ''unknown engine flavor %q'' [ResolvedFlavor c])), p)
              | Inr eng \<Rightarrow>
                  (let elected = SelectFailoverCandidate
                         (failover_election now c request (eng_GTID eng) knownDiverged failingSince)
                   in if cand_Name elected = []
                      then if \<not> hasObservedReplica observed then ((zero_result, None), p)
                           else ((blockedResult (Sprintf ''Cannot fail over from %s: %s'' [primary, cand_Reason elected]), None), p)
                      else failover_commit recorder now request elected p))"

text \<open>From the handoff check on: the deferral, the switch and the failing marker.\<close>

definition failover_decide :: "bool \<Rightarrow> string \<Rightarrow> gotime \<Rightarrow> FailoverRequest \<Rightarrow> string list \<Rightarrow> pass \<Rightarrow> (FailoverResult \<times> go_error option) \<times> pass" where
  "failover_decide recorder operatorHash now request knownDiverged p =
     (case targetHoldsPromotionLease now knownDiverged p of
        (Inl err, p1) \<Rightarrow> ((handledResult, Some err), p1)
      | (Inr targetHoldsLease, p1) \<Rightarrow>
          if switchoverInFlight now (pa_cluster p1) (fr_Observed request) knownDiverged targetHoldsLease
          then ((zero_result, None), p1)
          else if \<not> EnableFailover (pa_cluster p1)
          then ((blockedResult (Sprintf (''Cannot fail over from %s: failover is disabled (spec.enableFailover is false); '' @
                   ''the failed primary must recover in place or the role must move by manual switchover'')
                   [fs_PrimaryName (fr_Observed request)]), None), p1)
          else case recordPrimaryFailing now p1 of
                 (Inl err, p2) \<Rightarrow> ((handledResult, Some err), p2)
               | (Inr failingSince, p2) \<Rightarrow>
                   failover_elect recorder operatorHash now request knownDiverged failingSince p2)"

definition ReconcileFailover :: "bool \<Rightarrow> string \<Rightarrow> gotime \<Rightarrow> FailoverRequest \<Rightarrow> pass \<Rightarrow> (FailoverResult \<times> go_error option) \<times> pass" where
  "ReconcileFailover recorder operatorHash now request p =
     (let observed = fr_Observed request; primary = fs_PrimaryName observed; status = cl_Status (pa_cluster p) in
      if st_CurrentPrimary status = [] \<or> primary = [] \<or> fr_Instances request < 2 then ((zero_result, None), p)
      else if PrimaryHealthy observed
      then (case recordPrimaryHealthy now p of (err, p1) \<Rightarrow> ((zero_result, err), p1))
      else if primary \<in> set (fs_Fenced observed) \<and> primary \<notin> set (st_FencedInstances status)
      then ((zero_result, None), p)
      else failover_decide recorder operatorHash now request (fs_Diverged observed @ st_DivergedInstances status) p)"

section \<open>What each step of a pass does\<close>

definition lease_held :: "gotime \<Rightarrow> Cluster \<Rightarrow> string \<Rightarrow> Lease option \<Rightarrow> bool" where
  "lease_held now c holder lease \<longleftrightarrow>
     IsPrimaryLeaseEnabled c \<and>
     (case lease of
        None \<Rightarrow> False
      | Some l \<Rightarrow>
          ls_HolderIdentity l = Some holder \<and>
          (case ls_RenewTime l of
             None \<Rightarrow> False
           | Some renew \<Rightarrow>
               0 < i64 ((case ls_LeaseDurationSeconds l of None \<Rightarrow> primaryLeaseDuration | Some s \<Rightarrow> i64 (s * Second)) -
                        time_Sub now renew)))"

text \<open>An instance is down for good: its Pod is gone, on its way out, or stopped by an acknowledged fence.\<close>

definition pod_stopped :: "string \<Rightarrow> (string, Pod) gomap \<Rightarrow> ClusterStatus \<Rightarrow> bool" where
  "pod_stopped name pods st \<longleftrightarrow>
     (case map_of pods name of
        None \<Rightarrow> True
      | Some pod \<Rightarrow> pod_Deleting pod \<or>
          (string_at (pod_Annotations pod) fencingAnnotation = ''true'' \<and>
           name \<in> set (st_FencedInstances st)))"

text \<open>A call that only consumed planned failures.\<close>

definition only_faults :: "pass \<Rightarrow> pass \<Rightarrow> bool" where
  "only_faults p p' \<longleftrightarrow> pa_cluster p' = pa_cluster p \<and> pa_latest p' = pa_latest p \<and> pa_pods p' = pa_pods p \<and>
     pa_lease p' = pa_lease p \<and> pa_events p' = pa_events p"

lemma only_faults_refl [simp]: "only_faults p p"
  by (simp add: only_faults_def)

lemma only_faultsD:
  assumes "only_faults p p'"
  shows "pa_cluster p' = pa_cluster p" "pa_latest p' = pa_latest p" "pa_pods p' = pa_pods p" "pa_lease p' = pa_lease p"
  using assms by (simp_all add: only_faults_def)

lemma api_call_only_faults: "api_call p = (f, p') \<Longrightarrow> only_faults p p'"
  by (auto simp: api_call_def only_faults_def split: list.splits)

lemma async_PrimaryLeaseStatus_frame:
  assumes "async_PrimaryLeaseStatus now holder p = (r, p')"
  shows "only_faults p p' \<and> (\<forall>lease. r = Inr lease \<longrightarrow> Held lease = lease_held now (pa_cluster p) holder (pa_lease p))"
proof (cases "IsPrimaryLeaseEnabled (pa_cluster p)")
  case False
  then show ?thesis using assms by (auto simp: async_PrimaryLeaseStatus_def no_lease_def lease_held_def)
next
  case True
  obtain f p1 where a: "api_call p = (f, p1)" by force
  note fr = api_call_only_faults [OF a]
  show ?thesis
  proof (cases f)
    case (Some e)
    then show ?thesis using assms True a fr by (auto simp: async_PrimaryLeaseStatus_def)
  next
    case None
    have "p' = p1 \<and> (\<exists>lease. r = Inr lease \<and> Held lease = lease_held now (pa_cluster p) holder (pa_lease p))"
    proof (cases "pa_lease p")
      case (Some l)
      then show ?thesis using assms True a None only_faultsD [OF fr]
        by (cases "ls_RenewTime l"; cases "ls_HolderIdentity l = Some holder")
          (auto simp: async_PrimaryLeaseStatus_def lease_held_def no_lease_def Let_def split: if_splits)
    qed (use assms True a None only_faultsD [OF fr] in \<open>auto simp: async_PrimaryLeaseStatus_def lease_held_def no_lease_def\<close>)
    then show ?thesis using fr by auto
  qed
qed

lemma async_PrimaryLeaseStatus_no_faults:
  "pa_faults p = [] \<Longrightarrow> \<exists>lease. async_PrimaryLeaseStatus now holder p = (Inr lease, p) \<and>
     Held lease = lease_held now (pa_cluster p) holder (pa_lease p)"
  by (auto simp: async_PrimaryLeaseStatus_def lease_held_def no_lease_def Let_def api_call_def split: option.splits)

lemma targetHoldsPromotionLease_frame:
  assumes "targetHoldsPromotionLease now known p = (r, p')"
  shows "only_faults p p'"
proof -
  obtain q p1 where q: "async_PrimaryLeaseStatus now (st_TargetPrimary (cl_Status (pa_cluster p))) p = (q, p1)" by force
  with async_PrimaryLeaseStatus_frame [OF q] assms show ?thesis
    by (cases q) (auto simp: targetHoldsPromotionLease_def Let_def split: if_splits)
qed

lemma fenceInstancePod_frame:
  assumes "fenceInstancePod name p = (r, p')"
  shows "pa_cluster p' = pa_cluster p \<and> pa_latest p' = pa_latest p \<and> pa_lease p' = pa_lease p \<and>
    (r = None \<longrightarrow> pod_stopped name (pa_pods p') (cl_Status (pa_cluster p)))"
proof -
  obtain f1 p1 where a1: "api_call p = (f1, p1)" by force
  obtain f2 p2 where a2: "api_call p1 = (f2, p2)" by force
  note d = only_faultsD [OF api_call_only_faults [OF a1]] only_faultsD [OF api_call_only_faults [OF a2]]
  show ?thesis
  proof (cases f1)
    case (Some e)
    then show ?thesis using assms a1 d by (auto simp: fenceInstancePod_def)
  next
    case None
    note n1 = this
    show ?thesis
    proof (cases "pod_stopped name (pa_pods p) (cl_Status (pa_cluster p))")
      case True
      then show ?thesis using assms a1 a2 n1 d by (auto simp: fenceInstancePod_def pod_stopped_def split: option.splits if_splits)
    next
      case False
      then obtain pod where "map_of (pa_pods p) name = Some pod" "\<not> pod_Deleting pod"
        "\<not> (string_at (pod_Annotations pod) fencingAnnotation = ''true'' \<and> name \<in> set (st_FencedInstances (cl_Status (pa_cluster p))))"
        by (auto simp: pod_stopped_def split: option.splits)
      then show ?thesis using assms a1 a2 n1 d
        by (cases f2) (auto simp: fenceInstancePod_def pod_stopped_def update_conv')
    qed
  qed
qed

lemma fenceInstancePod_no_faults:
  "pa_faults p = [] \<Longrightarrow> \<exists>p'. fenceInstancePod name p = (None, p') \<and> pa_faults p' = []"
  by (auto simp: fenceInstancePod_def api_call_def split: option.splits)

definition marked_failing :: "gotime \<Rightarrow> ClusterStatus \<Rightarrow> ClusterStatus" where
  "marked_failing now st = stored (st\<lparr>st_PrimaryFailingSince := Some (truncate_second now)\<rparr>)"

lemma PatchClusterStatus_frame:
  assumes "PatchClusterStatus mutate p = (r, p')"
  shows "pa_pods p' = pa_pods p \<and> pa_lease p' = pa_lease p \<and>
    (r = None \<longrightarrow> pa_latest p' = stored (mutate (pa_latest p)) \<and>
       pa_cluster p' = (pa_cluster p)\<lparr>cl_Status := stored (mutate (pa_latest p))\<rparr>) \<and>
    (r \<noteq> None \<longrightarrow> pa_latest p' = pa_latest p \<and> pa_cluster p' = pa_cluster p)"
  using assms by (rule PatchClusterStatus_cases) simp_all

lemma PatchClusterStatus_no_faults:
  "pa_faults p = [] \<Longrightarrow> \<exists>p'. PatchClusterStatus mutate p = (None, p') \<and> pa_faults p' = []"
  by (auto simp: PatchClusterStatus_def api_call_def Let_def)

lemma recordPrimaryFailing_frame:
  assumes "recordPrimaryFailing now p = (r, p')"
  shows "pa_pods p' = pa_pods p \<and> pa_lease p' = pa_lease p \<and>
    (case r of
       Inl e \<Rightarrow> pa_latest p' = pa_latest p \<and> pa_cluster p' = pa_cluster p
     | Inr since \<Rightarrow>
         (case st_PrimaryFailingSince (cl_Status (pa_cluster p)) of
            Some t \<Rightarrow> since = t \<and> p' = p
          | None \<Rightarrow> since = truncate_second now \<and> pa_latest p' = marked_failing now (pa_latest p) \<and>
              pa_cluster p' = (pa_cluster p)\<lparr>cl_Status := marked_failing now (pa_latest p)\<rparr>))"
proof (cases "st_PrimaryFailingSince (cl_Status (pa_cluster p))")
  case None
  obtain f p1 where a: "PatchClusterStatus (\<lambda>status. status\<lparr>st_PrimaryFailingSince := Some (truncate_second now)\<rparr>) p = (f, p1)"
    by force
  from PatchClusterStatus_frame [OF a] assms None a show ?thesis
    by (cases f) (auto simp: recordPrimaryFailing_def marked_failing_def Let_def)
qed (use assms in \<open>auto simp: recordPrimaryFailing_def\<close>)

lemma recordPrimaryFailing_no_faults:
  assumes "pa_faults p = []"
  shows "\<exists>since p'. recordPrimaryFailing now p = (Inr since, p') \<and> pa_faults p' = []"
proof -
  obtain p1 where "PatchClusterStatus (\<lambda>status. status\<lparr>st_PrimaryFailingSince := Some (truncate_second now)\<rparr>) p = (None, p1)"
    "pa_faults p1 = []" using PatchClusterStatus_no_faults [OF assms] by blast
  then show ?thesis using assms
    by (cases "st_PrimaryFailingSince (cl_Status (pa_cluster p))") (auto simp: recordPrimaryFailing_def Let_def)
qed

section \<open>What a pass does\<close>

definition failed_over :: "gotime \<Rightarrow> string \<Rightarrow> FailoverCandidate \<Rightarrow> ClusterStatus \<Rightarrow> ClusterStatus" where
  "failed_over now primary elected st =
     stored (st\<lparr>st_TargetPrimary := cand_Name elected, st_TargetPrimaryTimestamp := Some now,
       st_PrimaryFailingSince := None, st_PrimaryHealthySince := None, st_LastFailoverTimestamp := Some now,
       st_Phase := PhaseFailingOver, st_PhaseReason := failover_message primary elected\<rparr>)"

lemma record_event_simps [simp]:
  "pa_latest (record_event b ty r m p) = pa_latest p" "pa_cluster (record_event b ty r m p) = pa_cluster p"
  "pa_pods (record_event b ty r m p) = pa_pods p" "pa_faults (record_event b ty r m p) = pa_faults p"
  "pa_lease (record_event b ty r m p) = pa_lease p"
  by (simp_all add: record_event_def)

lemma failover_commit_frame:
  assumes "failover_commit recorder now request elected p = ((res, err), p')"
    and "primary = fs_PrimaryName (fr_Observed request)"
  shows "(pa_latest p' = pa_latest p \<and> (err = None \<longrightarrow> lease_held now (pa_cluster p) primary (pa_lease p))) \<or>
    (err = None \<and> Handled res \<and> \<not> lease_held now (pa_cluster p) primary (pa_lease p) \<and>
     pod_stopped primary (pa_pods p') (cl_Status (pa_cluster p)) \<and>
     pa_latest p' = failed_over now primary elected (pa_latest p))"
proof -
  obtain r1 p1 where l: "async_PrimaryLeaseStatus now primary p = (r1, p1)" by force
  obtain r2 p2 where f: "fenceInstancePod primary p1 = (r2, p2)" by force
  obtain r3 p3 where u: "PatchClusterStatus (\<lambda>status. status\<lparr>st_TargetPrimary := cand_Name elected,
       st_TargetPrimaryTimestamp := Some now, st_PrimaryFailingSince := None,
       st_PrimaryHealthySince := None, st_LastFailoverTimestamp := Some now,
       st_Phase := PhaseFailingOver, st_PhaseReason := failover_message primary elected\<rparr>) p2 = (r3, p3)" by force
  note fl = async_PrimaryLeaseStatus_frame [OF l] and ff = fenceInstancePod_frame [OF f] and fu = PatchClusterStatus_frame [OF u]
  note d = only_faultsD [OF conjunct1 [OF fl]]
  show ?thesis
  proof (cases r1)
    case (Inl e)
    then show ?thesis using assms l d by (auto simp: failover_commit_def Let_def)
  next
    case (Inr lease)
    show ?thesis
    proof (cases "Held lease")
      case True
      then show ?thesis using assms l d Inr fl by (auto simp: failover_commit_def Let_def)
    next
      case False
      then have nh: "\<not> lease_held now (pa_cluster p) primary (pa_lease p)" using fl Inr by simp
      show ?thesis
      proof (cases r2)
        case (Some e)
        then show ?thesis using assms l f d Inr False ff by (auto simp: failover_commit_def Let_def)
      next
        case n2: None
        have st: "pod_stopped primary (pa_pods p3) (cl_Status (pa_cluster p))"
          using ff fu n2 d by simp
        show ?thesis
        proof (cases r3)
          case (Some e)
          then show ?thesis using assms l f u d Inr False ff fu n2 by (auto simp: failover_commit_def Let_def)
        next
          case None
          then have "err = None" "Handled res" "p' = record_event recorder ''Warning'' PhaseFailingOver (failover_message primary elected) p3"
            using assms l f u Inr False n2 by (auto simp: failover_commit_def Let_def handledResult_def)
          then show ?thesis using nh st ff fu None d by (simp add: failed_over_def)
        qed
      qed
    qed
  qed
qed

lemma failover_commit_no_faults:
  assumes "pa_faults p = []" "\<not> lease_held now (pa_cluster p) (fs_PrimaryName (fr_Observed request)) (pa_lease p)"
  shows "\<exists>res p'. failover_commit recorder now request elected p = ((res, None), p')"
proof -
  let ?primary = "fs_PrimaryName (fr_Observed request)"
  obtain lease where l: "async_PrimaryLeaseStatus now ?primary p = (Inr lease, p)" "\<not> Held lease"
    using async_PrimaryLeaseStatus_no_faults [OF assms(1)] assms(2) by fastforce
  obtain p2 where f: "fenceInstancePod ?primary p = (None, p2)" "pa_faults p2 = []"
    using fenceInstancePod_no_faults [OF assms(1)] by blast
  obtain p3 where "PatchClusterStatus (\<lambda>status. status\<lparr>st_TargetPrimary := cand_Name elected,
       st_TargetPrimaryTimestamp := Some now, st_PrimaryFailingSince := None,
       st_PrimaryHealthySince := None, st_LastFailoverTimestamp := Some now,
       st_Phase := PhaseFailingOver, st_PhaseReason := failover_message ?primary elected\<rparr>) p2 = (None, p3)"
    using PatchClusterStatus_no_faults [OF f(2)] by blast
  with l f show ?thesis by (simp add: failover_commit_def Let_def)
qed

text \<open>The result of the election of a pass, and the guards in front of it.\<close>

definition failover_choice :: "gotime \<Rightarrow> FailoverRequest \<Rightarrow> string list \<Rightarrow> gotime \<Rightarrow> Cluster \<Rightarrow> FailoverCandidate" where
  "failover_choice now request known since c =
     (case ForFlavor (ResolvedFlavor c) of
        Inl err \<Rightarrow> refused []
      | Inr eng \<Rightarrow> SelectFailoverCandidate (failover_election now c request (eng_GTID eng) known since))"

lemma failover_elect_frame:
  assumes "failover_elect recorder hash now request known since p = ((res, err), p')"
    and "primary = fs_PrimaryName (fr_Observed request)"
    and "pa_latest p' \<noteq> pa_latest p"
  shows "i64 (failover_delay (pa_cluster p) (fr_Observed request) hash - time_Sub now since) \<le> 0 \<and>
    FailoverCooldownRemaining now (pa_cluster p) \<le> 0 \<and>
    cand_Name (failover_choice now request known since (pa_cluster p)) \<noteq> [] \<and>
    err = None \<and> Handled res \<and> \<not> lease_held now (pa_cluster p) primary (pa_lease p) \<and>
    pod_stopped primary (pa_pods p') (cl_Status (pa_cluster p)) \<and>
    pa_latest p' = failed_over now primary (failover_choice now request known since (pa_cluster p)) (pa_latest p)"
proof -
  let ?c = "pa_cluster p"
  have g: "i64 (failover_delay ?c (fr_Observed request) hash - time_Sub now since) \<le> 0"
    "FailoverCooldownRemaining now ?c \<le> 0"
    using assms by (auto simp: failover_elect_def Let_def split: if_splits)
  obtain eng where eng: "ForFlavor (ResolvedFlavor ?c) = Inr eng"
    using assms g by (cases "ForFlavor (ResolvedFlavor ?c)") (auto simp: failover_elect_def Let_def)
  let ?el = "failover_choice now request known since ?c"
  have n: "cand_Name ?el \<noteq> []"
    using assms g eng by (auto simp: failover_elect_def Let_def failover_choice_def split: if_splits)
  then have "failover_commit recorder now request ?el p = ((res, err), p')"
    using assms(1) g eng by (simp add: failover_elect_def Let_def failover_choice_def)
  from failover_commit_frame [OF this assms(2)] assms(3) g n show ?thesis by blast
qed

text \<open>The pass works on an up-to-date copy of a status as the server stores it.\<close>

definition synced :: "pass \<Rightarrow> bool" where
  "synced p \<longleftrightarrow> cl_Status (pa_cluster p) = pa_latest p \<and> stored (pa_latest p) = pa_latest p"

definition known_diverged :: "FailoverRequest \<Rightarrow> pass \<Rightarrow> string list" where
  "known_diverged request p = fs_Diverged (fr_Observed request) @ st_DivergedInstances (cl_Status (pa_cluster p))"

definition target_promoting :: "gotime \<Rightarrow> string list \<Rightarrow> pass \<Rightarrow> bool" where
  "target_promoting now known p \<longleftrightarrow>
     (let target = st_TargetPrimary (cl_Status (pa_cluster p)) in
      target \<noteq> [] \<and> target \<noteq> st_CurrentPrimary (cl_Status (pa_cluster p)) \<and> target \<notin> set known \<and>
      lease_held now (pa_cluster p) target (pa_lease p) \<and> \<not> switchoverOverdue now (pa_cluster p))"

definition handoff_in_flight :: "gotime \<Rightarrow> FailoverRequest \<Rightarrow> pass \<Rightarrow> bool" where
  "handoff_in_flight now request p =
     switchoverInFlight now (pa_cluster p) (fr_Observed request) (known_diverged request p)
       (target_promoting now (known_diverged request p) p)"

definition failing_since :: "gotime \<Rightarrow> pass \<Rightarrow> gotime" where
  "failing_since now p =
     (case st_PrimaryFailingSince (cl_Status (pa_cluster p)) of None \<Rightarrow> truncate_second now | Some t \<Rightarrow> t)"

text \<open>The conditions of the early returns, all passed.\<close>

definition failover_wanted :: "gotime \<Rightarrow> FailoverRequest \<Rightarrow> pass \<Rightarrow> bool" where
  "failover_wanted now request p \<longleftrightarrow>
     (let observed = fr_Observed request; primary = fs_PrimaryName observed; status = cl_Status (pa_cluster p) in
      st_CurrentPrimary status \<noteq> [] \<and> primary \<noteq> [] \<and> 2 \<le> fr_Instances request \<and> \<not> PrimaryHealthy observed \<and>
      (primary \<in> set (fs_Fenced observed) \<longrightarrow> primary \<in> set (st_FencedInstances status)) \<and>
      \<not> handoff_in_flight now request p \<and> EnableFailover (pa_cluster p))"

definition pass_choice :: "gotime \<Rightarrow> FailoverRequest \<Rightarrow> pass \<Rightarrow> FailoverCandidate" where
  "pass_choice now request p =
     failover_choice now request (known_diverged request p) (failing_since now p) (pa_cluster p)"

lemma targetHoldsPromotionLease_value:
  assumes "targetHoldsPromotionLease now known p = (Inr b, p')"
  shows "b = target_promoting now known p"
proof -
  obtain q p1 where q: "async_PrimaryLeaseStatus now (st_TargetPrimary (cl_Status (pa_cluster p))) p = (q, p1)" by force
  with async_PrimaryLeaseStatus_frame [OF q] assms show ?thesis
    by (cases q) (auto simp: targetHoldsPromotionLease_def target_promoting_def Let_def split: if_splits)
qed

lemma targetHoldsPromotionLease_no_faults:
  assumes "pa_faults p = []"
  shows "targetHoldsPromotionLease now known p = (Inr (target_promoting now known p), p)"
proof -
  obtain lease where "async_PrimaryLeaseStatus now (st_TargetPrimary (cl_Status (pa_cluster p))) p = (Inr lease, p)"
    "Held lease = lease_held now (pa_cluster p) (st_TargetPrimary (cl_Status (pa_cluster p))) (pa_lease p)"
    using async_PrimaryLeaseStatus_no_faults [OF assms] by blast
  then show ?thesis by (simp add: targetHoldsPromotionLease_def target_promoting_def Let_def)
qed

lemma failing_irrelevant:
  assumes "c' = c\<lparr>cl_Status := (cl_Status c)\<lparr>st_PrimaryFailingSince := x\<rparr>\<rparr>"
  shows "failover_delay c' obs hash = failover_delay c obs hash"
    "FailoverCooldownRemaining now c' = FailoverCooldownRemaining now c"
    "failover_choice now request known since c' = failover_choice now request known since c"
    "lease_held now c' holder lease = lease_held now c holder lease"
    "MinTimeBetweenFailovers c' = MinTimeBetweenFailovers c"
  unfolding assms
  by (simp_all add: failover_delay_def isInstanceHashStale_def FailoverCooldownRemaining_def primarySettledAt_def
      primaryHealthySince_def MinTimeBetweenFailovers_def PrimaryStabilityWindow_def failover_choice_def
      failover_election_def ResolvedFlavor_def maxTransactionsBehind_def archiveCovered_def PreferredPrimary_def
      MaxReplicationLag_def IsArchivingEnabled_def ContinuousArchiving_def lease_held_def IsPrimaryLeaseEnabled_def Let_def
      cong: option.case_cong if_cong sum.case_cong)

lemma recordPrimaryFailing_synced:
  assumes "recordPrimaryFailing now p = (Inr since, p')" "synced p"
  shows "since = failing_since now p \<and> pa_latest p' = (pa_latest p)\<lparr>st_PrimaryFailingSince := Some since\<rparr> \<and>
    pa_cluster p' = (pa_cluster p)\<lparr>cl_Status := (cl_Status (pa_cluster p))\<lparr>st_PrimaryFailingSince := Some since\<rparr>\<rparr> \<and>
    pa_pods p' = pa_pods p \<and> pa_lease p' = pa_lease p"
proof (cases "st_PrimaryFailingSince (cl_Status (pa_cluster p))")
  case None
  have "marked_failing now (pa_latest p) = (stored (pa_latest p))\<lparr>st_PrimaryFailingSince := Some (truncate_second now)\<rparr>"
    by (simp add: marked_failing_def stored_def)
  then show ?thesis using recordPrimaryFailing_frame [OF assms(1)] None assms(2)
    by (simp add: failing_since_def synced_def)
next
  case (Some t)
  have "st = st\<lparr>st_PrimaryFailingSince := Some t\<rparr>" if "st_PrimaryFailingSince st = Some t" for st :: ClusterStatus
    using that by simp
  moreover have "c = c\<lparr>cl_Status := cl_Status c\<rparr>" for c :: Cluster by simp
  ultimately show ?thesis using recordPrimaryFailing_frame [OF assms(1)] Some assms(2)
    by (simp add: failing_since_def synced_def)
qed

section \<open>The pass as a whole\<close>

text \<open>What a pass that records no failover leaves of the promotion state.\<close>

definition same_promotion :: "ClusterStatus \<Rightarrow> ClusterStatus \<Rightarrow> bool" where
  "same_promotion st st' \<longleftrightarrow> st_TargetPrimary st' = st_TargetPrimary st \<and>
     st_LastFailoverTimestamp st' = st_LastFailoverTimestamp st \<and> st_CurrentPrimary st' = st_CurrentPrimary st"

lemma same_promotion_refl [simp]: "same_promotion st st"
  by (simp add: same_promotion_def)

lemma same_promotion_stored:
  assumes "stored st = st" "st_TargetPrimary (f st) = st_TargetPrimary st"
    "st_LastFailoverTimestamp (f st) = st_LastFailoverTimestamp st" "st_CurrentPrimary (f st) = st_CurrentPrimary st"
  shows "same_promotion st (stored (f st))"
  using assms stored_simps(12) [of st] by (simp add: same_promotion_def)

lemma recordPrimaryHealthy_frame:
  assumes "recordPrimaryHealthy now p = (r, p')" "synced p"
  shows "same_promotion (pa_latest p) (pa_latest p') \<and> pa_pods p' = pa_pods p"
proof -
  obtain r1 q where u: "PatchClusterStatus (\<lambda>status. status\<lparr>st_PrimaryFailingSince := None,
      st_PrimaryHealthySince := Some (truncate_second now)\<rparr>) p = (r1, q)" by force
  have "same_promotion (pa_latest p) (stored ((pa_latest p)\<lparr>st_PrimaryFailingSince := None,
      st_PrimaryHealthySince := Some (truncate_second now)\<rparr>))"
    using same_promotion_stored [of "pa_latest p" "\<lambda>st. st\<lparr>st_PrimaryFailingSince := None,
      st_PrimaryHealthySince := Some (truncate_second now)\<rparr>"] assms(2) by (simp add: synced_def)
  with PatchClusterStatus_frame [OF u] assms(1) u show ?thesis
    by (cases r1) (auto simp: recordPrimaryHealthy_def Let_def split: if_splits)
qed

text \<open>A pass either leaves the promotion state alone or performs a failover with every guard passed.\<close>

lemma failover_decide_cases:
  assumes "failover_decide recorder hash now request (known_diverged request p) p = ((res, err), p')" "synced p"
    and "primary = fs_PrimaryName (fr_Observed request)"
  shows "same_promotion (pa_latest p) (pa_latest p') \<or>
    (\<not> handoff_in_flight now request p \<and> EnableFailover (pa_cluster p) \<and>
     i64 (failover_delay (pa_cluster p) (fr_Observed request) hash - time_Sub now (failing_since now p)) \<le> 0 \<and>
     FailoverCooldownRemaining now (pa_cluster p) \<le> 0 \<and> cand_Name (pass_choice now request p) \<noteq> [] \<and>
     err = None \<and> Handled res \<and> \<not> lease_held now (pa_cluster p) primary (pa_lease p) \<and>
     pod_stopped primary (pa_pods p') (cl_Status (pa_cluster p)) \<and>
     pa_latest p' = failed_over now primary (pass_choice now request p) (pa_latest p))"
proof -
  let ?obs = "fr_Observed request" and ?known = "known_diverged request p" and ?c = "pa_cluster p"
  obtain r1 p1 where l: "targetHoldsPromotionLease now ?known p = (r1, p1)" by force
  note d = only_faultsD [OF targetHoldsPromotionLease_frame [OF l]]
  show ?thesis
  proof (cases "\<exists>b. r1 = Inr b \<and> \<not> switchoverInFlight now ?c ?obs ?known b \<and> EnableFailover ?c")
    case False
    then show ?thesis using assms(1) l d by (cases r1) (auto simp: failover_decide_def split: if_splits)
  next
    case True
    then have hf: "\<not> handoff_in_flight now request p"
      using targetHoldsPromotionLease_value l by (auto simp: handoff_in_flight_def)
    have ef: "EnableFailover ?c" using True by blast
    obtain r2 p2 where m: "recordPrimaryFailing now p1 = (r2, p2)" by force
    have s1: "synced p1" using assms(2) d by (simp add: synced_def)
    show ?thesis
    proof (cases r2)
      case (Inl e)
      then show ?thesis using assms(1) l m d True recordPrimaryFailing_frame [OF m]
        by (auto simp: failover_decide_def)
    next
      case (Inr since)
      have sy: "since = failing_since now p" "pa_latest p2 = (pa_latest p)\<lparr>st_PrimaryFailingSince := Some since\<rparr>"
        "pa_cluster p2 = ?c\<lparr>cl_Status := (cl_Status ?c)\<lparr>st_PrimaryFailingSince := Some since\<rparr>\<rparr>" "pa_lease p2 = pa_lease p"
        using recordPrimaryFailing_synced [OF m [unfolded Inr] s1] d by (simp_all add: failing_since_def)
      have e: "failover_elect recorder hash now request ?known since p2 = ((res, err), p')"
        using assms(1) l m d True Inr by (auto simp: failover_decide_def)
      show ?thesis
      proof (cases "pa_latest p' = pa_latest p2")
        case True
        then show ?thesis using sy(2) by (simp add: same_promotion_def)
      next
        case False
        have fo: "failed_over now primary x ((pa_latest p)\<lparr>st_PrimaryFailingSince := y\<rparr>) = failed_over now primary x (pa_latest p)" for x y
          by (simp add: failed_over_def)
        have ps: "pod_stopped n pods (st\<lparr>st_PrimaryFailingSince := y\<rparr>) = pod_stopped n pods st" for n pods st y
          by (simp add: pod_stopped_def cong: option.case_cong)
        from failover_elect_frame [OF e assms(3) False] failing_irrelevant [OF sy(3)] hf ef sy fo ps show ?thesis
          by (simp add: pass_choice_def)
      qed
    qed
  qed
qed

text \<open>Every condition for a failover in this pass.\<close>

definition failover_allowed :: "string \<Rightarrow> gotime \<Rightarrow> FailoverRequest \<Rightarrow> pass \<Rightarrow> bool" where
  "failover_allowed hash now request p \<longleftrightarrow>
     failover_wanted now request p \<and>
     i64 (failover_delay (pa_cluster p) (fr_Observed request) hash - time_Sub now (failing_since now p)) \<le> 0 \<and>
     FailoverCooldownRemaining now (pa_cluster p) \<le> 0 \<and> cand_Name (pass_choice now request p) \<noteq> [] \<and>
     \<not> lease_held now (pa_cluster p) (fs_PrimaryName (fr_Observed request)) (pa_lease p)"

lemma ReconcileFailover_cases:
  assumes "ReconcileFailover recorder hash now request p = ((res, err), p')" "synced p"
  shows "same_promotion (pa_latest p) (pa_latest p') \<or>
    (failover_allowed hash now request p \<and> err = None \<and> Handled res \<and>
     pod_stopped (fs_PrimaryName (fr_Observed request)) (pa_pods p') (cl_Status (pa_cluster p)) \<and>
     pa_latest p' = failed_over now (fs_PrimaryName (fr_Observed request)) (pass_choice now request p) (pa_latest p))"
proof -
  let ?obs = "fr_Observed request" and ?primary = "fs_PrimaryName (fr_Observed request)" and ?st = "cl_Status (pa_cluster p)"
  consider (early) "p' = p" | (healthy) r where "recordPrimaryHealthy now p = (r, p')"
    | (go) "failover_decide recorder hash now request (known_diverged request p) p = ((res, err), p')"
      "st_CurrentPrimary ?st \<noteq> []" "?primary \<noteq> []" "2 \<le> fr_Instances request" "\<not> PrimaryHealthy ?obs"
      "?primary \<in> set (fs_Fenced ?obs) \<longrightarrow> ?primary \<in> set (st_FencedInstances ?st)"
    using assms(1) by (auto simp: ReconcileFailover_def Let_def known_diverged_def split: if_splits prod.splits)
  then show ?thesis
  proof cases
    case early
    then show ?thesis by simp
  next
    case healthy
    then show ?thesis using recordPrimaryHealthy_frame [OF _ assms(2)] by blast
  next
    case go
    from failover_decide_cases [OF go(1) assms(2) refl] show ?thesis
      using go(2-6) unfolding failover_allowed_def failover_wanted_def Let_def by blast
  qed
qed

lemma ReconcileFailover_performs:
  assumes "failover_allowed hash now request p" "synced p" "pa_faults p = []"
    "ReconcileFailover recorder hash now request p = ((res, err), p')"
  shows "err = None \<and>
     pa_latest p' = failed_over now (fs_PrimaryName (fr_Observed request)) (pass_choice now request p) (pa_latest p)"
proof -
  let ?known = "known_diverged request p" and ?c = "pa_cluster p" and ?primary = "fs_PrimaryName (fr_Observed request)"
  note w = assms(1) [unfolded failover_allowed_def failover_wanted_def Let_def]
  have dec: "failover_decide recorder hash now request ?known p = ((res, err), p')"
    using w assms(4) by (auto simp: ReconcileFailover_def Let_def known_diverged_def)
  obtain since p2 where m: "recordPrimaryFailing now p = (Inr since, p2)" "pa_faults p2 = []"
    using recordPrimaryFailing_no_faults [OF assms(3)] by blast
  have sy: "since = failing_since now p" "pa_latest p2 = (pa_latest p)\<lparr>st_PrimaryFailingSince := Some since\<rparr>"
    "pa_cluster p2 = ?c\<lparr>cl_Status := (cl_Status ?c)\<lparr>st_PrimaryFailingSince := Some since\<rparr>\<rparr>" "pa_lease p2 = pa_lease p"
    using recordPrimaryFailing_synced [OF m(1) assms(2)] by simp_all
  have el: "failover_elect recorder hash now request ?known since p2 = ((res, err), p')"
    using dec w m targetHoldsPromotionLease_no_faults [OF assms(3), of now ?known]
    by (simp add: failover_decide_def handoff_in_flight_def)
  let ?el = "failover_choice now request ?known since ?c"
  have n: "cand_Name ?el \<noteq> []" using w sy(1) by (simp add: pass_choice_def)
  then obtain eng where eng: "ForFlavor (ResolvedFlavor ?c) = Inr eng"
    by (cases "ForFlavor (ResolvedFlavor ?c)") (auto simp: failover_choice_def refused_def)
  have ch: "failover_choice now request ?known since (pa_cluster p2) = ?el" by (rule failing_irrelevant(3) [OF sy(3)])
  have com: "failover_commit recorder now request ?el p2 = ((res, err), p')"
  proof -
    have "ResolvedFlavor (pa_cluster p2) = ResolvedFlavor ?c" using sy(3) by (simp add: ResolvedFlavor_def)
    then have "ForFlavor (ResolvedFlavor (pa_cluster p2)) = Inr eng" using eng by simp
    then show ?thesis using el w n ch failing_irrelevant(1,2) [OF sy(3)] sy(1)
      by (simp add: failover_elect_def Let_def failover_choice_def)
  qed
  have "\<not> lease_held now (pa_cluster p2) ?primary (pa_lease p2)"
    using w failing_irrelevant(4) [OF sy(3)] sy(4) by simp
  from failover_commit_no_faults [OF m(2) this] com have "err = None" by (metis Pair_inject)
  with failover_commit_frame [OF com refl] \<open>\<not> lease_held now (pa_cluster p2) ?primary (pa_lease p2)\<close> sy
  show ?thesis by (simp add: pass_choice_def failed_over_def)
qed

lemma failover_delay_elapsed:
  assumes "i64 (failover_delay c obs hash - time_Sub now since) \<le> 0"
    "0 \<le> cs_FailoverDelay (cl_Spec c)" "cs_FailoverDelay (cl_Spec c) \<le> MaxInt32" "0 \<le> now" "now < 2 ^ 62" "0 \<le> since" "since < 2 ^ 62"
  shows "since + cs_FailoverDelay (cl_Spec c) * Second \<le> now"
proof -
  let ?d = "cs_FailoverDelay (cl_Spec c) * Second" and ?f = "failover_delay c obs hash"
  have "?d \<ge> 0" "?d \<le> 2147483647000000000" using assms(2,3) by (simp_all add: Second_def MaxInt32_def)
  moreover from this have "i64 ?d = ?d" by (simp add: i64_def)
  moreover have "i64 ?d \<le> ?f" "?f \<le> max (i64 ?d) (30 * Second)"
    by (auto simp: failover_delay_def Let_def Second_def split: option.split)
  moreover have "time_Sub now since = now - since" using assms(4-7) by (simp add: time_Sub_def MaxInt64_def)
  ultimately show ?thesis using assms(1,4-7) by (auto simp: i64_def Second_def max_def split: if_splits)
qed

section \<open>A sequence of passes\<close>

text \<open>
  Failover passes at non-decreasing clock readings. Between two passes anything may change, by the
  instances, the users and the other reconcilers, except the configured cooldown and the record of the last
  failover. The list holds the times of the failovers so far, the latest first.
\<close>

inductive failover_run :: "int \<Rightarrow> gotime list \<Rightarrow> gotime \<Rightarrow> pass \<Rightarrow> bool" for cooldown :: int where
  run_start:
    "0 \<le> now \<Longrightarrow> failover_run cooldown [] now p"
| run_environment:
    "failover_run cooldown history now p \<Longrightarrow> now \<le> now' \<Longrightarrow>
     st_LastFailoverTimestamp (pa_latest p') = st_LastFailoverTimestamp (pa_latest p) \<Longrightarrow>
     failover_run cooldown history now' p'"
| run_pass:
    "failover_run cooldown history now p \<Longrightarrow> synced p \<Longrightarrow> MinTimeBetweenFailovers (pa_cluster p) = cooldown \<Longrightarrow>
     ReconcileFailover recorder hash now request p = (r, p') \<Longrightarrow>
     failover_run cooldown
       (if same_promotion (pa_latest p) (pa_latest p') then history else now # history) now p'"

lemma failover_run_invariant:
  assumes "failover_run cooldown history now p" "0 < cooldown"
  shows "0 \<le> now \<and> (\<forall>t \<in> set history. 0 \<le> t \<and> t \<le> now) \<and>
    (history \<noteq> [] \<longrightarrow> st_LastFailoverTimestamp (pa_latest p) = Some (truncate_second (hd history))) \<and>
    sorted_wrt (\<lambda>later earlier. earlier \<le> later \<and> earlier + cooldown < later + Second) history"
  using assms
proof (induction rule: failover_run.induct)
  case (run_pass history now p recorder hash request r p')
  obtain res err where r: "r = (res, err)" by force
  show ?case
  proof (cases "same_promotion (pa_latest p) (pa_latest p')")
    case True
    then show ?thesis using run_pass by (simp add: same_promotion_def)
  next
    case False
    with ReconcileFailover_cases [OF run_pass.hyps(4) [unfolded r] run_pass.hyps(2)]
    have al: "failover_allowed hash now request p" and
      st: "pa_latest p' = failed_over now (fs_PrimaryName (fr_Observed request)) (pass_choice now request p) (pa_latest p)" by auto
    have last: "st_LastFailoverTimestamp (pa_latest p') = Some (truncate_second now)" by (simp add: st failed_over_def)
    have "\<forall>t \<in> set history. t + cooldown < now + Second"
    proof (cases history)
      case (Cons b rest)
      have b: "st_LastFailoverTimestamp (cl_Status (pa_cluster p)) = Some (truncate_second b)" "0 \<le> b"
        using run_pass Cons by (auto simp: synced_def)
      have "zero_time < truncate_second b" using truncate_second_bounds(2) [of b] b(2) by (simp add: zero_time_def Second_def)
      then have nz: "primarySettledAt (pa_cluster p) \<noteq> zero_time" "truncate_second b \<le> primarySettledAt (pa_cluster p)"
        using primarySettledAt_ge_failover [OF b(1)] by auto
      have "FailoverCooldownRemaining now (pa_cluster p) = 0"
        using al by (auto simp: failover_allowed_def FailoverCooldownRemaining_def Let_def max_def split: if_splits)
      then have "truncate_second b + cooldown \<le> now"
        using cooldown_elapsed [of "pa_cluster p" now] run_pass nz by auto
      then have bb: "b + cooldown < now + Second" using truncate_second_bounds(2) [of b] by simp
      have "t \<le> b" if "t \<in> set rest" for t using run_pass Cons that by auto
      then show ?thesis using bb Cons by force
    qed simp
    then show ?thesis using False last run_pass by auto
  qed
qed auto

section \<open>Properties\<close>

lemma pass_choice_fit:
  assumes "cand_Name (pass_choice now request p) \<noteq> []"
  shows "cand_Name (pass_choice now request p) \<in> set (fs_InstanceNames (fr_Observed request)) -
      ({fs_PrimaryName (fr_Observed request)} \<union> set (fs_Fenced (fr_Observed request)) \<union>
       set (fs_Diverged (fr_Observed request)) \<union> set (st_DivergedInstances (cl_Status (pa_cluster p))))"
proof -
  let ?e = "\<lambda>M. failover_election now (pa_cluster p) request M (known_diverged request p) (failing_since now p)"
  obtain eng where eng: "ForFlavor (ResolvedFlavor (pa_cluster p)) = Inr eng"
    using assms by (cases "ForFlavor (ResolvedFlavor (pa_cluster p))") (auto simp: pass_choice_def failover_choice_def refused_def)
  then have ch: "pass_choice now request p = SelectFailoverCandidate (?e (eng_GTID eng))"
    by (simp add: pass_choice_def failover_choice_def)
  have "eng_GTID eng = mysqlGTID \<or> eng_GTID eng = mariadbGTID"
    using eng by (auto simp: ForFlavor_def mysqlEngine_def mariadbEngine_def split: if_splits)
  then have "cand_Name (pass_choice now request p) \<in> set (fs_InstanceNames (el_Observed (?e (eng_GTID eng)))) \<and>
      is_candidate (?e (eng_GTID eng)) (cand_Name (pass_choice now request p))"
    using mysql.elected_fit [of "?e (eng_GTID eng)"] mariadb.elected_fit [of "?e (eng_GTID eng)"] assms ch
    by (auto simp: failover_election_def Let_def)
  then show ?thesis by (auto simp: is_candidate_def failover_election_def known_diverged_def Let_def)
qed

definition wit_pass :: pass where
  "wit_pass =
     (let st = zero_status\<lparr>st_InstanceNames := [''db-1'', ''db-2'', ''db-3''], st_CurrentPrimary := ''db-1'',
            st_TargetPrimary := ''db-1'', st_PrimaryFailingSince := Some (10 * Second),
            st_GTIDExecutedByInstance := [(''db-1'', ''u:1-20'')]\<rparr>;
          c = cluster_of ''db'' (zero_spec\<lparr>cs_Instances := 3, cs_FailoverDelay := 30\<rparr>) st
      in \<lparr>pa_cluster = c, pa_latest = st, pa_pods = [(''db-1'', \<lparr>pod_Deleting = False, pod_Annotations = []\<rparr>)],
          pa_lease = None, pa_events = [], pa_faults = []\<rparr>)"

definition wit_request :: FailoverRequest where
  "wit_request = \<lparr>fr_Instances = 3, fr_Observed = el_Observed wit_election, fr_RetryInterval = 5 * Second,
     fr_ProvisioningRetry = 7 * Second, fr_DisownedGTIDs = []\<rparr>"

lemma wit_pass_synced: "synced wit_pass"
  by (simp add: synced_def wit_pass_def Let_def stored_def zero_status_def truncate_second_def Second_def)

lemma wit_pass_moves:
  "st_TargetPrimary (pa_latest (snd (ReconcileFailover True [] (50 * Second) wit_request wit_pass))) = ''db-2''"
  by code_simp

lemma wit_pass_result:
  "ReconcileFailover True [] (50 * Second) wit_request wit_pass =
     ((fst (fst (ReconcileFailover True [] (50 * Second) wit_request wit_pass)),
       snd (fst (ReconcileFailover True [] (50 * Second) wit_request wit_pass))),
      snd (ReconcileFailover True [] (50 * Second) wit_request wit_pass))"
  by simp

lemma wit_pass_not_same:
  "\<not> same_promotion (pa_latest wit_pass) (pa_latest (snd (ReconcileFailover True [] (50 * Second) wit_request wit_pass)))"
  using wit_pass_moves by (simp add: same_promotion_def wit_pass_def Let_def)

text \<open>
  C18. A pass moves the role only when the expected primary is known, at least two instances are
  wanted, the primary is unhealthy and not under an unacknowledged fence, no handoff is in flight, failover is
  enabled, the primary has been failing for the configured delay and the cooldown has passed.
\<close>

theorem failover_guarded:
  assumes "ReconcileFailover recorder hash now request p = ((res, err), p')" "synced p"
    "\<not> same_promotion (pa_latest p) (pa_latest p')"
    "0 \<le> cs_FailoverDelay (cl_Spec (pa_cluster p))" "cs_FailoverDelay (cl_Spec (pa_cluster p)) \<le> MaxInt32"
    "0 \<le> now" "now < 2 ^ 62" "0 \<le> failing_since now p" "failing_since now p < 2 ^ 62"
  shows "failover_wanted now request p \<and>
    failing_since now p + cs_FailoverDelay (cl_Spec (pa_cluster p)) * Second \<le> now \<and>
    FailoverCooldownRemaining now (pa_cluster p) \<le> 0"
proof -
  have al: "failover_allowed hash now request p" using ReconcileFailover_cases [OF assms(1,2)] assms(3) by blast
  then have "failing_since now p + cs_FailoverDelay (cl_Spec (pa_cluster p)) * Second \<le> now"
    unfolding failover_allowed_def using failover_delay_elapsed assms(4-9) by blast
  with al show ?thesis by (simp add: failover_allowed_def)
qed

theorem failover_guarded_witness:
  "failover_wanted (50 * Second) wit_request wit_pass \<and> failing_since (50 * Second) wit_pass + 30 * Second \<le> 50 * Second"
proof -
  have s: "failing_since (50 * Second) wit_pass = 10 * Second" "cs_FailoverDelay (cl_Spec (pa_cluster wit_pass)) = 30"
    by (simp_all add: failing_since_def wit_pass_def Let_def)
  have "failover_wanted (50 * Second) wit_request wit_pass \<and>
      failing_since (50 * Second) wit_pass + cs_FailoverDelay (cl_Spec (pa_cluster wit_pass)) * Second \<le> 50 * Second \<and>
      FailoverCooldownRemaining (50 * Second) (pa_cluster wit_pass) \<le> 0"
    by (rule failover_guarded [OF wit_pass_result wit_pass_synced wit_pass_not_same]) (simp_all add: failing_since_def wit_pass_def Let_def Second_def MaxInt32_def)
  then show ?thesis by (simp add: s)
qed

text \<open>
  C19. When a pass moves the role, the old primary is out first: its lease is not held and its Pod is
  gone, being deleted, or stopped by an acknowledged fence. The status names the elected replica as the
  target, a listed instance that is not the old primary, neither fenced nor diverged, and stamps the
  failover.
\<close>

theorem failover_fences_first:
  assumes "ReconcileFailover recorder hash now request p = ((res, err), p')" "synced p"
    "\<not> same_promotion (pa_latest p) (pa_latest p')"
  shows "\<not> lease_held now (pa_cluster p) (fs_PrimaryName (fr_Observed request)) (pa_lease p) \<and>
    pod_stopped (fs_PrimaryName (fr_Observed request)) (pa_pods p') (cl_Status (pa_cluster p)) \<and>
    st_TargetPrimary (pa_latest p') \<in> set (fs_InstanceNames (fr_Observed request)) -
      ({fs_PrimaryName (fr_Observed request)} \<union> set (fs_Fenced (fr_Observed request)) \<union>
       set (fs_Diverged (fr_Observed request)) \<union> set (st_DivergedInstances (cl_Status (pa_cluster p)))) \<and>
    st_LastFailoverTimestamp (pa_latest p') = Some (truncate_second now) \<and>
    st_PrimaryHealthySince (pa_latest p') = None \<and> st_PrimaryFailingSince (pa_latest p') = None"
proof -
  have c: "failover_allowed hash now request p"
    "pod_stopped (fs_PrimaryName (fr_Observed request)) (pa_pods p') (cl_Status (pa_cluster p))"
    "pa_latest p' = failed_over now (fs_PrimaryName (fr_Observed request)) (pass_choice now request p) (pa_latest p)"
    using ReconcileFailover_cases [OF assms(1,2)] assms(3) by blast+
  have n: "cand_Name (pass_choice now request p) \<noteq> []" using c(1) by (simp add: failover_allowed_def)
  then have "cand_Name (pass_choice now request p) \<in> set (fs_InstanceNames (fr_Observed request)) -
      ({fs_PrimaryName (fr_Observed request)} \<union> set (fs_Fenced (fr_Observed request)) \<union>
       set (fs_Diverged (fr_Observed request)) \<union> set (st_DivergedInstances (cl_Status (pa_cluster p))))"
    by (rule pass_choice_fit)
  then show ?thesis using c by (simp add: failover_allowed_def failed_over_def)
qed

theorem failover_fences_first_witness:
  "pod_stopped ''db-1'' (pa_pods (snd (ReconcileFailover True [] (50 * Second) wit_request wit_pass))) (cl_Status (pa_cluster wit_pass))"
  using failover_fences_first [OF wit_pass_result wit_pass_synced wit_pass_not_same]
  by (simp add: wit_request_def wit_election_def)

text \<open>
  C21. A failover that is allowed happens: with no failing call, a pass in which every condition holds
  and the election names a replica returns no error and leaves that replica as the target.
\<close>

theorem failover_happens:
  assumes "failover_allowed hash now request p" "synced p" "pa_faults p = []"
  shows "\<exists>res p'. ReconcileFailover recorder hash now request p = ((res, None), p') \<and>
    st_TargetPrimary (pa_latest p') = cand_Name (pass_choice now request p) \<and>
    st_Phase (pa_latest p') = PhaseFailingOver \<and> st_LastFailoverTimestamp (pa_latest p') = Some (truncate_second now)"
proof -
  obtain res err p' where r: "ReconcileFailover recorder hash now request p = ((res, err), p')" by (metis surj_pair)
  from ReconcileFailover_performs [OF assms r] r show ?thesis by (auto simp: failed_over_def)
qed

theorem failover_happens_witness:
  "failover_allowed [] (50 * Second) wit_request wit_pass \<and>
   (\<exists>res p'. ReconcileFailover True [] (50 * Second) wit_request wit_pass = ((res, None), p'))"
proof -
  have a: "failover_allowed [] (50 * Second) wit_request wit_pass"
    using ReconcileFailover_cases [OF wit_pass_result wit_pass_synced] wit_pass_not_same by blast
  have f: "pa_faults wit_pass = []" by (simp add: wit_pass_def Let_def)
  from failover_happens [OF a wit_pass_synced f, of True] a show ?thesis by blast
qed




definition wit_spaced :: "gotime option \<Rightarrow> pass" where
  "wit_spaced stamp =
     (let st = (pa_latest wit_pass)\<lparr>st_LastFailoverTimestamp := stamp\<rparr>;
          policy = \<lparr>fp_MaxTransactionsBehind = None, fp_MaxReplicationLag = None, fp_PreferredPrimary = [],
            fp_MinTimeBetweenFailovers = Some (60 * Second), fp_PrimaryStabilityWindow = None\<rparr>
      in wit_pass\<lparr>pa_latest := st, pa_cluster := (pa_cluster wit_pass)\<lparr>cl_Status := st,
           cl_Spec := (cl_Spec (pa_cluster wit_pass))\<lparr>cs_FailoverPolicy := Some policy\<rparr>\<rparr>\<rparr>)"


end
