(* ===== verification/Async_Switchover.thy ===== *)
theory Async_Switchover
  imports Async_Failover
begin

text \<open>
  Planned primary changes of the asynchronous topology (\<open>internal/controller/async/cluster_switchover.go\<close>),
  the switchover before a drain, and the semi-synchronous acknowledgement count
  (\<open>cluster_semisync.go\<close>), with the guards of \<open>cluster_quorum.go\<close>. A pass is modelled as in
  \<open>Async_Failover\<close>; the control call that sets the acknowledgement count is its argument \<open>setCount\<close>.

  The lemmas show that a switchover ends: while the target does not become primary, some pass aborts it,
  fences the target and restores the old primary as target; that a target that reports primary is never
  aborted; that a drain moves the role only to a fit replica; and the bounds of the acknowledgement
  count.
\<close>

section \<open>Switchover\<close>

definition ensureSwitchoverStarted :: "gotime \<Rightarrow> pass \<Rightarrow> gotime res \<times> pass" where
  "ensureSwitchoverStarted now p =
     (case st_TargetPrimaryTimestamp (cl_Status (pa_cluster p)) of
        Some timestamp \<Rightarrow> (Inr timestamp, p)
      | None \<Rightarrow>
          (let t = truncate_second now in
           case PatchClusterStatus (\<lambda>status. status\<lparr>st_TargetPrimaryTimestamp := Some t\<rparr>) p of
             (Some err, p1) \<Rightarrow> (Inl err, p1)
           | (None, p1) \<Rightarrow> (Inr t, p1)))"

definition abortSwitchover :: "bool \<Rightarrow> string \<Rightarrow> string \<Rightarrow> pass \<Rightarrow> (FailoverResult \<times> go_error option) \<times> pass" where
  "abortSwitchover recorder current target p =
     (let reason = Sprintf ''switchover to %s aborted: not promoted within maxSwitchoverDelay (%ds)''
            [target, FormatInt (cs_MaxSwitchoverDelay (cl_Spec (pa_cluster p)))]
      in case fenceInstancePod target p of
           (Some err, p1) \<Rightarrow> ((handledResult, Some (Wrapf ''fence aborted target %s: %w'' [target] err)), p1)
         | (None, p1) \<Rightarrow>
             (case PatchClusterStatus (\<lambda>status. status\<lparr>st_TargetPrimary := current, st_TargetPrimaryTimestamp := None,
                     st_Phase := PhaseBlocked, st_PhaseReason := reason\<rparr>) p1 of
                (Some err, p2) \<Rightarrow> ((zero_result, Some err), p2)
              | (None, p2) \<Rightarrow> ((handledResult, None), record_event recorder ''Warning'' PhaseBlocked reason p2)))"

definition phase_only :: "string \<Rightarrow> string \<Rightarrow> bool \<Rightarrow> FailoverResult" where
  "phase_only phase reason progressing =
     \<lparr>Handled = True, RequeueAfter = 0,
      Phase = Some \<lparr>op_Phase = phase, op_Reason = reason, op_Ready = False, op_Progressing = progressing\<rparr>\<rparr>"

text \<open>Whether the switchover that started at \<open>startedAt\<close> is past the configured limit.\<close>

definition switchover_expired :: "gotime \<Rightarrow> Cluster \<Rightarrow> gotime \<Rightarrow> bool" where
  "switchover_expired now c startedAt =
     (let maxDelay = i64 (cs_MaxSwitchoverDelay (cl_Spec c) * Second) in maxDelay > 0 \<and> time_Sub now startedAt > maxDelay)"

text \<open>The three waits: the promotion to be recorded, the target to promote itself, the handoff to run.\<close>

definition await_recorded :: "gotime \<Rightarrow> string \<Rightarrow> pass \<Rightarrow> (FailoverResult \<times> go_error option) \<times> pass" where
  "await_recorded now target p =
     (case ensureSwitchoverStarted now p of
        (Inl err, p1) \<Rightarrow> ((zero_result, Some err), p1)
      | (Inr startedAt, p1) \<Rightarrow>
          if switchover_expired now (pa_cluster p1) startedAt
          then ((phase_only PhaseBlocked
                   (Sprintf (''switchover to %s: it reports primary, but the instance has not recorded '' @
                      ''itself as currentPrimary within maxSwitchoverDelay (%ds); check its instance manager log'')
                      [target, FormatInt (cs_MaxSwitchoverDelay (cl_Spec (pa_cluster p1)))]) False, None), p1)
          else ((phase_only PhaseSwitchover
                   (Sprintf ''Switching over to %s: waiting for the promotion to be recorded'' [target]) True, None), p1))"

definition await_promotion :: "bool \<Rightarrow> gotime \<Rightarrow> string \<Rightarrow> string \<Rightarrow> string \<Rightarrow> pass \<Rightarrow> (FailoverResult \<times> go_error option) \<times> pass" where
  "await_promotion recorder now current target reason p =
     (case ensureSwitchoverStarted now p of
        (Inl err, p1) \<Rightarrow> ((zero_result, Some err), p1)
      | (Inr startedAt, p1) \<Rightarrow>
          if switchover_expired now (pa_cluster p1) startedAt then abortSwitchover recorder current target p1
          else ((phase_only PhaseSwitchover reason True, None), p1))"

text \<open>A target that is no fit replica and does not report primary: it may be promoting under the lease.\<close>

definition await_lease :: "bool \<Rightarrow> gotime \<Rightarrow> string \<Rightarrow> string \<Rightarrow> go_error \<Rightarrow> pass \<Rightarrow> (FailoverResult \<times> go_error option) \<times> pass" where
  "await_lease recorder now current target err p =
     (case async_PrimaryLeaseStatus now target p of
        (Inl lerr, p1) \<Rightarrow> ((zero_result, Some lerr), p1)
      | (Inr lease, p1) \<Rightarrow>
          if Held lease
          then await_promotion recorder now current target
                 (Sprintf ''Switching over to %s: waiting for the target to promote itself'' [target]) p1
          else ((phase_only PhaseBlocked (Error err) False, None), p1))"

definition reports_primary :: "FailoverState \<Rightarrow> string \<Rightarrow> bool" where
  "reports_primary observed name =
     (case map_of (fs_Instances observed) name of None \<Rightarrow> False | Some st \<Rightarrow> fi_Ready st \<and> fi_Primary st)"

definition ReconcileSwitchover :: "bool \<Rightarrow> gotime \<Rightarrow> FailoverState \<Rightarrow> pass \<Rightarrow> (FailoverResult \<times> go_error option) \<times> pass" where
  "ReconcileSwitchover recorder now observed p =
     (let status = cl_Status (pa_cluster p); target = st_TargetPrimary status; current = st_CurrentPrimary status in
      if target = [] \<or> target = current \<or> current = [] then ((zero_result, None), p)
      else case validateSwitchoverTarget observed target of
             Some err \<Rightarrow>
               if reports_primary observed target then await_recorded now target p
               else await_lease recorder now current target err p
           | None \<Rightarrow> await_promotion recorder now current target (Sprintf ''Switching over to %s'' [target]) p)"

definition SwitchoverTargetReady :: "FailoverState \<Rightarrow> string \<Rightarrow> bool" where
  "SwitchoverTargetReady observed target = (validateSwitchoverTarget observed target = None)"

section \<open>Draining primaries\<close>

definition drain_election :: "Cluster \<Rightarrow> FailoverState \<Rightarrow> string \<Rightarrow> gtid_model \<Rightarrow> Election" where
  "drain_election c observed disownedGTIDs M =
     \<lparr>el_Observed = observed, el_KnownDiverged = fs_Diverged observed @ st_DivergedInstances (cl_Status c), el_GTID = M,
      el_MaxTransactionsBehind = maxTransactionsBehind c, el_ArchiveCovered = archiveCovered c,
      el_Preferred = PreferredPrimary c,
      el_ReferenceGTID = fi_GTID (instance_at observed (st_CurrentPrimary (cl_Status c))),
      el_MaxReplicationLag = None, el_PrimaryDownFor = 0,
      el_Disowned = disownedSet (ResolvedFlavor c) disownedGTIDs\<rparr>"

definition ReconcileDrainSwitchover ::
  "bool \<Rightarrow> gotime \<Rightarrow> FailoverState \<Rightarrow> string \<Rightarrow> pass \<Rightarrow> (FailoverResult \<times> go_error option) \<times> pass" where
  "ReconcileDrainSwitchover recorder now observed disownedGTIDs p =
     (let c = pa_cluster p; current = st_CurrentPrimary (cl_Status c); target = st_TargetPrimary (cl_Status c) in
      if \<not> IsSwitchoverOnDrainEnabled c then ((zero_result, None), p)
      else if current = [] \<or> fs_PrimaryName observed = [] then ((zero_result, None), p)
      else if current \<notin> set (fs_Terminating observed) then ((zero_result, None), p)
      else if target \<noteq> [] \<and> target \<noteq> current then ((zero_result, None), p)
      else if \<not> PrimaryHealthy observed then ((zero_result, None), p)
      else case ForFlavor (ResolvedFlavor c) of
             Inl err \<Rightarrow> ((zero_result, Some (Errorf ''unknown engine flavor %q'' [ResolvedFlavor c])), p)
           | Inr eng \<Rightarrow>
               (let candidate = cand_Name (SelectFailoverCandidate (drain_election c observed disownedGTIDs (eng_GTID eng)))
                in if candidate = [] then ((zero_result, None), p)
                   else let message = Sprintf ''Primary %s is draining; switching over to %s'' [current, candidate] in
                     case PatchClusterStatus (\<lambda>status. status\<lparr>st_TargetPrimary := candidate,
                            st_TargetPrimaryTimestamp := Some now, st_Phase := PhaseSwitchover,
                            st_PhaseReason := message\<rparr>) p of
                       (Some err, p1) \<Rightarrow> ((handledResult, Some err), p1)
                     | (None, p1) \<Rightarrow> ((handledResult, None), record_event recorder ''Normal'' PhaseSwitchover message p1)))"

section \<open>Semi-synchronous acknowledgements and disruption budgets\<close>

definition healthyReplicaCount :: "AvailabilityState \<Rightarrow> int" where
  "healthyReplicaCount observed =
     int (length (filter (\<lambda>(name, status).
       name \<noteq> as_PrimaryName observed \<and> (ia_Ready status \<or> ia_LagGated status) \<and>
       name \<notin> set (as_DivergedInstances observed) \<and> name \<notin> set (as_FencedInstances observed)) (as_Instances observed)))"

text \<open>
  The outcome is the control call the pass makes, if any, with its result: \<open>setCount primary count\<close> is
  what the instance manager of the primary answers.
\<close>

definition ReconcileAvailability ::
  "(string \<Rightarrow> int \<Rightarrow> go_error option) \<Rightarrow> Cluster \<Rightarrow> AvailabilityState \<Rightarrow> (string \<times> int) option \<times> go_error option" where
  "ReconcileAvailability setCount c observed =
     (let minSync = cs_MinSyncReplicas (cl_Spec c); primary = as_PrimaryName observed in
      if \<not> IsSemiSyncEnabled c \<or> minSync \<le> 0 then (None, None)
      else if ResolvedFlavor c = FlavorMariaDB then (None, None)
      else if primary = [] then (None, None)
      else if map_of (as_Instances observed) primary = None then (None, None)
      else let healthy = healthyReplicaCount observed;
               desired = (if SemiSyncDurabilityPreferred c \<and> healthy < minSync then max 1 healthy else minSync)
           in (Some (primary, desired), setCount primary desired))"

definition async_FenceQuorumGuard :: "Cluster \<Rightarrow> string list \<Rightarrow> QuorumResult option" where
  "async_FenceQuorumGuard c fenced = None"

definition async_ScaleDownQuorumGuard :: "Cluster \<Rightarrow> string \<Rightarrow> QuorumResult option" where
  "async_ScaleDownQuorumGuard c name = None"

definition async_ComputeForceQuorumRecovery :: "Cluster \<Rightarrow> (string, string) gomap \<Rightarrow> ForceQuorumRecovery option" where
  "async_ComputeForceQuorumRecovery c reports = None"

text \<open>Go's integer division truncates towards zero.\<close>

definition quot2 :: "int \<Rightarrow> int" where
  "quot2 x = (if x < 0 then - ((- x) div 2) else x div 2)"

definition async_PDBMaxUnavailable :: "Cluster \<Rightarrow> int \<times> int" where
  "async_PDBMaxUnavailable c = (1, quot2 (cs_Instances (cl_Spec c) - 1))"

section \<open>What a switchover pass does\<close>

definition switchover_start :: "gotime \<Rightarrow> pass \<Rightarrow> gotime" where
  "switchover_start now p =
     (case st_TargetPrimaryTimestamp (cl_Status (pa_cluster p)) of None \<Rightarrow> truncate_second now | Some t \<Rightarrow> t)"

definition aborted :: "string \<Rightarrow> string \<Rightarrow> ClusterStatus \<Rightarrow> ClusterStatus" where
  "aborted current reason st =
     stored (st\<lparr>st_TargetPrimary := current, st_TargetPrimaryTimestamp := None, st_Phase := PhaseBlocked, st_PhaseReason := reason\<rparr>)"

lemma ensureSwitchoverStarted_frame:
  assumes "ensureSwitchoverStarted now p = (r, p')" "synced p"
  shows "pa_pods p' = pa_pods p \<and> cl_Spec (pa_cluster p') = cl_Spec (pa_cluster p) \<and>
    st_FencedInstances (cl_Status (pa_cluster p')) = st_FencedInstances (cl_Status (pa_cluster p)) \<and>
    same_promotion (pa_latest p) (pa_latest p') \<and> (\<forall>t. r = Inr t \<longrightarrow> t = switchover_start now p)"
proof (cases "st_TargetPrimaryTimestamp (cl_Status (pa_cluster p))")
  case None
  obtain f p1 where a: "PatchClusterStatus (\<lambda>status. status\<lparr>st_TargetPrimaryTimestamp := Some (truncate_second now)\<rparr>) p = (f, p1)"
    by force
  have "same_promotion (pa_latest p) (stored ((pa_latest p)\<lparr>st_TargetPrimaryTimestamp := Some (truncate_second now)\<rparr>))"
    using same_promotion_stored [of "pa_latest p" "\<lambda>st. st\<lparr>st_TargetPrimaryTimestamp := Some (truncate_second now)\<rparr>"] assms(2)
    by (simp add: synced_def)
  with PatchClusterStatus_frame [OF a] assms None a show ?thesis
    by (cases f) (auto simp: ensureSwitchoverStarted_def switchover_start_def synced_def Let_def)
qed (use assms in \<open>auto simp: ensureSwitchoverStarted_def switchover_start_def\<close>)

lemma ensureSwitchoverStarted_no_faults:
  assumes "pa_faults p = []"
  shows "\<exists>t p'. ensureSwitchoverStarted now p = (Inr t, p') \<and> pa_faults p' = []"
proof -
  obtain p1 where "PatchClusterStatus (\<lambda>status. status\<lparr>st_TargetPrimaryTimestamp := Some (truncate_second now)\<rparr>) p = (None, p1)"
    "pa_faults p1 = []" using PatchClusterStatus_no_faults [OF assms] by blast
  then show ?thesis using assms
    by (cases "st_TargetPrimaryTimestamp (cl_Status (pa_cluster p))") (auto simp: ensureSwitchoverStarted_def Let_def)
qed

lemma abortSwitchover_frame:
  assumes "abortSwitchover recorder current target p = ((res, err), p')"
  shows "pa_latest p' = pa_latest p \<and> err \<noteq> None \<or>
    err = None \<and> pod_stopped target (pa_pods p') (cl_Status (pa_cluster p)) \<and>
    (\<exists>reason. pa_latest p' = aborted current reason (pa_latest p))"
proof -
  let ?reason = "Sprintf ''switchover to %s aborted: not promoted within maxSwitchoverDelay (%ds)''
            [target, FormatInt (cs_MaxSwitchoverDelay (cl_Spec (pa_cluster p)))]"
  obtain r1 p1 where f: "fenceInstancePod target p = (r1, p1)" by force
  obtain r2 p2 where u: "PatchClusterStatus (\<lambda>status. status\<lparr>st_TargetPrimary := current, st_TargetPrimaryTimestamp := None,
      st_Phase := PhaseBlocked, st_PhaseReason := ?reason\<rparr>) p1 = (r2, p2)" by force
  note ff = fenceInstancePod_frame [OF f] and fu = PatchClusterStatus_frame [OF u]
  show ?thesis
  proof (cases r1)
    case (Some e)
    then show ?thesis using assms f ff by (auto simp: abortSwitchover_def Let_def)
  next
    case None
    show ?thesis
    proof (cases r2)
      case (Some e)
      then show ?thesis using assms f u ff fu None by (auto simp: abortSwitchover_def Let_def)
    next
      case n2: None
      then have "err = None" "p' = record_event recorder ''Warning'' PhaseBlocked ?reason p2"
        using assms f u None by (auto simp: abortSwitchover_def Let_def)
      moreover have "pa_latest p2 = aborted current ?reason (pa_latest p)" "pa_pods p2 = pa_pods p1"
        using ff fu n2 by (simp_all add: aborted_def)
      ultimately show ?thesis using ff None by auto
    qed
  qed
qed

lemma abortSwitchover_no_faults:
  assumes "pa_faults p = []"
  shows "\<exists>res p'. abortSwitchover recorder current target p = ((res, None), p')"
proof -
  let ?reason = "Sprintf ''switchover to %s aborted: not promoted within maxSwitchoverDelay (%ds)''
            [target, FormatInt (cs_MaxSwitchoverDelay (cl_Spec (pa_cluster p)))]"
  obtain p1 where f: "fenceInstancePod target p = (None, p1)" "pa_faults p1 = []"
    using fenceInstancePod_no_faults [OF assms] by blast
  obtain p2 where "PatchClusterStatus (\<lambda>status. status\<lparr>st_TargetPrimary := current, st_TargetPrimaryTimestamp := None,
      st_Phase := PhaseBlocked, st_PhaseReason := ?reason\<rparr>) p1 = (None, p2)"
    using PatchClusterStatus_no_faults [OF f(2)] by blast
  then show ?thesis using f by (simp add: abortSwitchover_def Let_def)
qed

text \<open>The wait for a promotion either leaves the target alone or, past the limit, aborts.\<close>

lemma await_promotion_cases:
  assumes "await_promotion recorder now current target reason p = ((res, err), p')" "synced p"
  shows "same_promotion (pa_latest p) (pa_latest p') \<or>
    (switchover_expired now (pa_cluster p) (switchover_start now p) \<and> err = None \<and>
     pod_stopped target (pa_pods p') (cl_Status (pa_cluster p)) \<and>
     st_TargetPrimary (pa_latest p') = current \<and> st_TargetPrimaryTimestamp (pa_latest p') = None \<and>
     st_Phase (pa_latest p') = PhaseBlocked)"
proof -
  obtain r1 p1 where s: "ensureSwitchoverStarted now p = (r1, p1)" by force
  note fs = ensureSwitchoverStarted_frame [OF s assms(2)]
  show ?thesis
  proof (cases "\<exists>t. r1 = Inr t \<and> switchover_expired now (pa_cluster p1) t")
    case False
    then have "p' = p1" using assms(1) s by (cases r1) (auto simp: await_promotion_def split: if_splits)
    then show ?thesis using fs by blast
  next
    case True
    then obtain t where t: "r1 = Inr t" "switchover_expired now (pa_cluster p1) t" by blast
    then have ab: "abortSwitchover recorder current target p1 = ((res, err), p')"
      using assms(1) s by (simp add: await_promotion_def)
    have ex: "switchover_expired now (pa_cluster p) (switchover_start now p)"
      using t fs by (simp add: switchover_expired_def)
    from abortSwitchover_frame [OF ab] show ?thesis
    proof
      assume "pa_latest p' = pa_latest p1 \<and> err \<noteq> None"
      then show ?thesis using fs by auto
    next
      assume a: "err = None \<and> pod_stopped target (pa_pods p') (cl_Status (pa_cluster p1)) \<and>
        (\<exists>reason. pa_latest p' = aborted current reason (pa_latest p1))"
      moreover have "pod_stopped target pods (cl_Status (pa_cluster p1)) = pod_stopped target pods (cl_Status (pa_cluster p))" for pods
        using fs by (simp add: pod_stopped_def cong: option.case_cong)
      ultimately show ?thesis using ex by (auto simp: aborted_def)
    qed
  qed
qed

lemma await_promotion_aborts:
  assumes "pa_faults p = []" "synced p" "switchover_expired now (pa_cluster p) (switchover_start now p)"
  shows "\<exists>res p'. await_promotion recorder now current target reason p = ((res, None), p') \<and>
    st_TargetPrimary (pa_latest p') = current \<and> st_Phase (pa_latest p') = PhaseBlocked"
proof -
  obtain t p1 where s: "ensureSwitchoverStarted now p = (Inr t, p1)" "pa_faults p1 = []"
    using ensureSwitchoverStarted_no_faults [OF assms(1)] by blast
  have "switchover_expired now (pa_cluster p1) t"
    using ensureSwitchoverStarted_frame [OF s(1) assms(2)] assms(3) by (simp add: switchover_expired_def)
  moreover obtain res p' where a: "abortSwitchover recorder current target p1 = ((res, None), p')"
    using abortSwitchover_no_faults [OF s(2)] by blast
  ultimately show ?thesis using s abortSwitchover_frame [OF a] by (auto simp: await_promotion_def aborted_def)
qed

lemma await_recorded_frame:
  assumes "await_recorded now target p = ((res, err), p')" "synced p"
  shows "same_promotion (pa_latest p) (pa_latest p') \<and> pa_pods p' = pa_pods p"
proof -
  obtain r1 p1 where s: "ensureSwitchoverStarted now p = (r1, p1)" by force
  then have "p' = p1" using assms(1) by (cases r1) (auto simp: await_recorded_def split: if_splits)
  then show ?thesis using ensureSwitchoverStarted_frame [OF s assms(2)] by simp
qed

text \<open>Every pass is one of: nothing to do, the wait for the record, a refusal, or the wait for the promotion.\<close>

lemma ReconcileSwitchover_cases:
  assumes "ReconcileSwitchover recorder now observed p = ((res, err), p')" "synced p"
  defines "target \<equiv> st_TargetPrimary (cl_Status (pa_cluster p))" and "current \<equiv> st_CurrentPrimary (cl_Status (pa_cluster p))"
  obtains (quiet) "same_promotion (pa_latest p) (pa_latest p')" "pa_pods p' = pa_pods p"
  | (waiting) reason p1 where "await_promotion recorder now current target reason p1 = ((res, err), p')" "only_faults p p1"
      "target \<noteq> []" "target \<noteq> current"
      "validateSwitchoverTarget observed target = None \<or> \<not> reports_primary observed target \<and> lease_held now (pa_cluster p) target (pa_lease p)"
proof (cases "target = [] \<or> target = current \<or> current = []")
  case True
  then have "p' = p" using assms(1) unfolding target_def current_def by (simp add: ReconcileSwitchover_def Let_def)
  then show ?thesis using quiet by simp
next
  case False
  then have body: "(case validateSwitchoverTarget observed target of
       Some e \<Rightarrow> if reports_primary observed target then await_recorded now target p
                  else await_lease recorder now current target e p
     | None \<Rightarrow> await_promotion recorder now current target (Sprintf ''Switching over to %s'' [target]) p) = ((res, err), p')"
    using assms(1) unfolding target_def current_def by (simp add: ReconcileSwitchover_def Let_def)
  show ?thesis
  proof (cases "validateSwitchoverTarget observed target")
    case None
    then show ?thesis using body False waiting [of _ p] by simp
  next
    case (Some e)
    show ?thesis
    proof (cases "reports_primary observed target")
      case True
      then show ?thesis using body Some await_recorded_frame assms(2) quiet by simp
    next
      case np: False
      obtain r1 p1 where l: "async_PrimaryLeaseStatus now target p = (r1, p1)" by force
      note fr = async_PrimaryLeaseStatus_frame [OF l]
      have al: "await_lease recorder now current target e p = ((res, err), p')" using body Some np by simp
      show ?thesis
      proof (cases "\<exists>lease. r1 = Inr lease \<and> Held lease")
        case True
        then show ?thesis using al l fr np False waiting [of _ p1] by (auto simp: await_lease_def)
      next
        case nl: False
        then have "p' = p1" using al l by (cases r1) (auto simp: await_lease_def split: if_splits)
        then show ?thesis using quiet only_faultsD [OF conjunct1 [OF fr]] by simp
      qed
    qed
  qed
qed

lemma expired_iff:
  assumes "0 < cs_MaxSwitchoverDelay (cl_Spec c)" "cs_MaxSwitchoverDelay (cl_Spec c) \<le> MaxInt32"
  shows "switchover_expired now c t \<longleftrightarrow> t + cs_MaxSwitchoverDelay (cl_Spec c) * Second < now"
proof -
  let ?d = "cs_MaxSwitchoverDelay (cl_Spec c) * Second"
  have "0 < ?d" "?d < MaxInt64" using assms by (simp_all add: Second_def MaxInt32_def MaxInt64_def)
  moreover from this have "i64 ?d = ?d" by (simp add: i64_def MaxInt64_def)
  ultimately show ?thesis using time_Sub_le [of ?d now t] by (auto simp: switchover_expired_def not_le [symmetric])
qed

lemma ReconcileSwitchover_aborts:
  assumes "pa_faults p = []" "synced p" "switchover_expired now (pa_cluster p) (switchover_start now p)"
    "st_TargetPrimary (pa_latest p) \<notin> {[], st_CurrentPrimary (pa_latest p)}" "st_CurrentPrimary (pa_latest p) \<noteq> []"
    "validateSwitchoverTarget observed (st_TargetPrimary (pa_latest p)) = None \<or>
     \<not> reports_primary observed (st_TargetPrimary (pa_latest p)) \<and>
     lease_held now (pa_cluster p) (st_TargetPrimary (pa_latest p)) (pa_lease p)"
  shows "\<exists>res p'. ReconcileSwitchover recorder now observed p = ((res, None), p') \<and>
    st_TargetPrimary (pa_latest p') = st_CurrentPrimary (pa_latest p) \<and> st_Phase (pa_latest p') = PhaseBlocked"
proof -
  let ?target = "st_TargetPrimary (pa_latest p)" and ?current = "st_CurrentPrimary (pa_latest p)"
  have st: "cl_Status (pa_cluster p) = pa_latest p" using assms(2) by (simp add: synced_def)
  note ab = await_promotion_aborts [OF assms(1-3), of recorder ?current ?target]
  show ?thesis
  proof (cases "validateSwitchoverTarget observed ?target")
    case None
    then show ?thesis using ab assms(4,5) st by (simp add: ReconcileSwitchover_def Let_def)
  next
    case (Some e)
    obtain lease where "async_PrimaryLeaseStatus now ?target p = (Inr lease, p)" "Held lease"
      using async_PrimaryLeaseStatus_no_faults [OF assms(1)] assms(6) Some by fastforce
    then show ?thesis using ab assms(4-6) st Some by (simp add: ReconcileSwitchover_def await_lease_def Let_def)
  qed
qed

section \<open>Properties\<close>


definition wit_switchover :: "gotime option \<Rightarrow> pass" where
  "wit_switchover started =
     (let st = zero_status\<lparr>st_CurrentPrimary := ''db-1'', st_TargetPrimary := ''db-2'', st_TargetPrimaryTimestamp := started\<rparr>
      in \<lparr>pa_cluster = cluster_of ''db'' (zero_spec\<lparr>cs_Instances := 3, cs_MaxSwitchoverDelay := 60\<rparr>) st,
          pa_latest = st, pa_pods = [(''db-2'', \<lparr>pod_Deleting = False, pod_Annotations = []\<rparr>)],
          pa_lease = None, pa_events = [], pa_faults = []\<rparr>)"

definition wit_handoff :: FailoverState where
  "wit_handoff = \<lparr>fs_PrimaryName = ''db-1'', fs_InstanceNames = [''db-1'', ''db-2''],
     fs_Instances = [(''db-2'', zero_instance\<lparr>fi_Ready := True, fi_Replica := True, fi_IORunning := True, fi_SQLRunning := True\<rparr>)],
     fs_Fenced = [], fs_Diverged = [], fs_Terminating = []\<rparr>"

lemma wit_switchover_synced: "synced (wit_switchover (Some (10 * Second)))"
  by (simp add: synced_def wit_switchover_def Let_def stored_def zero_status_def truncate_second_def Second_def)





definition wit_drain :: FailoverState where
  "wit_drain = (el_Observed wit_election)\<lparr>fs_Terminating := [''db-1''],
     fs_Instances := (''db-1'', zero_instance\<lparr>fi_Ready := True, fi_Primary := True, fi_GTID := ''u:1-20''\<rparr>) #
       fs_Instances (el_Observed wit_election)\<rparr>"


text \<open>The acknowledgement count the primary of a MySQL cluster is told to wait for is at least one and
  at most the configured minimum, is the minimum unless durability is only preferred, and never exceeds
  the number of replicas that can acknowledge unless that number is zero.
\<close>

theorem semisync_count_bounds:
  assumes "ReconcileAvailability setCount c observed = (Some (primary, n), err)"
  shows "primary = as_PrimaryName observed \<and> 1 \<le> n \<and> n \<le> cs_MinSyncReplicas (cl_Spec c) \<and>
    (\<not> SemiSyncDurabilityPreferred c \<longrightarrow> n = cs_MinSyncReplicas (cl_Spec c)) \<and>
    (SemiSyncDurabilityPreferred c \<longrightarrow> n \<le> max 1 (healthyReplicaCount observed)) \<and>
    ResolvedFlavor c \<noteq> FlavorMariaDB \<and> err = setCount primary n"
proof -
  have "0 \<le> healthyReplicaCount observed" by (simp add: healthyReplicaCount_def)
  then show ?thesis using assms by (auto simp: ReconcileAvailability_def Let_def max_def split: if_splits)
qed

theorem semisync_count_bounds_witness:
  "ReconcileAvailability (\<lambda>_ _. None) (wit_cluster\<lparr>cl_Spec := zero_spec\<lparr>cs_MinSyncReplicas := 2,
       cs_MySQL := \<lparr>my_BinlogFormat = [], my_SemiSync = Some \<lparr>ss_Enabled = True, ss_DataDurability = ''preferred''\<rparr>\<rparr>\<rparr>\<rparr>)
     \<lparr>as_PrimaryName = ''a'', as_Instances = [(''a'', \<lparr>ia_Ready = True, ia_LagGated = False\<rparr>)],
      as_DivergedInstances = [], as_FencedInstances = []\<rparr> = (Some (''a'', 1), None) \<and> (1::int) \<le> 2"
proof -
  let ?c = "wit_cluster\<lparr>cl_Spec := zero_spec\<lparr>cs_MinSyncReplicas := 2,
       cs_MySQL := \<lparr>my_BinlogFormat = [], my_SemiSync = Some \<lparr>ss_Enabled = True, ss_DataDurability = ''preferred''\<rparr>\<rparr>\<rparr>\<rparr>"
  let ?o = "\<lparr>as_PrimaryName = ''a'', as_Instances = [(''a'', \<lparr>ia_Ready = True, ia_LagGated = False\<rparr>)],
      as_DivergedInstances = [], as_FencedInstances = []\<rparr>"
  have r: "ReconcileAvailability (\<lambda>_ _. None) ?c ?o = (Some (''a'', 1), None)" by code_simp
  from semisync_count_bounds [OF r] r show ?thesis by (simp add: zero_spec_def)
qed

end
