(* ===== verification/Group_Replication.thy ===== *)
theory Group_Replication
  imports Async_Switchover
begin

text \<open>
  The Group Replication topology (\<open>internal/controller/groupreplication\<close>): the quorum guards and the
  choice of a survivor (\<open>cluster_quorum.go\<close>), the aggregation of the members' views
  (\<open>cluster_observation.go\<close>), the planned switchover (\<open>cluster_switchover.go\<close>), the donor check and
  the pinned group name (\<open>cluster_provisioning.go\<close>).

  \<open>visit\<close> is the order in which \<open>range\<close> visits the votes, a map built by the function itself. The
  instance managers are parameters: \<open>query\<close> reads an instance's status and \<open>setAsPrimary\<close> asks for a
  new primary. The cluster's namespace is the argument \<open>namespace\<close>.

  The lemmas show that guards and disruption budget leave a majority, that any two majorities meet, that a
  survivor holds what the other members are known to hold, that the primary a quorate view elects does not
  depend on the order of the votes, and the sticky invariants of the merged status.
\<close>

section \<open>Quorum\<close>

definition MemberStateOnline :: string where "MemberStateOnline = ''ONLINE''"

definition MemberStateRecovering :: string where "MemberStateRecovering = ''RECOVERING''"

definition MemberStateUnreachable :: string where "MemberStateUnreachable = ''UNREACHABLE''"

definition MemberRolePrimary :: string where "MemberRolePrimary = ''PRIMARY''"

definition MemberRoleSecondary :: string where "MemberRoleSecondary = ''SECONDARY''"

definition quorum :: "int \<Rightarrow> int" where
  "quorum members = (if members \<le> 0 then 1 else members div 2 + 1)"

definition is_active :: "GroupMember \<Rightarrow> bool" where
  "is_active m \<longleftrightarrow> gm_State m = MemberStateOnline \<or> gm_State m = MemberStateRecovering"

definition FenceQuorumGuard :: "Cluster \<Rightarrow> string list \<Rightarrow> QuorumResult option" where
  "FenceQuorumGuard c fenceSet =
     (let q = quorum (cs_Instances (cl_Spec c)) in
      case st_GroupReplication (cl_Status c) of
        None \<Rightarrow> None
      | Some gr \<Rightarrow>
          (let online = int (length (filter is_active (gs_Members gr)));
               fencing = int (length (filter (\<lambda>name. list_ex (\<lambda>m. gm_Instance m = name) (gs_Members gr)) fenceSet));
               after = online - fencing
           in if after < q
              then Some \<lparr>qr_Blocked = True,
                qr_Reason = Sprintf ''fencing %d member(s) would drop the group to %d active members, below quorum (%d)''
                  [FormatInt fencing, FormatInt after, FormatInt q],
                qr_CurrentSize = online, qr_Quorum = q\<rparr>
              else None))"

definition PDBMaxUnavailable :: "Cluster \<Rightarrow> int \<times> int" where
  "PDBMaxUnavailable c =
     (let n = cs_Instances (cl_Spec c); q = quorum n in (min (max (n - q) 0) MaxInt32, 0))"

definition ScaleDownQuorumGuard :: "Cluster \<Rightarrow> string \<Rightarrow> QuorumResult option" where
  "ScaleDownQuorumGuard c instanceName =
     (let n = cs_Instances (cl_Spec c) in
      if n \<le> 1
      then Some \<lparr>qr_Blocked = True, qr_Reason = ''cannot scale below 1 member'', qr_CurrentSize = n, qr_Quorum = 1\<rparr>
      else let after = n - 1; q = quorum after in
        if after < q
        then Some \<lparr>qr_Blocked = True,
          qr_Reason = Sprintf ''scaling down to %d members would drop below quorum (%d)'' [FormatInt after, FormatInt q],
          qr_CurrentSize = n, qr_Quorum = q\<rparr>
        else None)"

section \<open>Survivors\<close>

fun dominatesAll :: "GroupMember \<Rightarrow> string \<Rightarrow> GroupMember list \<Rightarrow> (string, string) gomap \<Rightarrow> bool" where
  "dominatesAll candidate candidateGTID [] gtidByInstance = True"
| "dominatesAll candidate candidateGTID (other # online) gtidByInstance =
     (if gm_Instance other = gm_Instance candidate then dominatesAll candidate candidateGTID online gtidByInstance
      else let otherGTID = string_at gtidByInstance (gm_Instance other) in
        if otherGTID = [] then dominatesAll candidate candidateGTID online gtidByInstance
        else case GTIDContains candidateGTID otherGTID of
               Inl err \<Rightarrow> False
             | Inr holds \<Rightarrow> if \<not> holds then False else dominatesAll candidate candidateGTID online gtidByInstance)"

fun dominant_member :: "GroupMember list \<Rightarrow> (string, string) gomap \<Rightarrow> GroupMember list \<Rightarrow> GroupMember option" where
  "dominant_member online gtidByInstance [] = None"
| "dominant_member online gtidByInstance (candidate # rest) =
     (let candidateGTID = string_at gtidByInstance (gm_Instance candidate) in
      if candidateGTID = [] then dominant_member online gtidByInstance rest
      else if dominatesAll candidate candidateGTID online gtidByInstance then Some candidate
      else dominant_member online gtidByInstance rest)"

definition selectQuorumSurvivor :: "GroupMember list \<Rightarrow> (string, string) gomap \<Rightarrow> GroupMember option" where
  "selectQuorumSurvivor online gtidByInstance =
     (case online of
        [] \<Rightarrow> None
      | [m] \<Rightarrow> Some m
      | _ \<Rightarrow>
          (case find (\<lambda>m. gm_Role m = MemberRolePrimary) online of
             Some m \<Rightarrow> Some m
           | None \<Rightarrow> dominant_member online gtidByInstance online))"

fun gtidDominatesAll :: "string \<Rightarrow> string list \<Rightarrow> string \<Rightarrow> (string, string) gomap \<Rightarrow> bool" where
  "gtidDominatesAll candidateGTID [] candidate gtidByInstance = True"
| "gtidDominatesAll candidateGTID (other # names) candidate gtidByInstance =
     (if other = candidate then gtidDominatesAll candidateGTID names candidate gtidByInstance
      else case GTIDContains candidateGTID (string_at gtidByInstance other) of
             Inl err \<Rightarrow> False
           | Inr holds \<Rightarrow>
               if \<not> holds then False else gtidDominatesAll candidateGTID names candidate gtidByInstance)"

fun rebootstrap_loop :: "string list \<Rightarrow> (string, string) gomap \<Rightarrow> string list \<Rightarrow> string option" where
  "rebootstrap_loop names gtidByInstance [] = None"
| "rebootstrap_loop names gtidByInstance (candidate # rest) =
     (let candidateGTID = string_at gtidByInstance candidate in
      if candidateGTID = [] then rebootstrap_loop names gtidByInstance rest
      else if gtidDominatesAll candidateGTID names candidate gtidByInstance then Some candidate
      else rebootstrap_loop names gtidByInstance rest)"

definition selectRebootstrapSurvivor :: "(string, string) gomap \<Rightarrow> int \<Rightarrow> string option" where
  "selectRebootstrapSurvivor gtidByInstance configured =
     (if configured \<le> 0 \<or> int (length gtidByInstance) < configured then None
      else let names = sort (map fst gtidByInstance) in rebootstrap_loop names gtidByInstance names)"

definition QuorumRecoveryForceMembers :: string where "QuorumRecoveryForceMembers = ''force_members''"

definition QuorumRecoveryRebootstrap :: string where "QuorumRecoveryRebootstrap = ''rebootstrap''"

definition memberAddress :: "string \<Rightarrow> string \<Rightarrow> string" where
  "memberAddress name namespace = Sprintf ''%s.%s.svc:%d'' [name, namespace, FormatInt 33061]"

definition computeRebootstrap :: "Cluster \<Rightarrow> (string, string) gomap \<Rightarrow> ForceQuorumRecovery option" where
  "computeRebootstrap c gtidByInstance =
     (case selectRebootstrapSurvivor gtidByInstance (cs_Instances (cl_Spec c)) of
        None \<Rightarrow> None
      | Some survivor \<Rightarrow> Some \<lparr>fq_Action = QuorumRecoveryRebootstrap, fq_Survivor = survivor, fq_ForceMembers = []\<rparr>)"

definition ComputeForceQuorumRecovery :: "string \<Rightarrow> Cluster \<Rightarrow> (string, string) gomap \<Rightarrow> ForceQuorumRecovery option" where
  "ComputeForceQuorumRecovery namespace c gtidByInstance =
     (case st_GroupReplication (cl_Status c) of
        None \<Rightarrow> None
      | Some gr \<Rightarrow>
          if gs_HasQuorum gr then None
          else let online = filter (\<lambda>m. gm_State m = MemberStateOnline) (gs_Members gr) in
            if online = []
            then let primary = st_CurrentPrimary (cl_Status c) in
              if primary \<noteq> []
              then Some \<lparr>fq_Action = QuorumRecoveryRebootstrap, fq_Survivor = primary, fq_ForceMembers = []\<rparr>
              else computeRebootstrap c gtidByInstance
            else (case selectQuorumSurvivor online gtidByInstance of
                    None \<Rightarrow> None
                  | Some survivor \<Rightarrow>
                      Some \<lparr>fq_Action = QuorumRecoveryForceMembers, fq_Survivor = gm_Instance survivor,
                        fq_ForceMembers = memberAddress (gm_Instance survivor) namespace\<rparr>))"

section \<open>Observation\<close>

fun uuid_loop :: "(string, InstanceStatus) gomap \<Rightarrow> (string, string) gomap \<Rightarrow> (string, string) gomap" where
  "uuid_loop [] uuidToInstance = uuidToInstance"
| "uuid_loop ((name, status) # rest) uuidToInstance =
     uuid_loop rest
       (case is_GroupReplication status of
          None \<Rightarrow> uuidToInstance
        | Some g \<Rightarrow> if grs_MemberID g \<noteq> [] then AList.update (grs_MemberID g) name uuidToInstance else uuidToInstance)"

text \<open>The count of ONLINE members and the one ONLINE primary of a view; a second primary ends the loop.\<close>

fun scan_members :: "GroupReplicationMember list \<Rightarrow> int \<Rightarrow> string \<Rightarrow> int \<times> string" where
  "scan_members [] onlineCount primaryID = (onlineCount, primaryID)"
| "scan_members (member # members) onlineCount primaryID =
     (let onlineCount = (if grm_State member = MemberStateOnline then onlineCount + 1 else onlineCount) in
      if grm_State member = MemberStateOnline \<and> grm_Role member = MemberRolePrimary
      then if primaryID \<noteq> [] then (onlineCount, []) else scan_members members onlineCount (grm_MemberID member)
      else scan_members members onlineCount primaryID)"

record view_scan =
  vs_view :: "GroupReplicationMemberStatus option"
  vs_votes :: "(string, int) gomap"
  vs_max :: int

definition group_at :: "ObservationInput \<Rightarrow> string \<Rightarrow> GroupReplicationMemberStatus option" where
  "group_at input name =
     (case map_of (oi_StatusByInstance input) name of None \<Rightarrow> None | Some status \<Rightarrow> is_GroupReplication status)"

fun views_loop :: "ObservationInput \<Rightarrow> string list \<Rightarrow> view_scan \<Rightarrow> view_scan" where
  "views_loop input [] s = s"
| "views_loop input (name # names) s =
     views_loop input names
       (case group_at input name of
          None \<Rightarrow> s
        | Some g \<Rightarrow>
            if grs_State g \<noteq> MemberStateOnline then s
            else let (onlineCount, primaryID) = scan_members (grs_Members g) 0 [] in
              if onlineCount * 2 \<le> int (length (grs_Members g)) then s
              else \<lparr>vs_view = (if vs_view s = None then Some g else vs_view s),
                    vs_votes = (if primaryID \<noteq> []
                      then AList.update primaryID (count_at (vs_votes s) primaryID + 1) (vs_votes s) else vs_votes s),
                    vs_max = max (vs_max s) (int (length (grs_Members g)))\<rparr>)"

fun vote_winner :: "int \<Rightarrow> (string, int) gomap \<Rightarrow> string" where
  "vote_winner maxViewMembers [] = []"
| "vote_winner maxViewMembers ((candidate, votes) # rest) =
     (if votes * 2 > maxViewMembers then candidate else vote_winner maxViewMembers rest)"

definition quorumDenominator :: "int \<Rightarrow> int \<Rightarrow> int \<Rightarrow> int" where
  "quorumDenominator configured observedMax currentMax =
     (if observedMax > 0 \<and> observedMax \<ge> configured then observedMax else currentMax)"

definition observeGroup ::
  "((string, int) gomap \<Rightarrow> (string, int) gomap) \<Rightarrow> ObservationInput \<Rightarrow> GroupReplicationStatus option \<times> string" where
  "observeGroup visit input =
     (let uuidToInstance = uuid_loop (oi_StatusByInstance input) [];
          s = views_loop input (oi_InstanceNames input) \<lparr>vs_view = None, vs_votes = [], vs_max = 0\<rparr>
      in case vs_view s of
           None \<Rightarrow> (None, [])
         | Some view \<Rightarrow>
             (let primaryInstance = string_at uuidToInstance (vote_winner (vs_max s) (visit (vs_votes s)));
                  members = map (\<lambda>m. \<lparr>gm_Instance = string_at uuidToInstance (grm_MemberID m), gm_State = grm_State m,
                    gm_Role = grm_Role m, gm_Reachable = (grm_State m \<noteq> MemberStateUnreachable)\<rparr>) (grs_Members view);
                  onlineCount = int (length (filter (\<lambda>m. grm_State m = MemberStateOnline) (grs_Members view)))
              in (Some \<lparr>gs_GroupName = [], gs_Bootstrapped = False, gs_PrimaryMember = primaryInstance, gs_Members = members,
                    gs_HasQuorum = (onlineCount * 2 > quorumDenominator (oi_ConfiguredMembers input) (oi_ObservedViewMax input) (vs_max s)),
                    gs_ObservedViewMax = vs_max s, gs_ObservedOnlineMax = onlineCount, gs_ViewID = grs_ViewID view,
                    gs_CommunicationProtocol = grs_CommunicationProtocol view, gs_CommunicationProtocolTarget = []\<rparr>,
                  primaryInstance)))"

definition gr_Observe :: "((string, int) gomap \<Rightarrow> (string, int) gomap) \<Rightarrow> ObservationInput \<Rightarrow> Observation" where
  "gr_Observe visit input =
     (let (status, primary) = observeGroup visit input in
      \<lparr>ob_PrimaryName = primary, ob_PrimaryAuthoritative = True, ob_DivergedInstances = [],
       ob_ReplicationBrokenInstances = [], ob_GroupReplication = status\<rparr>)"

section \<open>The merged status\<close>

definition zero_group :: GroupReplicationStatus where
  "zero_group = \<lparr>gs_GroupName = [], gs_Bootstrapped = False, gs_PrimaryMember = [], gs_Members = [], gs_HasQuorum = False,
     gs_ObservedViewMax = 0, gs_ObservedOnlineMax = 0, gs_ViewID = [], gs_CommunicationProtocol = [],
     gs_CommunicationProtocolTarget = []\<rparr>"

definition merge_sticky :: "GroupReplicationStatus option \<Rightarrow> GroupReplicationStatus" where
  "merge_sticky existing =
     (case existing of
        None \<Rightarrow> zero_group
      | Some e \<Rightarrow> zero_group\<lparr>gs_GroupName := gs_GroupName e, gs_Bootstrapped := gs_Bootstrapped e,
          gs_ObservedViewMax := gs_ObservedViewMax e, gs_ObservedOnlineMax := gs_ObservedOnlineMax e,
          gs_CommunicationProtocolTarget := gs_CommunicationProtocolTarget e\<rparr>)"

definition merge_observed :: "GroupReplicationStatus option \<Rightarrow> GroupReplicationStatus \<Rightarrow> GroupReplicationStatus \<Rightarrow> GroupReplicationStatus" where
  "merge_observed existing status merged =
     (let recovering = (case existing of None \<Rightarrow> True | Some e \<Rightarrow> \<not> gs_HasQuorum e);
          fresh = (recovering \<and> gs_HasQuorum status)
      in merged\<lparr>gs_PrimaryMember := gs_PrimaryMember status, gs_Members := gs_Members status,
           gs_ViewID := gs_ViewID status, gs_CommunicationProtocol := gs_CommunicationProtocol status,
           gs_CommunicationProtocolTarget :=
             (if gs_CommunicationProtocolTarget status \<noteq> [] then gs_CommunicationProtocolTarget status
              else gs_CommunicationProtocolTarget merged),
           gs_ObservedViewMax := (if fresh then gs_ObservedViewMax status
             else max (gs_ObservedViewMax merged) (gs_ObservedViewMax status)),
           gs_ObservedOnlineMax := (if fresh then gs_ObservedOnlineMax status
             else max (gs_ObservedOnlineMax merged) (gs_ObservedOnlineMax status)),
           gs_Bootstrapped := (if gs_PrimaryMember status \<noteq> [] then True else gs_Bootstrapped merged)\<rparr>)"

definition merge_clamp :: "int \<Rightarrow> GroupReplicationStatus \<Rightarrow> GroupReplicationStatus" where
  "merge_clamp n merged =
     (if n > 0 then merged\<lparr>gs_ObservedViewMax := min (gs_ObservedViewMax merged) n,
        gs_ObservedOnlineMax := min (gs_ObservedOnlineMax merged) n\<rparr> else merged)"

definition merge_quorum :: "GroupReplicationStatus \<Rightarrow> GroupReplicationStatus" where
  "merge_quorum merged =
     (if gs_ObservedViewMax merged > 0
      then merged\<lparr>gs_HasQuorum := (int (length (filter (\<lambda>m. gm_State m = MemberStateOnline) (gs_Members merged))) * 2 >
             gs_ObservedViewMax merged)\<rparr>
      else merged)"

definition MergeStatus :: "Cluster \<Rightarrow> Observation \<Rightarrow> Cluster" where
  "MergeStatus c observed =
     (let st = cl_Status c; existing = st_GroupReplication st; merged = merge_sticky existing;
          (merged, st) = (case ob_GroupReplication observed of
             None \<Rightarrow> (merged, st)
           | Some status \<Rightarrow>
               (merge_observed existing status merged,
                if gs_PrimaryMember status \<noteq> []
                then st\<lparr>st_CurrentPrimaryGeneration :=
                       (if st_CurrentPrimary st \<noteq> gs_PrimaryMember status
                        then st_CurrentPrimaryGeneration st + 1 else st_CurrentPrimaryGeneration st),
                     st_CurrentPrimary := gs_PrimaryMember status\<rparr>
                else st));
          merged = merge_quorum (merge_clamp (cs_Instances (cl_Spec c)) merged)
      in c\<lparr>cl_Status := st\<lparr>st_GroupReplication := Some merged\<rparr>\<rparr>)"

definition ObservedFailover :: "Cluster \<Rightarrow> Cluster \<Rightarrow> string \<times> string \<times> bool" where
  "ObservedFailover before after =
     (let from = st_CurrentPrimary (cl_Status before); to = st_CurrentPrimary (cl_Status after) in
      if from = [] \<or> to = [] \<or> from = to \<or> st_TargetPrimary (cl_Status before) = to then ([], [], False)
      else (from, to, True))"

definition gr_DonorAvailable :: "Observation \<Rightarrow> bool" where
  "gr_DonorAvailable observed =
     (case ob_GroupReplication observed of
        None \<Rightarrow> False
      | Some g \<Rightarrow> gs_HasQuorum g \<and> list_ex (\<lambda>m. gm_State m = MemberStateOnline) (gs_Members g))"

section \<open>Configuration and switchover\<close>

text \<open>\<open>freshUUID\<close> is what \<open>uuid.NewString\<close> returns.\<close>

definition DesiredGroupName :: "string \<Rightarrow> Cluster \<Rightarrow> string" where
  "DesiredGroupName freshUUID c = (let name = groupName c in if name \<noteq> [] then name else freshUUID)"

definition EnsureConfigured :: "string \<Rightarrow> pass \<Rightarrow> go_error option \<times> pass" where
  "EnsureConfigured freshUUID p =
     (if PinnedGroupName (pa_cluster p) \<noteq> [] then (None, p)
      else let name = DesiredGroupName freshUUID (pa_cluster p) in
        PatchClusterStatus (\<lambda>status.
          let g = (case st_GroupReplication status of None \<Rightarrow> zero_group | Some g \<Rightarrow> g)
          in status\<lparr>st_GroupReplication := Some (if gs_GroupName g = [] then g\<lparr>gs_GroupName := name\<rparr> else g)\<rparr>) p)"

definition short_host :: "string \<Rightarrow> string" where
  "short_host host = (case cut_at CHR ''.'' host of (lo, hi, found) \<Rightarrow> if found \<and> lo \<noteq> [] then lo else host)"

definition memberUUIDForInstance :: "(string \<Rightarrow> InstanceStatus res) \<Rightarrow> string \<Rightarrow> string \<Rightarrow> string res" where
  "memberUUIDForInstance query queryInstance targetInstance =
     (case query queryInstance of
        Inl err \<Rightarrow> Inl (Wrapf ''querying status of %s: %w'' [queryInstance] err)
      | Inr status \<Rightarrow>
          (case is_GroupReplication status of
             None \<Rightarrow> Inl (Errorf ''instance %s has no Group Replication status'' [queryInstance])
           | Some g \<Rightarrow>
               (case find (\<lambda>m. grm_Host m \<noteq> [] \<and> short_host (grm_Host m) = targetInstance) (grs_Members g) of
                  None \<Rightarrow> Inl (Errorf ''instance %s is not in the group view of %s'' [targetInstance, queryInstance])
                | Some m \<Rightarrow> Inr (grm_MemberID m))))"

text \<open>\<open>ensureSwitchoverStarted\<close> is the code of the asynchronous topology; the abort fences nothing.\<close>

definition gr_abortSwitchover :: "string \<Rightarrow> pass \<Rightarrow> (FailoverResult \<times> go_error option) \<times> pass" where
  "gr_abortSwitchover current p =
     (case PatchClusterStatus (\<lambda>status. status\<lparr>st_TargetPrimary := current, st_TargetPrimaryTimestamp := None\<rparr>) p of
        (Some err, p1) \<Rightarrow> ((zero_result, Some err), p1)
      | (None, p1) \<Rightarrow> ((handledResult, None), p1))"

text \<open>The last component is the request for a new primary the pass makes, if any.\<close>

definition gr_handoff ::
  "(string \<Rightarrow> string \<Rightarrow> go_error option) \<Rightarrow> gotime \<Rightarrow> string \<Rightarrow> string \<Rightarrow> string \<Rightarrow> pass \<Rightarrow>
   ((FailoverResult \<times> go_error option) \<times> pass) \<times> (string \<times> string) option" where
  "gr_handoff setAsPrimary now current target targetUUID p =
     (case ensureSwitchoverStarted now p of
        (Inl err, p1) \<Rightarrow> (((zero_result, Some err), p1), None)
      | (Inr startedAt, p1) \<Rightarrow>
          if switchover_expired now (pa_cluster p1) startedAt then (gr_abortSwitchover current p1, None)
          else case setAsPrimary current targetUUID of
                 Some err \<Rightarrow> (((zero_result, None), p1), Some (current, targetUUID))
               | None \<Rightarrow> (((phase_only PhaseSwitchover (Sprintf ''Switching over to %s'' [target]) True, None), p1),
                          Some (current, targetUUID)))"

definition gr_ReconcileSwitchover ::
  "(string \<Rightarrow> InstanceStatus res) \<Rightarrow> (string \<Rightarrow> string \<Rightarrow> go_error option) \<Rightarrow> gotime \<Rightarrow> pass \<Rightarrow>
   ((FailoverResult \<times> go_error option) \<times> pass) \<times> (string \<times> string) option" where
  "gr_ReconcileSwitchover query setAsPrimary now p =
     (let status = cl_Status (pa_cluster p); target = st_TargetPrimary status; current = st_CurrentPrimary status in
      if target = [] \<or> target = current \<or> current = [] then (((zero_result, None), p), None)
      else case memberUUIDForInstance query current target of
             Inl err \<Rightarrow> (((zero_result, None), p), None)
           | Inr targetUUID \<Rightarrow>
               (case st_GroupReplication status of
                  None \<Rightarrow> (((zero_result, None), p), None)
                | Some gr \<Rightarrow>
                    (case find (\<lambda>m. gm_Instance m = target) (gs_Members gr) of
                       None \<Rightarrow> (((zero_result, None), p), None)
                     | Some m \<Rightarrow>
                         if gm_State m \<noteq> MemberStateOnline \<or> gm_Role m \<noteq> MemberRoleSecondary
                         then (((zero_result, None), p), None)
                         else gr_handoff setAsPrimary now current target targetUUID p)))"

definition gr_SwitchoverTargetReady :: "Cluster \<Rightarrow> FailoverState \<Rightarrow> string \<Rightarrow> bool" where
  "gr_SwitchoverTargetReady c observed target =
     (case map_of (fs_Instances observed) target of
        None \<Rightarrow> False
      | Some status \<Rightarrow>
          if \<not> fi_Ready status then False
          else case st_GroupReplication (cl_Status c) of
                 None \<Rightarrow> False
               | Some gr \<Rightarrow>
                   (case find (\<lambda>m. gm_Instance m = target) (gs_Members gr) of
                      None \<Rightarrow> False
                    | Some m \<Rightarrow> gm_State m = MemberStateOnline \<and> gm_Role m = MemberRoleSecondary))"

section \<open>Majorities\<close>

lemma quorum_majority: "0 < n \<Longrightarrow> n < 2 * quorum n \<and> 2 * (quorum n - 1) \<le> n"
  by (simp add: quorum_def) presburger

lemma majorities_meet:
  assumes "finite U" "A \<subseteq> U" "B \<subseteq> U" "quorum (int (card U)) \<le> int (card A)" "quorum (int (card U)) \<le> int (card B)"
  shows "A \<inter> B \<noteq> {}"
proof
  assume "A \<inter> B = {}"
  then have "card A + card B = card (A \<union> B)" using assms(1-3) by (metis card_Un_disjoint finite_subset)
  also have "\<dots> \<le> card U" using assms(1-3) by (auto intro: card_mono)
  finally have "card A + card B \<le> card U" .
  moreover have "0 < quorum (int (card U))" by (auto simp: quorum_def)
  moreover from this have "0 < card U" using assms(1,2,4) card_mono [OF assms(1,2)] by linarith
  ultimately show False using quorum_majority [of "int (card U)"] assms(4,5) by linarith
qed

lemma length_filter_distinct_le:
  assumes "distinct (map f xs)" "f ` set xs \<subseteq> set ys"
  shows "length xs \<le> length ys"
proof -
  have "length xs = card (set (map f xs))" using distinct_card [OF assms(1)] by simp
  also have "\<dots> \<le> card (set ys)" using assms(2) by (intro card_mono) auto
  also have "\<dots> \<le> length ys" by (rule card_length)
  finally show ?thesis .
qed

lemma FenceQuorumGuard_sound:
  assumes "st_GroupReplication (cl_Status c) = Some gr" "FenceQuorumGuard c fenceSet = None"
    "distinct (map gm_Instance (filter (\<lambda>m. gm_Instance m \<in> set fenceSet) (gs_Members gr)))"
  shows "quorum (cs_Instances (cl_Spec c)) \<le>
    int (length (filter (\<lambda>m. is_active m \<and> gm_Instance m \<notin> set fenceSet) (gs_Members gr)))"
proof -
  let ?ms = "gs_Members gr"
  let ?gone = "filter (\<lambda>m. gm_Instance m \<in> set fenceSet) (filter is_active ?ms)"
  let ?fenced = "filter (\<lambda>name. list_ex (\<lambda>m. gm_Instance m = name) ?ms) fenceSet"
  have "distinct (map gm_Instance ?gone)"
  proof -
    have "?gone = filter is_active (filter (\<lambda>m. gm_Instance m \<in> set fenceSet) ?ms)"
      by (simp add: filter_filter conj_commute cong: filter_cong)
    then show ?thesis using assms(3) by (simp only: distinct_map_filter)
  qed
  then have "length ?gone \<le> length ?fenced"
    by (rule length_filter_distinct_le) (auto simp: list_ex_iff)
  moreover have "length (filter is_active ?ms) = length ?gone +
      length (filter (\<lambda>m. is_active m \<and> gm_Instance m \<notin> set fenceSet) ?ms)"
    using sum_length_filter_compl [of "\<lambda>m. gm_Instance m \<in> set fenceSet" "filter is_active ?ms"]
    by (simp add: filter_filter conj_commute)
  ultimately show ?thesis using assms(1,2) by (auto simp: FenceQuorumGuard_def Let_def split: if_splits)
qed

section \<open>Survivors\<close>

lemma dominatesAll_iff:
  "dominatesAll candidate cg online m \<longleftrightarrow>
     (\<forall>other \<in> set online. gm_Instance other \<noteq> gm_Instance candidate \<longrightarrow> string_at m (gm_Instance other) \<noteq> [] \<longrightarrow>
        GTIDContains cg (string_at m (gm_Instance other)) = Inr True)"
  by (induction online) (auto simp: Let_def split: sum.splits)

lemma gtidDominatesAll_iff:
  "gtidDominatesAll cg names candidate m \<longleftrightarrow>
     (\<forall>other \<in> set names. other \<noteq> candidate \<longrightarrow> GTIDContains cg (string_at m other) = Inr True)"
  by (induction names) (auto split: sum.splits)

lemma dominant_member_Some:
  assumes "dominant_member online m rest = Some s"
  shows "s \<in> set rest \<and> string_at m (gm_Instance s) \<noteq> [] \<and> dominatesAll s (string_at m (gm_Instance s)) online m"
  using assms
proof (induction rest)
  case (Cons c rest)
  show ?case
  proof (cases "string_at m (gm_Instance c) = [] \<or> \<not> dominatesAll c (string_at m (gm_Instance c)) online m")
    case True
    then have "dominant_member online m rest = Some s" using Cons.prems by (auto simp: Let_def split: if_splits)
    from Cons.IH [OF this] show ?thesis by simp
  next
    case False
    then have "s = c" using Cons.prems by (auto simp: Let_def)
    then show ?thesis using False by simp
  qed
qed simp

lemma rebootstrap_loop_Some:
  assumes "rebootstrap_loop names m rest = Some s"
  shows "s \<in> set rest \<and> string_at m s \<noteq> [] \<and> gtidDominatesAll (string_at m s) names s m"
  using assms
proof (induction rest)
  case (Cons c rest)
  show ?case
  proof (cases "string_at m c = [] \<or> \<not> gtidDominatesAll (string_at m c) names c m")
    case True
    then have "rebootstrap_loop names m rest = Some s" using Cons.prems by (auto simp: Let_def split: if_splits)
    from Cons.IH [OF this] show ?thesis by simp
  next
    case False
    then have "s = c" using Cons.prems by (auto simp: Let_def)
    then show ?thesis using False by simp
  qed
qed simp

lemma selectQuorumSurvivor_sound:
  assumes "selectQuorumSurvivor online m = Some s"
  shows "s \<in> set online \<and> (online = [s] \<or> gm_Role s = MemberRolePrimary \<or>
    dominatesAll s (string_at m (gm_Instance s)) online m)"
proof -
  consider "online = []" | o1 where "online = [o1]" | o1 o2 rest where "online = o1 # o2 # rest"
    by (metis neq_Nil_conv)
  then show ?thesis
  proof cases
    case 3
    then have sel: "(case find (\<lambda>m. gm_Role m = MemberRolePrimary) online of
        Some p \<Rightarrow> Some p | None \<Rightarrow> dominant_member online m online) = Some s"
      using assms by (simp only: selectQuorumSurvivor_def 3 list.case)
    show ?thesis
    proof (cases "find (\<lambda>m. gm_Role m = MemberRolePrimary) online")
      case None
      then show ?thesis using sel dominant_member_Some [of online m online s] by simp
    next
      case (Some p)
      then have "p \<in> set online" "gm_Role p = MemberRolePrimary" using find_split [OF Some] by auto
      then show ?thesis using sel Some by simp
    qed
  qed (use assms in \<open>auto simp: selectQuorumSurvivor_def\<close>)
qed

section \<open>Votes\<close>

lemma set_update_subset: "set (AList.update k v m) \<subseteq> insert (k, v) (set m)"
  by (induction m) auto

lemma sum_update_Suc:
  assumes "keys_distinct m"
  shows "sum_list (map snd (AList.update k (count_at m k + 1) m)) = sum_list (map snd m) + 1"
  using assms
proof (induction m)
  case (Cons a m)
  obtain k' v where a: "a = (k', v)" by force
  show ?case
  proof (cases "k' = k")
    case True
    then show ?thesis by (simp add: a count_at_def)
  next
    case False
    then have "count_at (a # m) k = count_at m k" by (simp add: a count_at_def)
    then show ?thesis using Cons False by (simp add: a)
  qed
qed (simp add: count_at_def)

text \<open>The member an instance votes for, empty when it casts no vote.\<close>

definition vote_of :: "ObservationInput \<Rightarrow> string \<Rightarrow> string" where
  "vote_of input name =
     (case group_at input name of
        None \<Rightarrow> []
      | Some g \<Rightarrow>
          if grs_State g \<noteq> MemberStateOnline then []
          else case scan_members (grs_Members g) 0 [] of
             (onlineCount, primaryID) \<Rightarrow> if onlineCount * 2 > int (length (grs_Members g)) then primaryID else [])"

definition votes_for :: "ObservationInput \<Rightarrow> string \<Rightarrow> int" where
  "votes_for input candidate = int (length (filter (\<lambda>name. vote_of input name = candidate) (oi_InstanceNames input)))"

definition votes_cast :: "ObservationInput \<Rightarrow> int" where
  "votes_cast input = int (length (filter (\<lambda>name. vote_of input name \<noteq> []) (oi_InstanceNames input)))"

lemma views_loop_Cons:
  "\<exists>s'. views_loop input (name # names) s = views_loop input names s' \<and>
     vs_votes s' = (if vote_of input name = [] then vs_votes s
       else AList.update (vote_of input name) (count_at (vs_votes s) (vote_of input name) + 1) (vs_votes s))"
  by (auto simp: vote_of_def Let_def split: option.splits prod.splits)

lemma count_at_update [simp]:
  "count_at (AList.update k v m) k' = (if k = k' then v else count_at m k')"
  by (simp add: count_at_def update_conv')

lemma views_loop_votes:
  assumes "keys_distinct (vs_votes s)" "\<forall>(c, v) \<in> set (vs_votes s). 0 \<le> v"
  shows "keys_distinct (vs_votes (views_loop input names s)) \<and>
    (\<forall>(c, v) \<in> set (vs_votes (views_loop input names s)). 0 \<le> v) \<and>
    sum_list (map snd (vs_votes (views_loop input names s))) =
      sum_list (map snd (vs_votes s)) + int (length (filter (\<lambda>name. vote_of input name \<noteq> []) names)) \<and>
    (\<forall>c. c \<noteq> [] \<longrightarrow> count_at (vs_votes (views_loop input names s)) c =
      count_at (vs_votes s) c + int (length (filter (\<lambda>name. vote_of input name = c) names)))"
  using assms
proof (induction names arbitrary: s)
  case (Cons name names)
  let ?v = "vote_of input name"
  define votes where "votes = (if ?v = [] then vs_votes s else AList.update ?v (count_at (vs_votes s) ?v + 1) (vs_votes s))"
  obtain s' where s': "views_loop input (name # names) s = views_loop input names s'" "vs_votes s' = votes"
    using views_loop_Cons unfolding votes_def by blast
  have kd: "keys_distinct votes" using Cons.prems(1) by (simp add: votes_def)
  have "0 \<le> count_at (vs_votes s) ?v"
    using Cons.prems(2) by (auto simp: count_at_def split: option.splits dest: map_of_SomeD)
  then have nn: "\<forall>(c, v) \<in> set votes. 0 \<le> v"
    using Cons.prems(2) set_update_subset [of ?v "count_at (vs_votes s) ?v + 1" "vs_votes s"]
    by (auto simp: votes_def)
  have sum: "sum_list (map snd votes) = sum_list (map snd (vs_votes s)) + (if ?v = [] then 0 else 1)"
    using sum_update_Suc [OF Cons.prems(1)] by (simp add: votes_def)
  have cnt: "count_at votes c = count_at (vs_votes s) c + (if ?v = c then 1 else 0)" if "c \<noteq> []" for c
    using that by (simp add: votes_def)
  show ?case using Cons.IH [of s'] kd nn sum cnt s' by simp
qed simp

lemma vote_winner_iff:
  "vote_winner m votes = (case find (\<lambda>(c, v). v * 2 > m) votes of None \<Rightarrow> [] | Some (c, v) \<Rightarrow> c)"
  by (induction m votes rule: vote_winner.induct) auto

lemma two_entries_le_sum:
  fixes votes :: "('a \<times> int) list"
  assumes "\<forall>(c, v) \<in> set votes. 0 \<le> v" "(a, v) \<in> set votes" "(b, w) \<in> set votes" "(a, v) \<noteq> (b, w)"
  shows "v + w \<le> sum_list (map snd votes)"
proof -
  have nn: "(\<forall>(c, v) \<in> set xs. 0 \<le> v) \<Longrightarrow> (a, v) \<in> set xs \<Longrightarrow> v \<le> sum_list (map snd xs) \<and> 0 \<le> sum_list (map snd xs)"
    for xs :: "('a \<times> int) list" and a v
  proof (induction xs)
    case (Cons y ys)
    have "0 \<le> sum_list (map snd ys)" using Cons.prems(1) by (intro sum_list_nonneg) auto
    then show ?case using Cons by (cases y) auto
  qed simp
  show ?thesis using assms
  proof (induction votes)
    case (Cons x votes)
    show ?case
    proof (cases "x = (a, v) \<or> x = (b, w)")
      case True
      then show ?thesis using Cons.prems nn [of votes a v] nn [of votes b w] by auto
    next
      case False
      then show ?thesis using Cons by (cases x) auto
    qed
  qed simp
qed

lemma vote_winner_order:
  assumes "mset votes' = mset votes" "\<forall>(c, v) \<in> set votes. 0 \<le> v" "sum_list (map snd votes) \<le> m"
  shows "vote_winner m votes' = vote_winner m votes"
proof -
  have s: "set votes' = set votes" using assms(1) by (metis set_mset_mset)
  have u: "x = y" if "x \<in> set votes" "y \<in> set votes" "snd x * 2 > m" "snd y * 2 > m" for x y
    using two_entries_le_sum [OF assms(2), of "fst x" "snd x" "fst y" "snd y"] that assms(3) by force
  have "find (\<lambda>(c, v). v * 2 > m) votes' = find (\<lambda>(c, v). v * 2 > m) votes"
  proof (cases "find (\<lambda>(c, v). v * 2 > m) votes")
    case None
    then have "find (\<lambda>(c, v). v * 2 > m) votes' = None" using s by (simp add: find_None_iff)
    then show ?thesis using None by simp
  next
    case (Some x)
    then have x: "x \<in> set votes" "snd x * 2 > m" using find_split [OF Some] by auto
    then have "find (\<lambda>(c, v). v * 2 > m) votes' \<noteq> None" using s
      unfolding find_None_iff by (metis (mono_tags, lifting) case_prod_beta)
    then obtain y where y: "find (\<lambda>(c, v). v * 2 > m) votes' = Some y" by auto
    then have "y \<in> set votes" "snd y * 2 > m" using find_split [OF y] s by auto
    then show ?thesis using u x y Some by auto
  qed
  then show ?thesis by (simp add: vote_winner_iff)
qed

text \<open>The scan that \<open>observeGroup\<close> starts from nothing, and what its votes are.\<close>

definition observed_views :: "ObservationInput \<Rightarrow> view_scan" where
  "observed_views input = views_loop input (oi_InstanceNames input) \<lparr>vs_view = None, vs_votes = [], vs_max = 0\<rparr>"

lemma observed_votes:
  shows "keys_distinct (vs_votes (observed_views input))"
    and "\<forall>(c, v) \<in> set (vs_votes (observed_views input)). 0 \<le> v"
    and "sum_list (map snd (vs_votes (observed_views input))) = votes_cast input"
    and "c \<noteq> [] \<Longrightarrow> count_at (vs_votes (observed_views input)) c = votes_for input c"
  using views_loop_votes [of "\<lparr>vs_view = None, vs_votes = [], vs_max = 0\<rparr>" input "oi_InstanceNames input"]
  by (simp_all add: observed_views_def votes_cast_def votes_for_def count_at_def)

lemma vote_winner_majority:
  assumes "vote_winner m votes = c" "c \<noteq> []" "keys_distinct votes"
  shows "m < count_at votes c * 2"
proof -
  obtain v where f: "find (\<lambda>(c, v). v * 2 > m) votes = Some (c, v)"
    using assms(1,2) by (auto simp: vote_winner_iff split: option.splits)
  then have "(c, v) \<in> set votes" "m < v * 2" using find_split [OF f] by auto
  then show ?thesis using assms(3) by (simp add: count_at_def keys_distinct_def)
qed

lemma uuid_loop_empty: "string_at (uuid_loop statuses []) [] = []"
proof -
  have "string_at (uuid_loop statuses m) [] = string_at m []" for m
    by (induction statuses m rule: uuid_loop.induct) (simp_all add: string_at_def update_conv' split: option.splits)
  then show ?thesis by (simp add: string_at_def)
qed


section \<open>The merged group status\<close>

lemma merge_clamp_quorum_simps [simp]:
  "gs_GroupName (merge_quorum m) = gs_GroupName m" "gs_GroupName (merge_clamp n m) = gs_GroupName m"
  "gs_Bootstrapped (merge_quorum m) = gs_Bootstrapped m" "gs_Bootstrapped (merge_clamp n m) = gs_Bootstrapped m"
  "gs_Members (merge_quorum m) = gs_Members m" "gs_Members (merge_clamp n m) = gs_Members m"
  "gs_ObservedViewMax (merge_quorum m) = gs_ObservedViewMax m"
  "gs_ObservedViewMax (merge_clamp n m) = (if n > 0 then min (gs_ObservedViewMax m) n else gs_ObservedViewMax m)"
  "gs_HasQuorum (merge_clamp n m) = gs_HasQuorum m"
  by (simp_all add: merge_quorum_def merge_clamp_def)

lemma merge_observed_simps [simp]:
  "gs_GroupName (merge_observed existing status m) = gs_GroupName m"
  "gs_Bootstrapped (merge_observed existing status m) \<longleftrightarrow> gs_PrimaryMember status \<noteq> [] \<or> gs_Bootstrapped m"
  "gs_HasQuorum (merge_observed existing status m) = gs_HasQuorum m"
  by (simp_all add: merge_observed_def Let_def)

lemma merge_sticky_simps [simp]:
  "gs_GroupName (merge_sticky (Some e)) = gs_GroupName e"
  "gs_Bootstrapped (merge_sticky (Some e)) = gs_Bootstrapped e"
  "gs_ObservedViewMax (merge_sticky (Some e)) = gs_ObservedViewMax e"
  "gs_HasQuorum (merge_sticky existing) = False"
  by (simp_all add: merge_sticky_def zero_group_def split: option.splits)

definition merged_group :: "Cluster \<Rightarrow> Observation \<Rightarrow> GroupReplicationStatus" where
  "merged_group c observed =
     (let existing = st_GroupReplication (cl_Status c) in
      merge_quorum (merge_clamp (cs_Instances (cl_Spec c))
        (case ob_GroupReplication observed of
           None \<Rightarrow> merge_sticky existing
         | Some status \<Rightarrow> merge_observed existing status (merge_sticky existing))))"

lemma MergeStatus_group: "st_GroupReplication (cl_Status (MergeStatus c observed)) = Some (merged_group c observed)"
  by (simp add: MergeStatus_def merged_group_def Let_def split: option.splits)

lemma MergeStatus_spec [simp]: "cl_Spec (MergeStatus c observed) = cl_Spec c"
  by (simp add: MergeStatus_def Let_def split: option.splits)

lemma MergeStatus_primary:
  "st_CurrentPrimary (cl_Status (MergeStatus c observed)) =
     (case ob_GroupReplication observed of
        None \<Rightarrow> st_CurrentPrimary (cl_Status c)
      | Some status \<Rightarrow> if gs_PrimaryMember status \<noteq> [] then gs_PrimaryMember status else st_CurrentPrimary (cl_Status c))"
  by (simp add: MergeStatus_def Let_def split: option.splits)

lemma MergeStatus_generation:
  "st_CurrentPrimaryGeneration (cl_Status (MergeStatus c observed)) =
     st_CurrentPrimaryGeneration (cl_Status c) +
     (if st_CurrentPrimary (cl_Status (MergeStatus c observed)) = st_CurrentPrimary (cl_Status c) then 0 else 1)"
  by (simp add: MergeStatus_primary) (simp add: MergeStatus_def Let_def split: option.splits)

lemma merge_quorum_majority:
  assumes "gs_HasQuorum (merge_quorum m)" "\<not> gs_HasQuorum m"
  shows "0 < gs_ObservedViewMax (merge_quorum m) \<and> gs_ObservedViewMax (merge_quorum m) <
    2 * int (length (filter (\<lambda>m. gm_State m = MemberStateOnline) (gs_Members (merge_quorum m))))"
  using assms by (simp add: merge_quorum_def split: if_splits)

lemma merged_group_quorum:
  "gs_HasQuorum (merged_group c observed) \<Longrightarrow>
     0 < gs_ObservedViewMax (merged_group c observed) \<and>
     gs_ObservedViewMax (merged_group c observed) <
       2 * int (length (filter (\<lambda>m. gm_State m = MemberStateOnline) (gs_Members (merged_group c observed))))"
  unfolding merged_group_def Let_def
  by (rule merge_quorum_majority, assumption, cases "ob_GroupReplication observed") simp_all

lemma merged_group_max:
  assumes "st_GroupReplication (cl_Status c) = Some e"
    "gs_ObservedViewMax (merged_group c observed) < gs_ObservedViewMax e"
  shows "gs_ObservedViewMax (merged_group c observed) = cs_Instances (cl_Spec c) \<or>
    (\<not> gs_HasQuorum e \<and> (\<exists>status. ob_GroupReplication observed = Some status \<and> gs_HasQuorum status \<and>
       gs_ObservedViewMax (merged_group c observed) \<le> gs_ObservedViewMax status))"
  using assms
  by (auto simp: merged_group_def Let_def merge_observed_def min_def max_def split: option.splits if_splits)

text \<open>C33. The status a pass records for the group keeps what is sticky, and its quorum is real: the group's name
  never changes and bootstrap is never forgotten; the remembered view size is at most the configured number of instances;
  quorum is recorded only when the members ONLINE in the recorded view are more than half of the remembered view; and the
  remembered view shrinks only down to the configured number of instances, or when a group that had lost quorum is seen
  with quorum again.\<close>

theorem merged_status_sound:
  assumes "st_GroupReplication (cl_Status c) = Some e" "0 < cs_Instances (cl_Spec c)"
    "st_GroupReplication (cl_Status (MergeStatus c observed)) = Some m"
  shows "gs_GroupName m = gs_GroupName e \<and> (gs_Bootstrapped e \<longrightarrow> gs_Bootstrapped m) \<and>
    gs_ObservedViewMax m \<le> cs_Instances (cl_Spec c) \<and>
    (gs_HasQuorum m \<longrightarrow> 0 < gs_ObservedViewMax m \<and> gs_ObservedViewMax m <
      2 * int (length (filter (\<lambda>member. gm_State member = MemberStateOnline) (gs_Members m)))) \<and>
    (gs_ObservedViewMax m < gs_ObservedViewMax e \<longrightarrow>
      gs_ObservedViewMax m = cs_Instances (cl_Spec c) \<or>
      (\<not> gs_HasQuorum e \<and> (\<exists>status. ob_GroupReplication observed = Some status \<and> gs_HasQuorum status \<and>
         gs_ObservedViewMax m \<le> gs_ObservedViewMax status)))"
proof -
  have m: "m = merged_group c observed" using assms(3) MergeStatus_group by simp
  have "gs_GroupName m = gs_GroupName e \<and> (gs_Bootstrapped e \<longrightarrow> gs_Bootstrapped m) \<and>
      gs_ObservedViewMax m \<le> cs_Instances (cl_Spec c)"
    using assms(1,2) by (cases "ob_GroupReplication observed") (simp_all add: m merged_group_def Let_def)
  then show ?thesis
    using merged_group_quorum [of c observed] merged_group_max [OF assms(1), of observed] unfolding m by blast
qed

text \<open>A run of passes, each merging what it observed.\<close>

definition merge_run :: "Cluster \<Rightarrow> Observation list \<Rightarrow> Cluster" where
  "merge_run c observations = foldl MergeStatus c observations"

lemma merge_run_generation:
  "st_CurrentPrimaryGeneration (cl_Status c) \<le> st_CurrentPrimaryGeneration (cl_Status (merge_run c obs)) \<and>
   (st_CurrentPrimaryGeneration (cl_Status c) = st_CurrentPrimaryGeneration (cl_Status (merge_run c obs)) \<longrightarrow>
    st_CurrentPrimary (cl_Status c) = st_CurrentPrimary (cl_Status (merge_run c obs)))"
proof (induction obs arbitrary: c)
  case (Cons ob obs)
  have "merge_run c (ob # obs) = merge_run (MergeStatus c ob) obs" by (simp add: merge_run_def)
  then show ?case using Cons.IH [of "MergeStatus c ob"] MergeStatus_generation [of c ob] by (auto split: if_splits)
qed (simp add: merge_run_def)

text \<open>The generation number names the primary: over any run of passes it never goes down, and two moments of the run
  with the same generation have the same primary.\<close>

theorem generation_names_primary:
  "st_CurrentPrimaryGeneration (cl_Status (merge_run c earlier)) \<le>
     st_CurrentPrimaryGeneration (cl_Status (merge_run c (earlier @ later))) \<and>
   (st_CurrentPrimaryGeneration (cl_Status (merge_run c earlier)) =
      st_CurrentPrimaryGeneration (cl_Status (merge_run c (earlier @ later))) \<longrightarrow>
    st_CurrentPrimary (cl_Status (merge_run c earlier)) = st_CurrentPrimary (cl_Status (merge_run c (earlier @ later))))"
  using merge_run_generation [of "merge_run c earlier" later] by (simp add: merge_run_def)

section \<open>Quorum guards\<close>

text \<open>C35. The guards keep a majority: a fencing request that the guard lets through leaves more than half of the
  configured instances active and not fenced, and the disruption budget leaves more than half of them too.\<close>

theorem guards_keep_majority:
  assumes "0 < cs_Instances (cl_Spec c)" "st_GroupReplication (cl_Status c) = Some gr" "FenceQuorumGuard c fenceSet = None"
    "distinct (map gm_Instance (filter (\<lambda>m. gm_Instance m \<in> set fenceSet) (gs_Members gr)))"
  shows "cs_Instances (cl_Spec c) <
      2 * int (length (filter (\<lambda>m. is_active m \<and> gm_Instance m \<notin> set fenceSet) (gs_Members gr))) \<and>
    cs_Instances (cl_Spec c) < 2 * (cs_Instances (cl_Spec c) - fst (PDBMaxUnavailable c))"
  using FenceQuorumGuard_sound [OF assms(2-4)] quorum_majority [OF assms(1)] assms(1)
  by (simp add: PDBMaxUnavailable_def MaxInt32_def Let_def min_def max_def)

section \<open>Quorum recovery\<close>

text \<open>The transactions of \<open>survivor\<close> include those of \<open>other\<close>.\<close>

definition covers :: "(string, string) gomap \<Rightarrow> string \<Rightarrow> string \<Rightarrow> bool" where
  "covers byInstance survivor other \<longleftrightarrow>
     (\<exists>A B. mysql_reach (string_at byInstance survivor) = Inr A \<and> mysql_reach (string_at byInstance other) = Inr B \<and> B \<subseteq> A)"

lemma selectRebootstrapSurvivor_sound:
  assumes "selectRebootstrapSurvivor m n = Some s"
  shows "n \<le> int (length m) \<and> s \<in> fst ` set m \<and> (\<forall>other \<in> fst ` set m. other \<noteq> s \<longrightarrow> covers m s other)"
proof -
  have n: "n \<le> int (length m)" and "rebootstrap_loop (sort (map fst m)) m (sort (map fst m)) = Some s"
    using assms by (auto simp: selectRebootstrapSurvivor_def Let_def split: if_splits)
  from rebootstrap_loop_Some [OF this(2)] show ?thesis
    using n GTIDContains_reach unfolding gtidDominatesAll_iff covers_def by simp
qed

lemma selectQuorumSurvivor_covers:
  assumes "selectQuorumSurvivor online m = Some s"
  shows "s \<in> set online \<and> (online = [s] \<or> gm_Role s = MemberRolePrimary \<or>
    (\<forall>other \<in> set online. gm_Instance other \<noteq> gm_Instance s \<longrightarrow> string_at m (gm_Instance other) \<noteq> [] \<longrightarrow>
       covers m (gm_Instance s) (gm_Instance other)))"
  using selectQuorumSurvivor_sound [OF assms] GTIDContains_reach unfolding dominatesAll_iff covers_def by metis


section \<open>Witnesses\<close>

text \<open>A group of three whose members agree on the primary, and its cluster.\<close>

definition trio_member :: "string \<Rightarrow> string \<Rightarrow> GroupReplicationMember" where
  "trio_member uuid role = \<lparr>grm_MemberID = uuid, grm_Host = [], grm_State = MemberStateOnline, grm_Role = role\<rparr>"

definition trio_status :: "string \<Rightarrow> InstanceStatus" where
  "trio_status uuid = zero_report\<lparr>is_GroupReplication := Some
     \<lparr>grs_MemberID = uuid, grs_State = MemberStateOnline, grs_ViewID = ''v1'', grs_CommunicationProtocol = ''8.0.27'',
      grs_Members = [trio_member ''u1'' MemberRolePrimary, trio_member ''u2'' MemberRoleSecondary,
        trio_member ''u3'' MemberRoleSecondary]\<rparr>\<rparr>"

definition trio_input :: ObservationInput where
  "trio_input = \<lparr>oi_PrimaryName = [], oi_InstanceNames = [''c-1'', ''c-2'', ''c-3''],
     oi_StatusByInstance = [(''c-1'', trio_status ''u1''), (''c-2'', trio_status ''u2''), (''c-3'', trio_status ''u3'')],
     oi_GTIDByInstance = [], oi_ConfiguredMembers = 3, oi_ObservedViewMax = 3, oi_EngineFlavor = FlavorMySQL,
     oi_PriorDivergedInstances = [], oi_MariaDBTimeline = [], oi_DisownedGTIDs = []\<rparr>"

lemmas trio_defs = trio_input_def trio_status_def trio_member_def group_at_def MemberStateOnline_def
  MemberRolePrimary_def MemberRoleSecondary_def


text \<open>The same group as the cluster's status records it, with its second member's state as an argument.\<close>

definition trio_group :: "string \<Rightarrow> string \<Rightarrow> bool \<Rightarrow> GroupReplicationStatus" where
  "trio_group role state q = zero_group\<lparr>gs_GroupName := ''g'', gs_Bootstrapped := True, gs_HasQuorum := q,
     gs_ObservedViewMax := 3, gs_Members :=
       [\<lparr>gm_Instance = ''c-1'', gm_State = MemberStateOnline, gm_Role = role, gm_Reachable = True\<rparr>,
        \<lparr>gm_Instance = ''c-2'', gm_State = MemberStateOnline, gm_Role = MemberRoleSecondary, gm_Reachable = True\<rparr>,
        \<lparr>gm_Instance = ''c-3'', gm_State = state, gm_Role = MemberRoleSecondary, gm_Reachable = True\<rparr>]\<rparr>"

definition trio_cluster :: "GroupReplicationStatus \<Rightarrow> Cluster" where
  "trio_cluster g = cluster_of ''c'' (zero_spec\<lparr>cs_Instances := 3\<rparr>) (zero_status\<lparr>st_GroupReplication := Some g\<rparr>)"

lemma trio_cluster_simps [simp]:
  "st_GroupReplication (cl_Status (trio_cluster g)) = Some g" "cs_Instances (cl_Spec (trio_cluster g)) = 3"
  by (simp_all add: trio_cluster_def zero_spec_def)

lemma merged_status_sound_witness:
  "\<exists>m. st_GroupReplication (cl_Status (MergeStatus (trio_cluster (trio_group MemberRolePrimary MemberStateOnline True))
      (gr_Observe rev trio_input))) = Some m \<and> gs_HasQuorum m \<and> gs_GroupName m = ''g'' \<and> gs_ObservedViewMax m \<le> 3 \<and>
    gs_ObservedViewMax m < 2 * int (length (filter (\<lambda>member. gm_State member = MemberStateOnline) (gs_Members m)))"
proof -
  let ?c = "trio_cluster (trio_group MemberRolePrimary MemberStateOnline True)"
  let ?m = "merged_group ?c (gr_Observe rev trio_input)"
  have "gs_HasQuorum ?m"
    by (simp add: merged_group_def gr_Observe_def observeGroup_def trio_defs merge_observed_def merge_sticky_def
        merge_clamp_def merge_quorum_def trio_group_def zero_group_def Let_def count_at_def)
  then show ?thesis
    using merged_status_sound [of ?c _ "gr_Observe rev trio_input" ?m] MergeStatus_group [of ?c "gr_Observe rev trio_input"]
    by (auto simp: trio_group_def zero_group_def)
qed

lemma generation_names_primary_witness:
  "st_CurrentPrimary (cl_Status (merge_run (trio_cluster zero_group) [gr_Observe rev trio_input])) =
   st_CurrentPrimary (cl_Status (merge_run (trio_cluster zero_group) [gr_Observe rev trio_input, gr_Observe rev trio_input]))"
proof -
  let ?c = "trio_cluster zero_group" and ?o = "gr_Observe rev trio_input"
  have "st_CurrentPrimaryGeneration (cl_Status (merge_run ?c [?o])) = st_CurrentPrimaryGeneration (cl_Status (merge_run ?c ([?o] @ [?o])))"
    by (simp add: merge_run_def MergeStatus_generation MergeStatus_primary split: option.splits)
  then show ?thesis using generation_names_primary [of ?c "[?o]" "[?o]"] by simp
qed

lemma guards_keep_majority_witness:
  "3 < 2 * int (length (filter (\<lambda>m. is_active m \<and> gm_Instance m \<notin> {''c-3''})
    (gs_Members (trio_group MemberRolePrimary MemberStateOnline True))))"
proof -
  let ?g = "trio_group MemberRolePrimary MemberStateOnline True"
  have "FenceQuorumGuard (trio_cluster ?g) [''c-3''] = None"
    by (simp add: FenceQuorumGuard_def trio_group_def is_active_def quorum_def)
  then show ?thesis
    using guards_keep_majority [of "trio_cluster ?g" ?g "[''c-3'']"] by (simp add: trio_group_def)
qed


section \<open>Limits of the guards\<close>

lemma ScaleDownQuorumGuard_iff: "ScaleDownQuorumGuard c name \<noteq> None \<longleftrightarrow> cs_Instances (cl_Spec c) \<le> 1"
proof -
  let ?n = "cs_Instances (cl_Spec c)"
  have "\<not> ?n - 1 < quorum (?n - 1)" if "\<not> ?n \<le> 1" using that by (simp add: quorum_def)
  then show ?thesis by (auto simp: ScaleDownQuorumGuard_def Let_def)
qed

text \<open>Two members that each see a view of their own cast one vote each; either can win.\<close>

definition split_status :: "string \<Rightarrow> InstanceStatus" where
  "split_status uuid = zero_report\<lparr>is_GroupReplication := Some
     \<lparr>grs_MemberID = uuid, grs_State = MemberStateOnline, grs_ViewID = uuid, grs_CommunicationProtocol = [],
      grs_Members = [trio_member uuid MemberRolePrimary]\<rparr>\<rparr>"

definition split_input :: ObservationInput where
  "split_input = trio_input\<lparr>oi_InstanceNames := [''c-1'', ''c-2''],
     oi_StatusByInstance := [(''c-1'', split_status ''u1''), (''c-2'', split_status ''u2'')]\<rparr>"

lemma split_views_order_matters:
  "snd (observeGroup (\<lambda>votes. votes) split_input) = ''c-1'' \<and> snd (observeGroup rev split_input) = ''c-2''"
  by (simp add: observeGroup_def split_input_def split_status_def trio_defs count_at_def string_at_def Let_def)

end
