(* ===== verification/Archive_Index.thy ===== *)
theory Archive_Index
  imports Mariadb_Timeline Cluster_Api
begin

text \<open>
  The object store's layout and the archive index (\<open>pkg/management/mysql/objectstore\<close>: objectstore.go, binlog.go,
  metadata.go) and the retention policy (retention.go). A set of basenames, a Go map with empty values, is the list of its
  members; \<open>sort.Slice\<close>, which is not stable, is the argument \<open>srt\<close> of the plan, and what is proved
  holds for every function that returns its argument sorted. Listing and deleting objects are calls to the store; what the
  plan decides to delete is modelled, and so is the key every object is written under.
\<close>

section \<open>Strings\<close>

definition HasSuffix :: "string \<Rightarrow> string \<Rightarrow> bool" where
  "HasSuffix s suf \<longleftrightarrow> length suf \<le> length s \<and> drop (length s - length suf) s = suf"

definition TrimSuffix :: "string \<Rightarrow> string \<Rightarrow> string" where
  "TrimSuffix s suf = (if HasSuffix s suf then take (length s - length suf) s else s)"

text \<open>\<open>path.Base\<close>.\<close>

definition PathBase :: "string \<Rightarrow> string" where
  "PathBase name =
     (if name = [] then ''.''
      else let s = rev (dropWhile (\<lambda>c. c = CHR ''/'') (rev name)) in if s = [] then ''/'' else last (split_on (CHR ''/'') s))"

section \<open>Object keys\<close>

definition BackupArchiveName :: string where "BackupArchiveName = ''backup.xbstream''"

definition BackupMetadataName :: string where "BackupMetadataName = ''metadata.json''"

definition LogicalArchiveName :: string where "LogicalArchiveName = ''dump.sql.zst''"

definition LogicalMetadataName :: string where "LogicalMetadataName = ''logical.json''"

definition BinlogPrefixComponent :: string where "BinlogPrefixComponent = ''binlogs''"

definition ArchiveStatusName :: string where "ArchiveStatusName = ''_archive_status.json''"

definition ArchiveIndexName :: string where "ArchiveIndexName = ''_index.json''"

definition BinlogManifestSuffix :: string where "BinlogManifestSuffix = ''.json''"

record BackupKeys =
  ky_ArchiveKey :: string
  ky_MetadataKey :: string
  ky_ArchiveURI :: string

definition cleanPath :: "string \<Rightarrow> string" where
  "cleanPath path = join_with ''/'' (filter (\<lambda>part. part \<noteq> []) (split_on (CHR ''/'') path))"

definition buildKeys :: "S3ObjectStore \<Rightarrow> string \<Rightarrow> string \<Rightarrow> string \<Rightarrow> string \<Rightarrow> string \<Rightarrow> BackupKeys res" where
  "buildKeys store clusterName backupName backupID archiveName metadataName =
     (if s3_Bucket store = [] then Inl (Errorf ''object store bucket is required'' [])
      else if clusterName = [] \<or> backupName = [] \<or> backupID = []
      then Inl (Errorf ''cluster name, backup name and backup id are required'' [])
      else let prefix = cleanPath (s3_Path store);
               base = join_with ''/'' [clusterName, backupName, backupID];
               base = (if prefix \<noteq> [] then prefix @ ''/'' @ base else base);
               archiveKey = base @ ''/'' @ archiveName
           in Inr \<lparr>ky_ArchiveKey = archiveKey, ky_MetadataKey = base @ ''/'' @ metadataName,
                ky_ArchiveURI = ''s3://'' @ s3_Bucket store @ ''/'' @ archiveKey\<rparr>)"

definition BuildBackupKeys :: "S3ObjectStore \<Rightarrow> string \<Rightarrow> string \<Rightarrow> string \<Rightarrow> BackupKeys res" where
  "BuildBackupKeys store clusterName backupName backupID =
     buildKeys store clusterName backupName backupID BackupArchiveName BackupMetadataName"

definition BuildLogicalBackupKeys :: "S3ObjectStore \<Rightarrow> string \<Rightarrow> string \<Rightarrow> string \<Rightarrow> BackupKeys res" where
  "BuildLogicalBackupKeys store clusterName backupName backupID =
     buildKeys store clusterName backupName backupID LogicalArchiveName LogicalMetadataName"

definition ClusterPrefix :: "S3ObjectStore \<Rightarrow> string \<Rightarrow> string" where
  "ClusterPrefix store clusterName =
     (let prefix = cleanPath (s3_Path store) in
      if prefix \<noteq> [] then prefix @ ''/'' @ clusterName @ ''/'' else clusterName @ ''/'')"

record BinlogKeys =
  bk_BinlogKey :: string
  bk_ManifestKey :: string

definition BinlogPrefix :: "S3ObjectStore \<Rightarrow> string \<Rightarrow> string" where
  "BinlogPrefix store clusterName = ClusterPrefix store clusterName @ BinlogPrefixComponent @ ''/''"

definition ServerPrefix :: "S3ObjectStore \<Rightarrow> string \<Rightarrow> string \<Rightarrow> string" where
  "ServerPrefix store clusterName serverUUID = BinlogPrefix store clusterName @ serverUUID @ ''/''"

definition BuildBinlogKeys :: "S3ObjectStore \<Rightarrow> string \<Rightarrow> string \<Rightarrow> string \<Rightarrow> BinlogKeys res" where
  "BuildBinlogKeys store clusterName serverUUID binlogName =
     (if s3_Bucket store = [] then Inl (Errorf ''object store bucket is required'' [])
      else if clusterName = [] \<or> serverUUID = [] \<or> binlogName = []
      then Inl (Errorf ''cluster name, server uuid and binlog name are required'' [])
      else if CHR ''/'' \<in> set serverUUID \<or> CHR ''/'' \<in> set binlogName
      then Inl (Errorf ''server uuid and binlog name must not contain a path separator'' [])
      else let base = ServerPrefix store clusterName serverUUID @ binlogName
           in Inr \<lparr>bk_BinlogKey = base, bk_ManifestKey = base @ BinlogManifestSuffix\<rparr>)"

definition ArchiveStatusKey :: "S3ObjectStore \<Rightarrow> string \<Rightarrow> string \<Rightarrow> string" where
  "ArchiveStatusKey store clusterName serverUUID = ServerPrefix store clusterName serverUUID @ ArchiveStatusName"

definition ArchiveIndexKey :: "S3ObjectStore \<Rightarrow> string \<Rightarrow> string" where
  "ArchiveIndexKey store clusterName = BinlogPrefix store clusterName @ ArchiveIndexName"

section \<open>Manifests and the index\<close>

record BackupMetadata =
  bm_BackupID :: string
  bm_ClusterName :: string
  bm_ClusterUID :: string
  bm_BackupName :: string
  bm_InstanceName :: string
  bm_Method :: string
  bm_ArchiveKey :: string
  bm_Compressed :: bool
  bm_SizeBytes :: int
  bm_SHA256 :: string
  bm_AnchorGTID :: string
  bm_AnchorServerUUID :: string
  bm_StartedAt :: gotime
  bm_CompletedAt :: gotime

record BinlogMetadata =
  nm_ClusterName :: string
  nm_ServerUUID :: string
  nm_InstanceName :: string
  nm_BinlogName :: string
  nm_Sequence :: int
  nm_FirstGTID :: string
  nm_LastGTID :: string
  nm_GTIDSet :: string
  nm_FirstEventTime :: gotime
  nm_LastEventTime :: gotime
  nm_SizeBytes :: int
  nm_SHA256 :: string
  nm_ArchivedAt :: gotime

record ArchiveStatus =
  as_ClusterName :: string
  as_ServerUUID :: string
  as_InstanceName :: string
  as_LastArchivedBinlog :: string
  as_LastArchivedGTID :: string
  as_FirstGTID :: string
  as_CoveredGTIDSet :: string
  as_UpdatedAt :: gotime

record ArchiveFork =
  af_GTIDSet :: string
  af_AfterSeq :: "(nat, nat) gomap"
  af_AuthorityGTIDSet :: string
  af_DetectedAt :: gotime
  af_DetectedBy :: string

record ArchiveSegment =
  sg_ServerUUID :: string
  sg_InstanceName :: string
  sg_Binlogs :: "string list"
  sg_GTIDSet :: string
  sg_StartGTIDSet :: string
  sg_Fork :: "ArchiveFork option"
  sg_StartedAt :: gotime
  sg_EndedAt :: gotime

record ArchiveEpoch =
  ae_Instance :: string
  ae_ServerID :: nat
  ae_Handoff :: string

record ArchiveDisownedRange =
  dr_Domain :: nat
  dr_Server :: nat
  dr_After :: nat
  dr_Through :: nat

record ArchiveDisowned =
  ad_GTIDSet :: string
  ad_Ranges :: "ArchiveDisownedRange list"

record ArchiveForkCheck =
  fc_CheckedAt :: gotime
  fc_CheckedBy :: string

record ArchiveIndex =
  ix_ClusterName :: string
  ix_ClusterUID :: string
  ix_Segments :: "ArchiveSegment list"
  ix_CoveredGTIDSet :: string
  ix_UpdatedAt :: gotime
  ix_ForkCheck :: "ArchiveForkCheck option"
  ix_Generation :: int
  ix_Disowned :: "ArchiveDisowned option"
  ix_ArchivedThrough :: gotime
  ix_MariaDBTimeline :: "ArchiveEpoch list"

definition zero_index :: ArchiveIndex where
  "zero_index = \<lparr>ix_ClusterName = [], ix_ClusterUID = [], ix_Segments = [], ix_CoveredGTIDSet = [],
     ix_UpdatedAt = zero_time, ix_ForkCheck = None, ix_Generation = 0, ix_Disowned = None,
     ix_ArchivedThrough = zero_time, ix_MariaDBTimeline = []\<rparr>"

definition Segment :: "ArchiveIndex \<Rightarrow> string \<Rightarrow> ArchiveSegment option" where
  "Segment idx serverUUID = find (\<lambda>seg. sg_ServerUUID seg = serverUUID) (ix_Segments idx)"

definition Holds :: "ArchiveDisownedRange \<Rightarrow> nat \<Rightarrow> nat \<Rightarrow> nat \<Rightarrow> bool" where
  "Holds r domain server seq \<longleftrightarrow> dr_Domain r = domain \<and> dr_Server r = server \<and> seq > dr_After r \<and> seq \<le> dr_Through r"

text \<open>The loop of \<open>AddRange\<close>: the ranges with the first touching one widened and whether it grew, if there is one.\<close>

fun widen_range :: "ArchiveDisownedRange \<Rightarrow> ArchiveDisownedRange list \<Rightarrow> (ArchiveDisownedRange list \<times> bool) option" where
  "widen_range r [] = None"
| "widen_range r (cur # rest) =
     (if dr_Domain cur \<noteq> dr_Domain r \<or> dr_Server cur \<noteq> dr_Server r \<or> dr_After r > dr_Through cur \<or> dr_Through r < dr_After cur
      then (case widen_range r rest of None \<Rightarrow> None | Some (rest', grew) \<Rightarrow> Some (cur # rest', grew))
      else let (cur, grew) = (if dr_After r < dr_After cur then (cur\<lparr>dr_After := dr_After r\<rparr>, True) else (cur, False));
               (cur, grew) = (if dr_Through r > dr_Through cur then (cur\<lparr>dr_Through := dr_Through r\<rparr>, True) else (cur, grew))
           in Some (cur # rest, grew))"

definition AddRange :: "ArchiveDisowned \<Rightarrow> ArchiveDisownedRange \<Rightarrow> ArchiveDisowned \<times> bool" where
  "AddRange d r =
     (if dr_Through r \<le> dr_After r then (d, False)
      else case widen_range r (ad_Ranges d) of
             Some (ranges, grew) \<Rightarrow> (d\<lparr>ad_Ranges := ranges\<rparr>, grew)
           | None \<Rightarrow> (d\<lparr>ad_Ranges := ad_Ranges d @ [r]\<rparr>, True))"

section \<open>Retention\<close>

record BackupEntry =
  be_Prefix :: string
  be_Meta :: BackupMetadata

record BinlogEntry =
  bl_Keys :: BinlogKeys
  bl_Meta :: BinlogMetadata

record RetentionPlan =
  rp_DeleteBackupPrefixes :: "string list"
  rp_DeleteBinlogKeys :: "string list"
  rp_NewIndex :: "ArchiveIndex option"
  rp_DeletedBinlogs :: "(string, string list) gomap"
  rp_Horizon :: gotime

definition Empty :: "RetentionPlan \<Rightarrow> bool" where
  "Empty p \<longleftrightarrow> rp_DeleteBackupPrefixes p = [] \<and> rp_DeleteBinlogKeys p = []"

definition SelectLatestBackup :: "BackupEntry list \<Rightarrow> BackupEntry res" where
  "SelectLatestBackup entries =
     (case entries of
        [] \<Rightarrow> Inl (Errorf ''no base backups found in object store'' [])
      | e # rest \<Rightarrow>
          Inr (foldl (\<lambda>latest entry. if bm_CompletedAt (be_Meta entry) > bm_CompletedAt (be_Meta latest) then entry else latest) e rest))"

definition FindBackupByID :: "BackupEntry list \<Rightarrow> string \<Rightarrow> BackupEntry res" where
  "FindBackupByID entries backupID =
     (case find (\<lambda>entry. bm_BackupID (be_Meta entry) = backupID) entries of
        Some entry \<Rightarrow> Inr entry
      | None \<Rightarrow> Inl (Errorf ''no base backup with backupID %q found in object store'' [backupID]))"

definition rewrite_segment :: "(string, string list) gomap \<Rightarrow> ArchiveSegment \<Rightarrow> ArchiveSegment list" where
  "rewrite_segment deleted seg =
     (case map_of deleted (sg_ServerUUID seg) of
        None \<Rightarrow> [seg]
      | Some gone \<Rightarrow>
          let kept = filter (\<lambda>name. name \<notin> set gone) (sg_Binlogs seg) in
          if kept = [] then [] else [seg\<lparr>sg_Binlogs := kept\<rparr>])"

definition rewriteIndex :: "gotime \<Rightarrow> ArchiveIndex \<Rightarrow> (string, string list) gomap \<Rightarrow> ArchiveIndex" where
  "rewriteIndex now index deleted =
     index\<lparr>ix_Segments := concat (map (rewrite_segment deleted) (ix_Segments index)), ix_UpdatedAt := now\<rparr>"

definition gc_entry :: "gotime \<Rightarrow> BinlogEntry \<Rightarrow> bool" where
  "gc_entry horizon entry \<longleftrightarrow>
     \<not> (nm_LastEventTime (bl_Meta entry) = zero_time \<or> \<not> nm_LastEventTime (bl_Meta entry) < horizon)"

fun gc_loop :: "gotime \<Rightarrow> BinlogEntry list \<Rightarrow> (string, string list) gomap \<Rightarrow> (string, string list) gomap" where
  "gc_loop horizon [] deleted = deleted"
| "gc_loop horizon (entry # rest) deleted =
     gc_loop horizon rest
       (if gc_entry horizon entry
        then AList.update (nm_ServerUUID (bl_Meta entry))
               (List.insert (nm_BinlogName (bl_Meta entry)) (slice_at deleted (nm_ServerUUID (bl_Meta entry)))) deleted
        else deleted)"

definition applyBinlogGC :: "gotime \<Rightarrow> RetentionPlan \<Rightarrow> BinlogEntry list \<Rightarrow> ArchiveIndex option \<Rightarrow> RetentionPlan" where
  "applyBinlogGC now plan binlogs index =
     (case index of
        None \<Rightarrow> plan
      | Some idx \<Rightarrow>
          if rp_Horizon plan = zero_time then plan
          else let gone = filter (gc_entry (rp_Horizon plan)) binlogs;
                   plan = plan\<lparr>rp_DeleteBinlogKeys := rp_DeleteBinlogKeys plan @
                     concat (map (\<lambda>entry. [bk_BinlogKey (bl_Keys entry), bk_ManifestKey (bl_Keys entry)]) gone)\<rparr>;
                   deleted = gc_loop (rp_Horizon plan) binlogs []
               in if deleted = [] then plan
                  else plan\<lparr>rp_NewIndex := Some (rewriteIndex now idx deleted), rp_DeletedBinlogs := deleted\<rparr>)"

text \<open>Entries before the last expire before the cutoff; the last one is always retained.\<close>

definition expired :: "gotime \<Rightarrow> BackupEntry list \<Rightarrow> BackupEntry list" where
  "expired cutoff ordered = filter (\<lambda>entry. bm_CompletedAt (be_Meta entry) < cutoff) (butlast ordered)"

definition retained :: "gotime \<Rightarrow> BackupEntry list \<Rightarrow> BackupEntry list" where
  "retained cutoff ordered = filter (\<lambda>entry. \<not> bm_CompletedAt (be_Meta entry) < cutoff) (butlast ordered) @ [last ordered]"

definition PlanRetention ::
  "(BackupEntry list \<Rightarrow> BackupEntry list) \<Rightarrow> gotime \<Rightarrow> BackupEntry list \<Rightarrow> BinlogEntry list \<Rightarrow> ArchiveIndex option \<Rightarrow> gotime \<Rightarrow> RetentionPlan" where
  "PlanRetention srt now backups binlogs index cutoff =
     (let plan = \<lparr>rp_DeleteBackupPrefixes = [], rp_DeleteBinlogKeys = [], rp_NewIndex = None, rp_DeletedBinlogs = [],
            rp_Horizon = zero_time\<rparr>
      in if backups = [] then plan
         else let ordered = srt backups;
                  plan = plan\<lparr>rp_DeleteBackupPrefixes := map be_Prefix (expired cutoff ordered)\<rparr>
              in if rp_DeleteBackupPrefixes plan = [] then plan
                 else applyBinlogGC now
                   (plan\<lparr>rp_Horizon := bm_StartedAt (be_Meta (hd (retained cutoff ordered)))\<rparr>) binlogs index)"

section \<open>Listing\<close>

text \<open>\<open>ListObjects\<close> returns the keys under a prefix and \<open>GetJSON\<close> decodes an object; both are calls to
  the store, and the manifest of a key is the argument \<open>GetJSON\<close>.\<close>

fun base_backups :: "(string \<Rightarrow> BackupMetadata res) \<Rightarrow> string list \<Rightarrow> BackupEntry list res" where
  "base_backups GetJSON [] = Inr []"
| "base_backups GetJSON (key # keys) =
     (if \<not> HasSuffix key (''/'' @ BackupMetadataName) then base_backups GetJSON keys
      else bind_res (GetJSON key) (\<lambda>meta. bind_res (base_backups GetJSON keys) (\<lambda>entries.
        Inr (\<lparr>be_Prefix = TrimSuffix key BackupMetadataName, be_Meta = meta\<rparr> # entries))))"

definition ListBaseBackups :: "(string \<Rightarrow> string list res) \<Rightarrow> (string \<Rightarrow> BackupMetadata res) \<Rightarrow> S3ObjectStore \<Rightarrow> string \<Rightarrow> BackupEntry list res" where
  "ListBaseBackups ListObjects GetJSON store clusterName =
     bind_res (ListObjects (ClusterPrefix store clusterName)) (base_backups GetJSON)"

fun archived_binlogs :: "(string \<Rightarrow> BinlogMetadata res) \<Rightarrow> string list \<Rightarrow> BinlogEntry list res" where
  "archived_binlogs GetJSON [] = Inr []"
| "archived_binlogs GetJSON (key # keys) =
     (if \<not> HasSuffix key BinlogManifestSuffix then archived_binlogs GetJSON keys
      else if PathBase key = ArchiveStatusName \<or> PathBase key = ArchiveIndexName then archived_binlogs GetJSON keys
      else bind_res (GetJSON key) (\<lambda>meta. bind_res (archived_binlogs GetJSON keys) (\<lambda>entries.
        Inr (\<lparr>bl_Keys = \<lparr>bk_BinlogKey = TrimSuffix key BinlogManifestSuffix, bk_ManifestKey = key\<rparr>, bl_Meta = meta\<rparr> # entries))))"

definition ListArchivedBinlogs :: "(string \<Rightarrow> string list res) \<Rightarrow> (string \<Rightarrow> BinlogMetadata res) \<Rightarrow> S3ObjectStore \<Rightarrow> string \<Rightarrow> BinlogEntry list res" where
  "ListArchivedBinlogs ListObjects GetJSON store clusterName =
     bind_res (ListObjects (BinlogPrefix store clusterName)) (archived_binlogs GetJSON)"

section \<open>What a plan deletes\<close>

definition sorts_backups :: "(BackupEntry list \<Rightarrow> BackupEntry list) \<Rightarrow> bool" where
  "sorts_backups srt \<longleftrightarrow>
     (\<forall>xs. mset (srt xs) = mset xs \<and> sorted (map (\<lambda>e. bm_CompletedAt (be_Meta e)) (srt xs)))"

lemma sorts_backupsD:
  assumes "sorts_backups srt"
  shows "mset (srt xs) = mset xs" "set (srt xs) = set xs" "sorted (map (\<lambda>e. bm_CompletedAt (be_Meta e)) (srt xs))"
    "srt xs = [] \<longleftrightarrow> xs = []"
  using assms unfolding sorts_backups_def by (metis set_mset_mset, metis set_mset_mset, metis, metis mset_zero_iff)

lemma set_retained: "xs \<noteq> [] \<Longrightarrow> set (retained cutoff xs) \<subseteq> set xs"
  by (auto simp: retained_def dest: in_set_butlastD)

lemma retained_expired:
  assumes "xs \<noteq> []"
  shows "mset xs = mset (expired cutoff xs) + mset (retained cutoff xs)"
proof -
  have "mset xs = mset (butlast xs @ [last xs])" using assms by simp
  also have "\<dots> = mset (butlast xs) + {#last xs#}" by simp
  also have "mset (butlast xs) = mset (expired cutoff xs) +
      mset (filter (\<lambda>e. \<not> bm_CompletedAt (be_Meta e) < cutoff) (butlast xs))"
    using multiset_partition [of "mset (butlast xs)" "\<lambda>e. bm_CompletedAt (be_Meta e) < cutoff"]
    by (simp only: expired_def mset_filter)
  finally show ?thesis by (simp only: retained_def mset_append mset.simps) simp
qed

lemma hd_retained_first:
  assumes "sorted (map f xs)" "xs \<noteq> []" "e \<in> set (retained cutoff xs)"
    and f: "f = (\<lambda>e. bm_CompletedAt (be_Meta e))"
  shows "f (hd (retained cutoff xs)) \<le> f e"
proof -
  have "sorted (map f (retained cutoff xs))"
  proof -
    have "xs = butlast xs @ [last xs]" using assms(2) by simp
    then have "sorted (map f (butlast xs @ [last xs]))" using assms(1) by metis
    then show ?thesis unfolding retained_def by (auto simp: sorted_append intro: sorted_filter)
  qed
  then show ?thesis using assms(3) by (cases "retained cutoff xs") auto
qed

lemma gc_loop_spec:
  "name \<in> set (slice_at (gc_loop h binlogs d) u) \<longleftrightarrow>
     name \<in> set (slice_at d u) \<or>
     (\<exists>e \<in> set binlogs. gc_entry h e \<and> nm_ServerUUID (bl_Meta e) = u \<and> nm_BinlogName (bl_Meta e) = name)"
proof (induction binlogs arbitrary: d)
  case (Cons e rest)
  show ?case unfolding gc_loop.simps Cons.IH by (auto simp: slice_at_def update_conv' split: option.splits)
qed simp

lemma gc_loop_Some:
  assumes "\<And>u xs. map_of d u = Some xs \<Longrightarrow> xs \<noteq> []" "map_of (gc_loop h binlogs d) u = Some xs"
  shows "xs \<noteq> []"
  using assms
proof (induction binlogs arbitrary: d)
  case (Cons e rest)
  show ?case using Cons.prems(2) unfolding gc_loop.simps
    by (rule Cons.IH [rotated]) (auto simp: update_conv' List.insert_def split: if_splits dest: Cons.prems(1))
qed simp

lemma plan_backups:
  "rp_DeleteBackupPrefixes (PlanRetention srt now backups binlogs index cutoff) =
     (if backups = [] then [] else map be_Prefix (expired cutoff (srt backups)))"
  by (simp add: PlanRetention_def applyBinlogGC_def Let_def split: option.splits)

text \<open>The binlogs a plan deletes are those that end before the horizon, and nothing is deleted when no backup expired,
  when there is no index, or when the horizon is unknown.\<close>

definition collects :: "(BackupEntry list \<Rightarrow> BackupEntry list) \<Rightarrow> BackupEntry list \<Rightarrow> ArchiveIndex option \<Rightarrow> gotime \<Rightarrow> bool" where
  "collects srt backups index cutoff \<longleftrightarrow>
     backups \<noteq> [] \<and> expired cutoff (srt backups) \<noteq> [] \<and> index \<noteq> None \<and>
     bm_StartedAt (be_Meta (hd (retained cutoff (srt backups)))) \<noteq> zero_time"

definition plan_horizon :: "(BackupEntry list \<Rightarrow> BackupEntry list) \<Rightarrow> BackupEntry list \<Rightarrow> gotime \<Rightarrow> gotime" where
  "plan_horizon srt backups cutoff = bm_StartedAt (be_Meta (hd (retained cutoff (srt backups))))"

lemma plan_binlogs:
  "rp_DeleteBinlogKeys (PlanRetention srt now backups binlogs index cutoff) =
     (if collects srt backups index cutoff
      then concat (map (\<lambda>entry. [bk_BinlogKey (bl_Keys entry), bk_ManifestKey (bl_Keys entry)])
             (filter (gc_entry (plan_horizon srt backups cutoff)) binlogs))
      else [])"
  by (auto simp: PlanRetention_def applyBinlogGC_def collects_def plan_horizon_def Let_def split: option.splits)

lemma plan_deleted:
  "rp_DeletedBinlogs (PlanRetention srt now backups binlogs index cutoff) =
     (if collects srt backups index cutoff then gc_loop (plan_horizon srt backups cutoff) binlogs [] else [])"
  by (auto simp: PlanRetention_def applyBinlogGC_def collects_def plan_horizon_def Let_def split: option.splits)

lemma retained_not_deleted:
  assumes "sorts_backups srt" "backups \<noteq> []" "distinct (map be_Prefix backups)" "b \<in> set backups"
  shows "be_Prefix b \<notin> set (map be_Prefix (expired cutoff (srt backups))) \<longleftrightarrow> b \<in> set (retained cutoff (srt backups))"
proof -
  have ne: "srt backups \<noteq> []" using assms(1,2) sorts_backupsD(4) by blast
  have m: "mset backups = mset (expired cutoff (srt backups)) + mset (retained cutoff (srt backups))"
    using retained_expired [OF ne, of cutoff] sorts_backupsD(1) [OF assms(1)] by metis
  then have "mset (map be_Prefix backups) =
      mset (map be_Prefix (expired cutoff (srt backups)) @ map be_Prefix (retained cutoff (srt backups)))"
    by simp
  then have d: "distinct (map be_Prefix (expired cutoff (srt backups)) @ map be_Prefix (retained cutoff (srt backups)))"
    using assms(3) mset_eq_imp_distinct_iff by metis
  have s: "set backups = set (expired cutoff (srt backups)) \<union> set (retained cutoff (srt backups))"
    using m by (metis set_mset_mset set_mset_union)
  show ?thesis using d s assms(4) by auto
qed

lemma retained_last:
  assumes "sorts_backups srt" "backups \<noteq> []" "b \<in> set backups"
  shows "bm_CompletedAt (be_Meta b) \<le> bm_CompletedAt (be_Meta (last (srt backups)))"
proof -
  let ?xs = "srt backups" and ?f = "\<lambda>e. bm_CompletedAt (be_Meta e)"
  have ne: "?xs \<noteq> []" using assms(1,2) sorts_backupsD(4) by blast
  then have x: "?xs = butlast ?xs @ [last ?xs]" by simp
  have "sorted (map ?f (butlast ?xs @ [last ?xs]))" using sorts_backupsD(3) [OF assms(1)] x by metis
  moreover have "b \<in> set (butlast ?xs @ [last ?xs])" using assms(3) sorts_backupsD(2) [OF assms(1)] x by metis
  ultimately show ?thesis by (auto simp: sorted_append)
qed


section \<open>The rewritten index\<close>

definition listed :: "ArchiveIndex \<Rightarrow> string \<Rightarrow> string \<Rightarrow> bool" where
  "listed idx uuid name \<longleftrightarrow> (\<exists>seg \<in> set (ix_Segments idx). sg_ServerUUID seg = uuid \<and> name \<in> set (sg_Binlogs seg))"

lemma rewrite_segment_mem:
  "seg' \<in> set (rewrite_segment deleted seg) \<Longrightarrow>
     sg_ServerUUID seg' = sg_ServerUUID seg \<and> sg_Fork seg' = sg_Fork seg \<and> sg_GTIDSet seg' = sg_GTIDSet seg \<and>
     set (sg_Binlogs seg') = set (sg_Binlogs seg) - set (slice_at deleted (sg_ServerUUID seg))"
  by (auto simp: rewrite_segment_def slice_at_def Let_def split: option.splits if_splits)

lemma rewrite_segment_keeps:
  "name \<in> set (sg_Binlogs seg) \<Longrightarrow> name \<notin> set (slice_at deleted (sg_ServerUUID seg)) \<Longrightarrow> rewrite_segment deleted seg \<noteq> []"
  by (auto simp: rewrite_segment_def slice_at_def Let_def filter_empty_conv split: option.splits)

lemma rewriteIndex_listed:
  "listed (rewriteIndex now idx deleted) uuid name \<longleftrightarrow> listed idx uuid name \<and> name \<notin> set (slice_at deleted uuid)"
proof
  assume "listed (rewriteIndex now idx deleted) uuid name"
  then obtain seg seg' where "seg \<in> set (ix_Segments idx)" "seg' \<in> set (rewrite_segment deleted seg)"
    "sg_ServerUUID seg' = uuid" "name \<in> set (sg_Binlogs seg')" by (auto simp: listed_def rewriteIndex_def)
  then show "listed idx uuid name \<and> name \<notin> set (slice_at deleted uuid)"
    using rewrite_segment_mem [of seg' deleted seg] by (auto simp: listed_def)
next
  assume r: "listed idx uuid name \<and> name \<notin> set (slice_at deleted uuid)"
  then obtain seg where s: "seg \<in> set (ix_Segments idx)" "sg_ServerUUID seg = uuid" "name \<in> set (sg_Binlogs seg)"
    by (auto simp: listed_def)
  then obtain seg' where "seg' \<in> set (rewrite_segment deleted seg)"
    using r rewrite_segment_keeps [of name seg deleted] by (metis ex_in_conv set_empty)
  then show "listed (rewriteIndex now idx deleted) uuid name"
    using s r rewrite_segment_mem [of seg' deleted seg] by (force simp: listed_def rewriteIndex_def)
qed

lemma rewrite_segment_idem: "concat (map (rewrite_segment deleted) (rewrite_segment deleted seg)) = rewrite_segment deleted seg"
  by (simp add: rewrite_segment_def Let_def split: option.splits)

lemma rewriteIndex_idem: "rewriteIndex now (rewriteIndex now' idx deleted) deleted = rewriteIndex now idx deleted"
proof -
  have "concat (map (rewrite_segment deleted) (concat (map (rewrite_segment deleted) segs))) =
      concat (map (rewrite_segment deleted) segs)" for segs
    by (induction segs) (simp_all add: rewrite_segment_idem)
  then show ?thesis by (simp add: rewriteIndex_def)
qed

definition entry_keys :: "BinlogEntry \<Rightarrow> string list" where
  "entry_keys entry = [bk_BinlogKey (bl_Keys entry), bk_ManifestKey (bl_Keys entry)]"

definition entry_id :: "BinlogEntry \<Rightarrow> string \<times> string" where
  "entry_id entry = (nm_ServerUUID (bl_Meta entry), nm_BinlogName (bl_Meta entry))"

lemma distinct_concat_owner:
  assumes "distinct (concat (map f xs))" "x \<in> set xs" "y \<in> set xs" "k \<in> set (f x)" "k \<in> set (f y)"
  shows "x = y"
  using assms by (induction xs) auto

lemma deleted_key_iff:
  assumes "distinct (concat (map entry_keys binlogs))" "e \<in> set binlogs"
  shows "bk_BinlogKey (bl_Keys e) \<in> set (rp_DeleteBinlogKeys (PlanRetention srt now backups binlogs index cutoff)) \<longleftrightarrow>
    collects srt backups index cutoff \<and> gc_entry (plan_horizon srt backups cutoff) e"
proof -
  have "bk_BinlogKey (bl_Keys e) \<in> set (entry_keys e') \<Longrightarrow> e' \<in> set binlogs \<Longrightarrow> e' = e" for e'
    by (rule distinct_concat_owner [OF assms(1) _ assms(2)]) (auto simp: entry_keys_def)
  then show ?thesis unfolding plan_binlogs using assms(2) by (auto simp: entry_keys_def)
qed

lemma slice_at_Nil: "slice_at [] k = []"
  by (simp add: slice_at_def)

lemma deleted_name_iff:
  "name \<in> set (slice_at (rp_DeletedBinlogs (PlanRetention srt now backups binlogs index cutoff)) uuid) \<longleftrightarrow>
     collects srt backups index cutoff \<and>
     (\<exists>e \<in> set binlogs. gc_entry (plan_horizon srt backups cutoff) e \<and> entry_id e = (uuid, name))"
  unfolding plan_deleted by (simp add: gc_loop_spec entry_id_def slice_at_Nil)

text \<open>The index and the archive stay in step: rewriting an index with what a plan deletes drops a binary log from it
  exactly when the plan deletes its file, and leaves every other entry, and the fork record of every segment that
  remains, as it was.\<close>

theorem retention_index_in_step:
  assumes "distinct (concat (map entry_keys binlogs))" "distinct (map entry_id binlogs)"
    and plan: "plan = PlanRetention srt now backups binlogs index cutoff"
    and idx': "idx' = rewriteIndex now' idx (rp_DeletedBinlogs plan)"
  shows "(listed idx' uuid name \<longleftrightarrow> listed idx uuid name \<and>
      (\<forall>e \<in> set binlogs. entry_id e = (uuid, name) \<longrightarrow> bk_BinlogKey (bl_Keys e) \<notin> set (rp_DeleteBinlogKeys plan))) \<and>
    (\<forall>seg' \<in> set (ix_Segments idx'). \<exists>seg \<in> set (ix_Segments idx).
      sg_ServerUUID seg' = sg_ServerUUID seg \<and> sg_Fork seg' = sg_Fork seg \<and> sg_GTIDSet seg' = sg_GTIDSet seg)"
proof
  show "listed idx' uuid name \<longleftrightarrow> listed idx uuid name \<and>
      (\<forall>e \<in> set binlogs. entry_id e = (uuid, name) \<longrightarrow> bk_BinlogKey (bl_Keys e) \<notin> set (rp_DeleteBinlogKeys plan))"
    unfolding idx' rewriteIndex_listed plan deleted_name_iff using deleted_key_iff [OF assms(1)] by blast
  show "\<forall>seg' \<in> set (ix_Segments idx'). \<exists>seg \<in> set (ix_Segments idx).
      sg_ServerUUID seg' = sg_ServerUUID seg \<and> sg_Fork seg' = sg_Fork seg \<and> sg_GTIDSet seg' = sg_GTIDSet seg"
    unfolding idx' using rewrite_segment_mem by (fastforce simp: rewriteIndex_def)
qed

section \<open>Keys\<close>

lemma first_sep_eq: "x \<notin> set a \<Longrightarrow> x \<notin> set a' \<Longrightarrow> a @ x # b = a' @ x # b' \<longleftrightarrow> a = a' \<and> b = b'"
proof (induction a arbitrary: a')
  case Nil
  then show ?case by (cases a') auto
next
  case (Cons y a)
  then show ?case by (cases a') auto
qed

definition store_root :: "S3ObjectStore \<Rightarrow> string" where
  "store_root store = (let prefix = cleanPath (s3_Path store) in if prefix \<noteq> [] then prefix @ ''/'' else [])"

lemma ClusterPrefix_root: "ClusterPrefix store cluster = store_root store @ cluster @ ''/''"
  by (simp add: ClusterPrefix_def store_root_def Let_def)

lemma BuildBinlogKeys_Inr:
  assumes "BuildBinlogKeys store cluster uuid name = Inr k"
  shows "bk_BinlogKey k = store_root store @ cluster @ CHR ''/'' # BinlogPrefixComponent @ CHR ''/'' # uuid @ CHR ''/'' # name"
    "CHR ''/'' \<notin> set uuid" "CHR ''/'' \<notin> set name"
  using assms by (auto simp: BuildBinlogKeys_def ServerPrefix_def BinlogPrefix_def ClusterPrefix_root Let_def split: if_splits)

text \<open>The keys of archived binary logs do not collide: two files with the same key come from the same server and have
  the same name, and no key of one cluster lies under the prefix of another.\<close>

theorem binlog_keys_injective:
  assumes "BuildBinlogKeys store cluster uuid name = Inr k" "BuildBinlogKeys store cluster' uuid' name' = Inr k'"
    "CHR ''/'' \<notin> set cluster" "CHR ''/'' \<notin> set cluster'"
  shows "(bk_BinlogKey k = bk_BinlogKey k' \<longrightarrow> cluster = cluster' \<and> uuid = uuid' \<and> name = name') \<and>
    (cluster \<noteq> cluster' \<longrightarrow> take (length (ClusterPrefix store cluster')) (bk_BinlogKey k) \<noteq> ClusterPrefix store cluster')"
proof
  note k = BuildBinlogKeys_Inr [OF assms(1)] and k' = BuildBinlogKeys_Inr [OF assms(2)]
  show "bk_BinlogKey k = bk_BinlogKey k' \<longrightarrow> cluster = cluster' \<and> uuid = uuid' \<and> name = name'"
    using k(2,3) k'(2,3) assms(3,4) unfolding k(1) k'(1) by (simp add: first_sep_eq)
  show "cluster \<noteq> cluster' \<longrightarrow> take (length (ClusterPrefix store cluster')) (bk_BinlogKey k) \<noteq> ClusterPrefix store cluster'"
  proof (intro impI notI)
    assume "cluster \<noteq> cluster'" and t: "take (length (ClusterPrefix store cluster')) (bk_BinlogKey k) = ClusterPrefix store cluster'"
    have "bk_BinlogKey k = ClusterPrefix store cluster' @ drop (length (ClusterPrefix store cluster')) (bk_BinlogKey k)"
      using t append_take_drop_id by metis
    then obtain rest where "bk_BinlogKey k = store_root store @ cluster' @ CHR ''/'' # rest"
      unfolding ClusterPrefix_root by (metis append.assoc append_Cons append_Nil)
    then show False using \<open>cluster \<noteq> cluster'\<close> assms(3,4) unfolding k(1) by (simp add: first_sep_eq)
  qed
qed

section \<open>Disowned ranges\<close>

definition disowned_holds :: "ArchiveDisownedRange list \<Rightarrow> nat \<Rightarrow> nat \<Rightarrow> nat \<Rightarrow> bool" where
  "disowned_holds ranges domain server seq \<longleftrightarrow> (\<exists>r \<in> set ranges. Holds r domain server seq)"

lemma widen_range_Some:
  assumes "widen_range r ranges = Some (ranges', grew)" "dr_After r < dr_Through r"
  shows "(disowned_holds ranges' d s n \<longleftrightarrow> disowned_holds ranges d s n \<or> Holds r d s n) \<and> (grew \<or> ranges' = ranges)"
  using assms
proof (induction r ranges arbitrary: ranges' rule: widen_range.induct)
  case (2 r cur rest)
  show ?case
  proof (cases "dr_Domain cur \<noteq> dr_Domain r \<or> dr_Server cur \<noteq> dr_Server r \<or> dr_After r > dr_Through cur \<or> dr_Through r < dr_After cur")
    case True
    then obtain rest' where "widen_range r rest = Some (rest', grew)" "ranges' = cur # rest'"
      using 2(2) by (auto split: option.splits)
    with 2(1) [OF True this(1) 2(3)] show ?thesis by (auto simp: disowned_holds_def)
  next
    case False
    let ?m = "cur\<lparr>dr_After := min (dr_After cur) (dr_After r), dr_Through := max (dr_Through cur) (dr_Through r)\<rparr>"
    have "ranges' = ?m # rest \<and> (grew \<or> ?m = cur)"
      using 2(2) False by (auto simp: Let_def min_def max_def split: if_splits)
    moreover have "Holds ?m d s n \<longleftrightarrow> Holds cur d s n \<or> Holds r d s n"
      using False 2(3) by (auto simp: Holds_def)
    ultimately show ?thesis by (auto simp: disowned_holds_def)
  qed
qed simp

text \<open>The record of disowned transactions grows by exactly the range added: after \<open>AddRange\<close> a transaction is
  disowned when it was before or lies in the range, and a call that reports no growth changed nothing.\<close>

theorem AddRange_exact:
  "(disowned_holds (ad_Ranges (fst (AddRange d r))) domain server seq \<longleftrightarrow>
      disowned_holds (ad_Ranges d) domain server seq \<or> Holds r domain server seq) \<and>
   (snd (AddRange d r) \<or> fst (AddRange d r) = d)"
proof (cases "dr_Through r \<le> dr_After r")
  case True
  then show ?thesis by (auto simp: AddRange_def Holds_def)
next
  case False
  show ?thesis
  proof (cases "widen_range r (ad_Ranges d)")
    case None
    then show ?thesis using False by (auto simp: AddRange_def disowned_holds_def)
  next
    case (Some p)
    then obtain ranges' grew where w: "widen_range r (ad_Ranges d) = Some (ranges', grew)" by (cases p) auto
    then have "AddRange d r = (d\<lparr>ad_Ranges := ranges'\<rparr>, grew)" using False by (simp add: AddRange_def)
    then show ?thesis using widen_range_Some [OF w, of domain server seq] False by auto
  qed
qed

section \<open>Witnesses\<close>

definition by_completion :: "BackupEntry list \<Rightarrow> BackupEntry list" where
  "by_completion = sort_key (\<lambda>e. bm_CompletedAt (be_Meta e))"

lemma sorts_by_completion: "sorts_backups by_completion"
  by (simp add: sorts_backups_def by_completion_def)

definition wit_backup :: "string \<Rightarrow> gotime \<Rightarrow> gotime \<Rightarrow> BackupEntry" where
  "wit_backup dir started completed = \<lparr>be_Prefix = dir, be_Meta = \<lparr>bm_BackupID = dir, bm_ClusterName = ''db'',
     bm_ClusterUID = ''uid'', bm_BackupName = dir, bm_InstanceName = [], bm_Method = [], bm_ArchiveKey = [],
     bm_Compressed = False, bm_SizeBytes = 0, bm_SHA256 = [], bm_AnchorGTID = [], bm_AnchorServerUUID = [],
     bm_StartedAt = started, bm_CompletedAt = completed\<rparr>\<rparr>"

definition wit_binlog :: "string \<Rightarrow> gotime \<Rightarrow> BinlogEntry" where
  "wit_binlog name ended = \<lparr>bl_Keys = \<lparr>bk_BinlogKey = ''db/binlogs/s/'' @ name, bk_ManifestKey = ''db/binlogs/s/'' @ name @ ''.json''\<rparr>,
     bl_Meta = \<lparr>nm_ClusterName = ''db'', nm_ServerUUID = ''s'', nm_InstanceName = [], nm_BinlogName = name, nm_Sequence = 1,
       nm_FirstGTID = [], nm_LastGTID = [], nm_GTIDSet = [], nm_FirstEventTime = 1, nm_LastEventTime = ended, nm_SizeBytes = 0,
       nm_SHA256 = [], nm_ArchivedAt = ended\<rparr>\<rparr>"

definition wit_backups :: "BackupEntry list" where
  "wit_backups = [wit_backup ''db/b2/'' 100 120, wit_backup ''db/b1/'' 10 20]"

definition wit_binlogs :: "BinlogEntry list" where
  "wit_binlogs = [wit_binlog ''bin.1'' 30, wit_binlog ''bin.2'' 110]"

definition wit_index :: ArchiveIndex where
  "wit_index = zero_index\<lparr>ix_Segments := [\<lparr>sg_ServerUUID = ''s'', sg_InstanceName = [], sg_Binlogs = [''bin.1'', ''bin.2''],
     sg_GTIDSet = [], sg_StartGTIDSet = [], sg_Fork = None, sg_StartedAt = 1, sg_EndedAt = 110\<rparr>]\<rparr>"

definition wit_plan :: RetentionPlan where
  "wit_plan = PlanRetention by_completion 200 wit_backups wit_binlogs (Some wit_index) 50"

lemma wit_plan_facts:
  "rp_DeleteBackupPrefixes wit_plan = [''db/b1/'']" "rp_DeleteBinlogKeys wit_plan = [''db/binlogs/s/bin.1'', ''db/binlogs/s/bin.1.json'']"
  by (simp_all add: wit_plan_def plan_backups plan_binlogs collects_def plan_horizon_def by_completion_def wit_backups_def
      wit_backup_def expired_def retained_def wit_binlogs_def wit_binlog_def gc_entry_def zero_time_def)


lemma retention_index_in_step_witness:
  "\<not> listed (rewriteIndex 200 wit_index (rp_DeletedBinlogs wit_plan)) ''s'' ''bin.1''"
  using retention_index_in_step [OF _ _ wit_plan_def refl, of 200 wit_index "''s''" "''bin.1''"] unfolding wit_plan_facts
  by (simp add: wit_binlogs_def wit_binlog_def entry_keys_def entry_id_def)

definition wit_store :: S3ObjectStore where
  "wit_store = \<lparr>s3_Endpoint = [], s3_Bucket = ''b'', s3_Path = ''/p/'', s3_ForcePathStyle = None, s3_SignatureVersion = [],
     s3_ServerSideEncryption = None, s3_TLS = None\<rparr>"

lemma binlog_keys_injective_witness:
  "take (length (ClusterPrefix wit_store ''db'')) ''p/db-2/binlogs/s/bin.1'' \<noteq> ClusterPrefix wit_store ''db''"
proof -
  let ?k = "\<lparr>bk_BinlogKey = ''p/db-2/binlogs/s/bin.1'', bk_ManifestKey = ''p/db-2/binlogs/s/bin.1.json''\<rparr>"
  let ?k' = "\<lparr>bk_BinlogKey = ''p/db/binlogs/s/bin.1'', bk_ManifestKey = ''p/db/binlogs/s/bin.1.json''\<rparr>"
  have "BuildBinlogKeys wit_store ''db-2'' ''s'' ''bin.1'' = Inr ?k" by code_simp
  moreover have "BuildBinlogKeys wit_store ''db'' ''s'' ''bin.1'' = Inr ?k'" by code_simp
  ultimately show ?thesis using binlog_keys_injective [of wit_store "''db-2''" "''s''" "''bin.1''" ?k "''db''" "''s''" "''bin.1''" ?k'] by simp
qed

end
