(* ===== verification/Index_Cas.thy ===== *)
theory Index_Cas
  imports Archive_Index
begin

text \<open>
  Concurrent updates of the archive index (\<open>pkg/management/mysql/objectstore/index_cas.go\<close>). The archiver, a drain
  and retention write the same object; each update reads it with its ETag, changes the copy and writes it back only if the
  ETag is still current, at most eight times. The endpoint is an argument: a record of what it answers to a read and to a
  conditional write, with its documented behaviour as the predicate \<open>conditional_writes\<close>. Several updates run as
  writers of a step relation in which every call to the endpoint is one step.
\<close>

section \<open>The endpoint\<close>

datatype precondition = NoCondition | IfMatch string | IfNoneMatch

datatype put_error = PreconditionFailed | NotImplemented | OtherError go_error

type_synonym s3_object = "(ArchiveIndex \<times> string) option"

record s3_server =
  srv_get :: "s3_object \<Rightarrow> s3_object res"
  srv_put :: "precondition \<Rightarrow> ArchiveIndex \<Rightarrow> s3_object \<Rightarrow> put_error option \<times> s3_object"

definition satisfied :: "precondition \<Rightarrow> s3_object \<Rightarrow> bool" where
  "satisfied cond obj \<longleftrightarrow>
     (case cond of
        NoCondition \<Rightarrow> True
      | IfMatch etag \<Rightarrow> (case obj of None \<Rightarrow> False | Some (idx, current) \<Rightarrow> current = etag)
      | IfNoneMatch \<Rightarrow> obj = None)"

text \<open>An endpoint that implements conditional writes: a read returns the object or fails; a write succeeds only when its
  condition holds, is refused only when it does not, and one that fails for another reason may still have been applied, if
  its condition held. The ETag of what is stored is \<open>tag\<close> of it.\<close>

definition conditional_writes :: "(ArchiveIndex \<Rightarrow> string) \<Rightarrow> s3_server \<Rightarrow> bool" where
  "conditional_writes tag srv \<longleftrightarrow>
     (\<forall>obj obj'. srv_get srv obj = Inr obj' \<longrightarrow> obj' = obj) \<and>
     (\<forall>cond idx obj.
        case srv_put srv cond idx obj of
          (None, obj') \<Rightarrow> satisfied cond obj \<and> obj' = Some (idx, tag idx)
        | (Some PreconditionFailed, obj') \<Rightarrow> \<not> satisfied cond obj \<and> obj' = obj
        | (Some NotImplemented, obj') \<Rightarrow> False
        | (Some (OtherError err), obj') \<Rightarrow> obj' = obj \<or> satisfied cond obj \<and> obj' = Some (idx, tag idx))"

section \<open>The client\<close>

datatype put_result = PutOk | PutLost | PutFailed go_error

definition GetJSONVersion :: "s3_server \<Rightarrow> s3_object \<Rightarrow> (ArchiveIndex \<times> string \<times> bool) res" where
  "GetJSONVersion srv obj =
     bind_res (srv_get srv obj) (\<lambda>found.
       case found of None \<Rightarrow> Inr (zero_index, [], False) | Some (idx, etag) \<Rightarrow> Inr (idx, etag, True))"

text \<open>The conditional write, the fallback to an unconditional one latched in the client's flag, and the errors.\<close>

definition PutJSONIf :: "s3_server \<Rightarrow> bool \<Rightarrow> ArchiveIndex \<Rightarrow> string \<Rightarrow> s3_object \<Rightarrow> put_result \<times> bool \<times> s3_object" where
  "PutJSONIf srv unconditional idx etag obj =
     (let cond = (if unconditional then NoCondition else if etag = [] then IfNoneMatch else IfMatch etag);
          (err, obj1) = srv_put srv cond idx obj;
          (err, unconditional, obj2) =
            (if err = Some NotImplemented \<and> \<not> unconditional
             then (case srv_put srv NoCondition idx obj1 of (err, obj2) \<Rightarrow> (err, True, obj2))
             else (err, unconditional, obj1))
      in (case err of
            None \<Rightarrow> PutOk
          | Some PreconditionFailed \<Rightarrow> PutLost
          | Some NotImplemented \<Rightarrow> PutFailed (Errorf ''uploading: not implemented'' [])
          | Some (OtherError e) \<Rightarrow> PutFailed (Wrapf ''uploading: %w'' [] e),
          unconditional, obj2))"

section \<open>The update\<close>

definition indexUpdateAttempts :: nat where "indexUpdateAttempts = 8"

text \<open>Where an update is: about to read, with the attempts left; holding what it will write, the ETag it read and the
  attempts left after this one; or returned, having written, having found nothing to write, or with an error.\<close>

datatype writer = Idle nat | Holding ArchiveIndex string nat | Wrote | Unchanged | Failed go_error

type_synonym mutation = "ArchiveIndex \<Rightarrow> bool \<Rightarrow> (ArchiveIndex \<times> bool) res"

definition contention :: go_error where
  "contention = Errorf ''objectstore: archive index kept changing under the update'' []"

definition read_step :: "s3_server \<Rightarrow> mutation \<Rightarrow> nat \<Rightarrow> s3_object \<Rightarrow> writer" where
  "read_step srv mutate n obj =
     (case GetJSONVersion srv obj of
        Inl err \<Rightarrow> Failed (Wrapf ''reading archive index: %w'' [] err)
      | Inr (idx, etag, exists) \<Rightarrow>
          (case mutate idx exists of
             Inl err \<Rightarrow> Failed err
           | Inr (idx', write) \<Rightarrow> if \<not> write then Unchanged else Holding idx' etag n))"

definition put_step :: "s3_server \<Rightarrow> bool \<Rightarrow> ArchiveIndex \<Rightarrow> string \<Rightarrow> nat \<Rightarrow> s3_object \<Rightarrow> writer \<times> bool \<times> s3_object" where
  "put_step srv unconditional idx etag n obj =
     (case PutJSONIf srv unconditional idx etag obj of
        (PutOk, u, obj') \<Rightarrow> (Wrote, u, obj')
      | (PutLost, u, obj') \<Rightarrow> (Idle n, u, obj')
      | (PutFailed err, u, obj') \<Rightarrow> (Failed (Wrapf ''writing archive index: %w'' [] err), u, obj'))"

text \<open>The update with no other writer between its calls.\<close>

fun update_loop :: "s3_server \<Rightarrow> mutation \<Rightarrow> nat \<Rightarrow> bool \<Rightarrow> s3_object \<Rightarrow> writer \<times> bool \<times> s3_object" where
  "update_loop srv mutate 0 unconditional obj = (Failed contention, unconditional, obj)"
| "update_loop srv mutate (Suc n) unconditional obj =
     (case read_step srv mutate n obj of
        Holding idx etag m \<Rightarrow>
          (case put_step srv unconditional idx etag n obj of
             (Idle k, u, obj') \<Rightarrow> update_loop srv mutate n u obj'
           | returned \<Rightarrow> returned)
      | w \<Rightarrow> (w, unconditional, obj))"

definition UpdateArchiveIndex :: "s3_server \<Rightarrow> mutation \<Rightarrow> bool \<Rightarrow> s3_object \<Rightarrow> writer \<times> bool \<times> s3_object" where
  "UpdateArchiveIndex srv mutate unconditional obj = update_loop srv mutate indexUpdateAttempts unconditional obj"

section \<open>Several writers\<close>

text \<open>The object, where each writer is, and the order in which writes were applied.\<close>

record cas_state =
  ca_obj :: s3_object
  ca_pc :: "nat \<Rightarrow> writer"
  ca_log :: "nat list"

inductive cas_step :: "(ArchiveIndex \<Rightarrow> string) \<Rightarrow> (nat \<Rightarrow> mutation) \<Rightarrow> cas_state \<Rightarrow> cas_state \<Rightarrow> bool"
  for tag :: "ArchiveIndex \<Rightarrow> string" and mut :: "nat \<Rightarrow> mutation" where
  give_up: "ca_pc s w = Idle 0 \<Longrightarrow> cas_step tag mut s (s\<lparr>ca_pc := (ca_pc s)(w := Failed contention)\<rparr>)"
| read: "conditional_writes tag srv \<Longrightarrow> ca_pc s w = Idle (Suc n) \<Longrightarrow>
    cas_step tag mut s (s\<lparr>ca_pc := (ca_pc s)(w := read_step srv (mut w) n (ca_obj s))\<rparr>)"
| put: "conditional_writes tag srv \<Longrightarrow> ca_pc s w = Holding idx etag n \<Longrightarrow>
    put_step srv False idx etag n (ca_obj s) = (pc', u, obj') \<Longrightarrow>
    cas_step tag mut s (s\<lparr>ca_obj := obj', ca_pc := (ca_pc s)(w := pc'),
      ca_log := (if pc' = Wrote \<or> obj' \<noteq> ca_obj s then ca_log s @ [w] else ca_log s)\<rparr>)"

inductive cas_run :: "(ArchiveIndex \<Rightarrow> string) \<Rightarrow> (nat \<Rightarrow> mutation) \<Rightarrow> cas_state \<Rightarrow> cas_state \<Rightarrow> bool"
  for tag :: "ArchiveIndex \<Rightarrow> string" and mut :: "nat \<Rightarrow> mutation" and s0 :: cas_state where
  start: "cas_run tag mut s0 s0"
| step: "cas_run tag mut s0 s \<Longrightarrow> cas_step tag mut s s' \<Longrightarrow> cas_run tag mut s0 s'"

text \<open>What one mutation makes of the stored index, and every writer about to start on a stored object.\<close>

definition apply_mutation :: "mutation \<Rightarrow> ArchiveIndex option \<Rightarrow> ArchiveIndex option" where
  "apply_mutation m stored =
     (case m (case stored of None \<Rightarrow> zero_index | Some idx \<Rightarrow> idx) (stored \<noteq> None) of
        Inr (idx, True) \<Rightarrow> Some idx
      | _ \<Rightarrow> stored)"

definition starts_with :: "(ArchiveIndex \<Rightarrow> string) \<Rightarrow> ArchiveIndex option \<Rightarrow> cas_state \<Rightarrow> bool" where
  "starts_with tag stored s \<longleftrightarrow>
     ca_obj s = map_option (\<lambda>idx. (idx, tag idx)) stored \<and> ca_log s = [] \<and> (\<forall>w. ca_pc s w = Idle indexUpdateAttempts)"

text \<open>ETags are not empty and distinguish the indexes in use, a set the mutations stay in.\<close>

definition tags_distinguish :: "(ArchiveIndex \<Rightarrow> string) \<Rightarrow> (nat \<Rightarrow> mutation) \<Rightarrow> ArchiveIndex option \<Rightarrow> ArchiveIndex set \<Rightarrow> bool" where
  "tags_distinguish tag mut stored U \<longleftrightarrow>
     inj_on tag U \<and> (\<forall>idx \<in> U. tag idx \<noteq> []) \<and> set_option stored \<subseteq> U \<and>
     (\<forall>w idx. \<forall>exists. (exists \<longrightarrow> idx \<in> U) \<longrightarrow> (\<not> exists \<longrightarrow> idx = zero_index) \<longrightarrow>
        (case mut w idx exists of Inr (idx', True) \<Rightarrow> idx' \<in> U | _ \<Rightarrow> True))"

section \<open>One call\<close>

definition condition_of :: "string \<Rightarrow> precondition" where
  "condition_of etag = (if etag = [] then IfNoneMatch else IfMatch etag)"

lemma conditional_put:
  assumes "conditional_writes tag srv" "srv_put srv cond idx obj = (err, obj')"
  shows "(err = None \<and> satisfied cond obj \<and> obj' = Some (idx, tag idx)) \<or>
    (err = Some PreconditionFailed \<and> \<not> satisfied cond obj \<and> obj' = obj) \<or>
    (\<exists>e. err = Some (OtherError e) \<and> (obj' = obj \<or> satisfied cond obj \<and> obj' = Some (idx, tag idx)))"
proof -
  have "case (err, obj') of
          (None, obj') \<Rightarrow> satisfied cond obj \<and> obj' = Some (idx, tag idx)
        | (Some PreconditionFailed, obj') \<Rightarrow> \<not> satisfied cond obj \<and> obj' = obj
        | (Some NotImplemented, obj') \<Rightarrow> False
        | (Some (OtherError err), obj') \<Rightarrow> obj' = obj \<or> satisfied cond obj \<and> obj' = Some (idx, tag idx)"
    using conjunct2 [OF assms(1) [unfolded conditional_writes_def], THEN spec [of _ cond], THEN spec [of _ idx], THEN spec [of _ obj]]
    unfolding assms(2) .
  then show ?thesis by (auto split: option.splits put_error.splits)
qed

lemma put_step_cases:
  assumes "conditional_writes tag srv" "put_step srv False idx etag n obj = (pc', u, obj')"
  obtains "pc' = Wrote" "satisfied (condition_of etag) obj" "obj' = Some (idx, tag idx)"
  | "pc' = Idle n" "\<not> satisfied (condition_of etag) obj" "obj' = obj"
  | e where "pc' = Failed e" "obj' = obj"
  | e where "pc' = Failed e" "satisfied (condition_of etag) obj" "obj' = Some (idx, tag idx)"
proof -
  obtain err obj1 where p: "srv_put srv (condition_of etag) idx obj = (err, obj1)" by force
  have ps: "put_step srv False idx etag n obj =
      (case (case srv_put srv (condition_of etag) idx obj of (err, obj1) \<Rightarrow>
         if err = Some NotImplemented then (case srv_put srv NoCondition idx obj1 of (err, obj2) \<Rightarrow> (err, True, obj2))
         else (err, False, obj1)) of
        (None, u, obj') \<Rightarrow> (Wrote, u, obj')
      | (Some PreconditionFailed, u, obj') \<Rightarrow> (Idle n, u, obj')
      | (Some NotImplemented, u, obj') \<Rightarrow> (Failed (Wrapf ''writing archive index: %w'' [] (Errorf ''uploading: not implemented'' [])), u, obj')
      | (Some (OtherError e), u, obj') \<Rightarrow> (Failed (Wrapf ''writing archive index: %w'' [] (Wrapf ''uploading: %w'' [] e)), u, obj'))"
    by (simp add: put_step_def PutJSONIf_def condition_of_def split: option.split put_error.split prod.split)
  from conditional_put [OF assms(1) p] consider
      "err = None" "satisfied (condition_of etag) obj" "obj1 = Some (idx, tag idx)"
    | "err = Some PreconditionFailed" "\<not> satisfied (condition_of etag) obj" "obj1 = obj"
    | e where "err = Some (OtherError e)" "obj1 = obj"
    | e where "err = Some (OtherError e)" "satisfied (condition_of etag) obj" "obj1 = Some (idx, tag idx)"
    by blast
  then show ?thesis
  proof cases
    case 1
    then show ?thesis using ps p assms(2) by (intro that(1)) simp_all
  next
    case 2
    then show ?thesis using ps p assms(2) by (intro that(2)) simp_all
  next
    case (3 e)
    then show ?thesis using ps p assms(2) that(3) by simp
  next
    case (4 e)
    then show ?thesis using ps p assms(2) that(4) by simp
  qed
qed

lemma read_step_cases:
  assumes "conditional_writes tag srv" "obj = map_option (\<lambda>idx. (idx, tag idx)) stored"
  obtains e where "read_step srv m n obj = Failed e"
  | "read_step srv m n obj = Unchanged"
  | idx where "read_step srv m n obj = Holding idx (case stored of None \<Rightarrow> [] | Some i \<Rightarrow> tag i) n"
      "m (case stored of None \<Rightarrow> zero_index | Some i \<Rightarrow> i) (stored \<noteq> None) = Inr (idx, True)"
proof (cases "srv_get srv obj")
  case (Inl e)
  then show ?thesis using that(1) by (simp add: read_step_def GetJSONVersion_def bind_res_def)
next
  case (Inr found)
  then have "found = obj" using assms(1) by (simp add: conditional_writes_def)
  then have "GetJSONVersion srv obj = Inr (case stored of None \<Rightarrow> (zero_index, [], False) | Some i \<Rightarrow> (i, tag i, True))"
    using Inr assms(2) by (cases stored) (simp_all add: GetJSONVersion_def bind_res_def)
  then have r: "read_step srv m n obj = (case m (case stored of None \<Rightarrow> zero_index | Some i \<Rightarrow> i) (stored \<noteq> None) of
      Inl err \<Rightarrow> Failed err
    | Inr (idx, write) \<Rightarrow> if \<not> write then Unchanged else Holding idx (case stored of None \<Rightarrow> [] | Some i \<Rightarrow> tag i) n)"
    by (cases stored) (simp_all add: read_step_def split: sum.split prod.split)
  show ?thesis
  proof (cases "m (case stored of None \<Rightarrow> zero_index | Some i \<Rightarrow> i) (stored \<noteq> None)")
    case (Inl e)
    then show ?thesis using that(1) r by simp
  next
    case (Inr p)
    obtain idx wr where "p = (idx, wr)" by force
    then show ?thesis using that(2) that(3) [of idx] r Inr by (cases wr) simp_all
  qed
qed

section \<open>The invariant\<close>

definition written :: "(nat \<Rightarrow> mutation) \<Rightarrow> ArchiveIndex option \<Rightarrow> nat list \<Rightarrow> ArchiveIndex option" where
  "written mut stored log = foldl (\<lambda>c w. apply_mutation (mut w) c) stored log"

definition token :: "(ArchiveIndex \<Rightarrow> string) \<Rightarrow> ArchiveIndex option \<Rightarrow> string" where
  "token tag stored = (case stored of None \<Rightarrow> [] | Some idx \<Rightarrow> tag idx)"

definition pc_ok :: "(ArchiveIndex \<Rightarrow> string) \<Rightarrow> mutation \<Rightarrow> ArchiveIndex set \<Rightarrow> bool \<Rightarrow> writer \<Rightarrow> bool" where
  "pc_ok tag m U logged pc \<longleftrightarrow>
     (case pc of
        Idle n \<Rightarrow> \<not> logged
      | Holding idx etag n \<Rightarrow> \<not> logged \<and>
          (\<exists>c. etag = token tag c \<and> set_option c \<subseteq> U \<and>
             m (case c of None \<Rightarrow> zero_index | Some i \<Rightarrow> i) (c \<noteq> None) = Inr (idx, True))
      | Wrote \<Rightarrow> logged
      | Unchanged \<Rightarrow> \<not> logged
      | Failed e \<Rightarrow> True)"

definition cas_inv :: "(ArchiveIndex \<Rightarrow> string) \<Rightarrow> (nat \<Rightarrow> mutation) \<Rightarrow> ArchiveIndex option \<Rightarrow> ArchiveIndex set \<Rightarrow> cas_state \<Rightarrow> bool" where
  "cas_inv tag mut stored U s \<longleftrightarrow>
     ca_obj s = map_option (\<lambda>idx. (idx, tag idx)) (written mut stored (ca_log s)) \<and>
     set_option (written mut stored (ca_log s)) \<subseteq> U \<and>
     distinct (ca_log s) \<and>
     (\<forall>w. pc_ok tag (mut w) U (w \<in> set (ca_log s)) (ca_pc s w))"

lemma satisfied_token:
  assumes "tags_distinguish tag mut stored U" "set_option c \<subseteq> U" "set_option d \<subseteq> U"
  shows "satisfied (condition_of (token tag c)) (map_option (\<lambda>idx. (idx, tag idx)) d) \<longleftrightarrow> c = d"
  using assms by (cases c; cases d) (auto simp: satisfied_def condition_of_def token_def tags_distinguish_def inj_on_def)

lemma apply_mutation_Some:
  "m (case c of None \<Rightarrow> zero_index | Some i \<Rightarrow> i) (c \<noteq> None) = Inr (idx, True) \<Longrightarrow> apply_mutation m c = Some idx"
  by (simp add: apply_mutation_def)

lemma mutation_stays:
  assumes "tags_distinguish tag mut stored U" "set_option c \<subseteq> U"
    "mut w (case c of None \<Rightarrow> zero_index | Some i \<Rightarrow> i) (c \<noteq> None) = Inr (idx, True)"
  shows "idx \<in> U"
proof -
  let ?i = "case c of None \<Rightarrow> zero_index | Some i \<Rightarrow> i"
  have "\<forall>w idx. \<forall>exists. (exists \<longrightarrow> idx \<in> U) \<longrightarrow> (\<not> exists \<longrightarrow> idx = zero_index) \<longrightarrow>
      (case mut w idx exists of Inr (idx', True) \<Rightarrow> idx' \<in> U | _ \<Rightarrow> True)"
    using assms(1) unfolding tags_distinguish_def by (elim conjE)
  from this [THEN spec [of _ w], THEN spec [of _ ?i], THEN spec [of _ "c \<noteq> None"]]
  have "(c \<noteq> None \<longrightarrow> ?i \<in> U) \<longrightarrow> (c = None \<longrightarrow> ?i = zero_index) \<longrightarrow> idx \<in> U" unfolding assms(3) by simp
  then show ?thesis using assms(2) by (auto split: option.splits)
qed

lemma cas_inv_start: "tags_distinguish tag mut stored U \<Longrightarrow> starts_with tag stored s \<Longrightarrow> cas_inv tag mut stored U s"
  by (simp add: cas_inv_def starts_with_def written_def tags_distinguish_def pc_ok_def)

lemma written_snoc: "written mut stored (log @ [w]) = apply_mutation (mut w) (written mut stored log)"
  by (simp add: written_def)

lemma cas_inv_read:
  assumes "cas_inv tag mut stored U s" "conditional_writes tag srv" "ca_pc s w = Idle (Suc n)"
  shows "cas_inv tag mut stored U (s\<lparr>ca_pc := (ca_pc s)(w := read_step srv (mut w) n (ca_obj s))\<rparr>)"
proof -
  let ?c = "written mut stored (ca_log s)"
  have o: "ca_obj s = map_option (\<lambda>idx. (idx, tag idx)) ?c" and U: "set_option ?c \<subseteq> U"
    and w: "w \<notin> set (ca_log s)" using assms(1,3) by (auto simp: cas_inv_def pc_ok_def dest!: spec [of _ w])
  have "pc_ok tag (mut w) U False (read_step srv (mut w) n (ca_obj s))"
    by (rule read_step_cases [OF assms(2) o, of "mut w" n]) (use U in \<open>auto simp: pc_ok_def token_def\<close>)
  then show ?thesis using assms(1) w by (auto simp: cas_inv_def)
qed

lemma cas_inv_applied:
  assumes inv: "cas_inv tag mut stored U s" and td: "tags_distinguish tag mut stored U"
    and pc: "ca_pc s w = Holding idx etag n" and sat: "satisfied (condition_of etag) (ca_obj s)"
    and pc': "pc' = Wrote \<or> (\<exists>e. pc' = Failed e)"
  shows "cas_inv tag mut stored U (s\<lparr>ca_obj := Some (idx, tag idx), ca_pc := (ca_pc s)(w := pc'), ca_log := ca_log s @ [w]\<rparr>)"
proof -
  let ?c = "written mut stored (ca_log s)"
  have o: "ca_obj s = map_option (\<lambda>idx. (idx, tag idx)) ?c" and U: "set_option ?c \<subseteq> U"
    using inv by (simp_all add: cas_inv_def)
  have ok: "pc_ok tag (mut w) U (w \<in> set (ca_log s)) (Holding idx etag n)" using inv pc by (metis cas_inv_def)
  then obtain c where c: "etag = token tag c" "set_option c \<subseteq> U"
    "mut w (case c of None \<Rightarrow> zero_index | Some i \<Rightarrow> i) (c \<noteq> None) = Inr (idx, True)" and w: "w \<notin> set (ca_log s)"
    by (auto simp: pc_ok_def)
  have "c = ?c" using sat unfolding o c(1) satisfied_token [OF td c(2) U] .
  then have app: "written mut stored (ca_log s @ [w]) = Some idx" using c(3) by (simp only: written_snoc apply_mutation_Some)
  have "pc_ok tag (mut v) U (v \<in> set (ca_log s @ [w])) (((ca_pc s)(w := pc')) v)" for v
    using inv pc' by (cases "v = w") (auto simp: cas_inv_def pc_ok_def)
  then show ?thesis using inv app w mutation_stays [OF td c(2,3)] by (simp add: cas_inv_def)
qed

lemma cas_inv_step:
  assumes "cas_step tag mut s s'" "tags_distinguish tag mut stored U" "cas_inv tag mut stored U s"
  shows "cas_inv tag mut stored U s'"
  using assms
proof (induction rule: cas_step.induct)
  case (give_up s w)
  then show ?case by (auto simp: cas_inv_def pc_ok_def)
next
  case (read srv s w n)
  then show ?case using cas_inv_read by blast
next
  case (put srv s w idx etag n pc' u obj')
  have ok: "pc_ok tag (mut w) U (w \<in> set (ca_log s)) (Holding idx etag n)" using put(5) put(2) by (metis cas_inv_def)
  from put(1,3) show ?case
  proof (cases rule: put_step_cases)
    case 1
    then show ?thesis using cas_inv_applied [OF put(5,4,2)] by simp
  next
    case 2
    then show ?thesis using put(5) ok by (auto simp: cas_inv_def pc_ok_def)
  next
    case (3 e)
    then show ?thesis using put(5) by (auto simp: cas_inv_def pc_ok_def)
  next
    case (4 e)
    then show ?thesis
    proof (cases "obj' = ca_obj s")
      case True
      then show ?thesis using put(5) 4(1) by (auto simp: cas_inv_def pc_ok_def)
    next
      case False
      then show ?thesis using cas_inv_applied [OF put(5,4,2) 4(2)] 4(1,3) by simp
    qed
  qed
qed

lemma cas_inv_run:
  assumes "cas_run tag mut s0 s" "tags_distinguish tag mut stored U" "starts_with tag stored s0"
  shows "cas_inv tag mut stored U s"
  using assms(1)
proof (induction rule: cas_run.induct)
  case start
  then show ?case using cas_inv_start assms(2,3) by blast
next
  case (step s s')
  then show ?case using cas_inv_step assms(2) by blast
qed

text \<open>C37. No update of the index is lost. However the reads and the conditional writes of any number of writers
  interleave, and whatever calls fail, the stored index is what the mutations of the writers whose writes were applied make
  of the first one, one after the other; no write is applied twice, every writer that returned success after writing is
  among them, and one that found nothing to write, or has not written yet, is not.\<close>

theorem index_no_lost_update:
  assumes "cas_run tag mut s0 s" "starts_with tag stored s0" "tags_distinguish tag mut stored U"
  shows "map_option fst (ca_obj s) = written mut stored (ca_log s) \<and> distinct (ca_log s) \<and>
    (ca_pc s w = Wrote \<longrightarrow> w \<in> set (ca_log s)) \<and>
    (ca_pc s w = Unchanged \<or> ca_pc s w = Idle n \<or> ca_pc s w = Holding idx etag n \<longrightarrow> w \<notin> set (ca_log s))"
proof -
  have inv: "cas_inv tag mut stored U s" by (rule cas_inv_run [OF assms(1,3,2)])
  then have pc: "pc_ok tag (mut w) U (w \<in> set (ca_log s)) (ca_pc s w)" by (simp add: cas_inv_def)
  have "map_option fst (ca_obj s) = written mut stored (ca_log s)" "distinct (ca_log s)"
    using inv by (simp_all add: cas_inv_def option.map_comp comp_def option.map_ident)
  then show ?thesis using pc by (auto simp: pc_ok_def)
qed

section \<open>Progress\<close>

definition losses_ok :: "nat \<Rightarrow> s3_object \<Rightarrow> bool \<Rightarrow> writer \<Rightarrow> bool" where
  "losses_ok writes obj logged pc \<longleftrightarrow>
     (case pc of
        Idle n \<Rightarrow> indexUpdateAttempts \<le> n + writes \<and> \<not> logged
      | Holding idx etag n \<Rightarrow> indexUpdateAttempts \<le> Suc n + writes \<and> \<not> logged \<and>
          (\<not> satisfied (condition_of etag) obj \<longrightarrow> indexUpdateAttempts \<le> n + writes)
      | Failed e \<Rightarrow> e = contention \<longrightarrow> indexUpdateAttempts \<le> writes \<and> \<not> logged
      | _ \<Rightarrow> True)"

definition losses_inv :: "cas_state \<Rightarrow> bool" where
  "losses_inv s \<longleftrightarrow> (\<forall>w. losses_ok (length (ca_log s)) (ca_obj s) (w \<in> set (ca_log s)) (ca_pc s w))"

lemma read_not_contention:
  "(\<And>idx exists. m idx exists \<noteq> Inl contention) \<Longrightarrow> read_step srv m n obj \<noteq> Failed contention"
  by (auto simp: read_step_def contention_def split: sum.splits prod.splits if_splits)

lemma put_not_contention: "put_step srv u idx etag n obj = (pc', u', obj') \<Longrightarrow> pc' \<noteq> Failed contention"
  by (auto simp: put_step_def contention_def split: prod.splits put_result.splits)

lemma losses_other: "losses_ok k obj l pc \<Longrightarrow> losses_ok (Suc k) obj' l pc"
  by (cases pc) (auto simp: losses_ok_def)

lemma losses_inv_step:
  assumes "cas_step tag mut s s'" "tags_distinguish tag mut stored U" "cas_inv tag mut stored U s" "losses_inv s"
    and mc: "\<And>w idx exists. mut w idx exists \<noteq> Inl contention"
  shows "losses_inv s'"
  using assms(1-4)
proof (induction rule: cas_step.induct)
  case (give_up s w)
  then have "losses_ok (length (ca_log s)) (ca_obj s) (w \<in> set (ca_log s)) (Idle 0)" by (metis losses_inv_def)
  then show ?case using give_up(4) by (auto simp: losses_inv_def losses_ok_def)
next
  case (read srv s w n)
  let ?c = "written mut stored (ca_log s)"
  have o: "ca_obj s = map_option (\<lambda>idx. (idx, tag idx)) ?c" and U: "set_option ?c \<subseteq> U" using read(4) by (simp_all add: cas_inv_def)
  have l: "losses_ok (length (ca_log s)) (ca_obj s) (w \<in> set (ca_log s)) (Idle (Suc n))" using read(2,5) by (metis losses_inv_def)
  have "losses_ok (length (ca_log s)) (ca_obj s) (w \<in> set (ca_log s)) (read_step srv (mut w) n (ca_obj s))"
  proof (rule read_step_cases [OF read(1) o, of "mut w" n])
    fix e assume "read_step srv (mut w) n (ca_obj s) = Failed e"
    then show ?thesis using read_not_contention [of "mut w" srv n "ca_obj s"] mc by (auto simp: losses_ok_def)
  next
    fix idx assume r: "read_step srv (mut w) n (ca_obj s) = Holding idx (case ?c of None \<Rightarrow> [] | Some i \<Rightarrow> tag i) n"
    have "satisfied (condition_of (token tag ?c)) (ca_obj s)" unfolding o using satisfied_token [OF read(3) U U] by simp
    then show ?thesis using l unfolding r token_def by (simp add: losses_ok_def)
  qed (simp add: losses_ok_def)
  then show ?case using read(5) by (auto simp: losses_inv_def)
next
  case (put srv s w idx etag n pc' u obj')
  let ?k = "length (ca_log s)"
  have l: "losses_ok ?k (ca_obj s) (w \<in> set (ca_log s)) (Holding idx etag n)" using put(2,6) by (metis losses_inv_def)
  have nc: "pc' \<noteq> Failed contention" using put_not_contention [OF put(3)] .
  show ?case
  proof (cases "pc' = Wrote \<or> obj' \<noteq> ca_obj s")
    case True
    have "losses_ok (Suc ?k) obj' True pc'"
      using True nc by (rule_tac put_step_cases [OF put(1,3)]) (auto simp: losses_ok_def)
    moreover have "losses_ok (Suc ?k) obj' (v \<in> set (ca_log s)) (ca_pc s v)" for v
      using put(6) by (intro losses_other [of _ "ca_obj s"]) (simp add: losses_inv_def)
    ultimately show ?thesis using True by (simp add: losses_inv_def)
  next
    case False
    have "losses_ok ?k obj' (w \<in> set (ca_log s)) pc'"
      using False nc l by (rule_tac put_step_cases [OF put(1,3)]) (auto simp: losses_ok_def)
    then show ?thesis using False put(6) by (simp add: losses_inv_def)
  qed
qed

lemma losses_inv_run:
  assumes "cas_run tag mut s0 s" "tags_distinguish tag mut stored U" "starts_with tag stored s0"
    and mc: "\<And>w idx exists. mut w idx exists \<noteq> Inl contention"
  shows "losses_inv s"
  using assms(1)
proof (induction rule: cas_run.induct)
  case start
  then show ?case using assms(3) by (simp add: losses_inv_def losses_ok_def starts_with_def)
next
  case (step s s')
  then show ?case using losses_inv_step [OF step(2) assms(2) cas_inv_run [OF step(1) assms(2,3)] step(3) mc] by blast
qed

text \<open>An update gives up only because others get through: when a writer returns the contention error, at least as
  many writes were applied as it had attempts, none of them its own.\<close>

theorem contention_means_progress:
  assumes "cas_run tag mut s0 s" "starts_with tag stored s0" "tags_distinguish tag mut stored U"
    "\<And>w idx exists. mut w idx exists \<noteq> Inl contention" "ca_pc s w = Failed contention"
  shows "indexUpdateAttempts \<le> length (ca_log s) \<and> w \<notin> set (ca_log s)"
proof -
  have "losses_inv s" by (rule losses_inv_run [OF assms(1,3,2,4)])
  then have "losses_ok (length (ca_log s)) (ca_obj s) (w \<in> set (ca_log s)) (Failed contention)" using assms(5) by (metis losses_inv_def)
  then show ?thesis by (simp add: losses_ok_def)
qed

text \<open>Alone, an update takes effect at once: with an endpoint whose calls succeed it returns after the first attempt,
  with the mutation applied to the index and the client still using conditional writes.\<close>

theorem update_alone:
  assumes "conditional_writes tag srv" "\<And>obj. srv_get srv obj = Inr obj"
    "\<And>cond idx obj. satisfied cond obj \<Longrightarrow> fst (srv_put srv cond idx obj) = None"
    "\<And>idx. stored = Some idx \<Longrightarrow> tag idx \<noteq> []"
    "m (case stored of None \<Rightarrow> zero_index | Some i \<Rightarrow> i) (stored \<noteq> None) = Inr (idx', True)"
  shows "UpdateArchiveIndex srv m False (map_option (\<lambda>idx. (idx, tag idx)) stored) = (Wrote, False, Some (idx', tag idx'))"
proof -
  let ?o = "map_option (\<lambda>idx. (idx, tag idx)) stored"
  have sat: "satisfied (condition_of (token tag stored)) ?o"
    using assms(4) by (cases stored) (simp_all add: satisfied_def condition_of_def token_def)
  have r: "read_step srv m n ?o = Holding idx' (token tag stored) n" for n
    using assms(2,5) by (cases stored) (simp_all add: read_step_def GetJSONVersion_def bind_res_def token_def)
  obtain o' where "srv_put srv (condition_of (token tag stored)) idx' ?o = (None, o')"
    using assms(3) [OF sat, of idx'] by (cases "srv_put srv (condition_of (token tag stored)) idx' ?o") auto
  moreover from this have "o' = Some (idx', tag idx')" using conditional_put [OF assms(1)] by blast
  ultimately have "put_step srv False idx' (token tag stored) n ?o = (Wrote, False, Some (idx', tag idx'))" for n
    by (simp add: put_step_def PutJSONIf_def condition_of_def)
  then have "update_loop srv m (Suc n) False ?o = (Wrote, False, Some (idx', tag idx'))" for n by (simp add: r)
  then show ?thesis by (simp add: UpdateArchiveIndex_def indexUpdateAttempts_def numeral_eq_Suc)
qed

section \<open>Witnesses\<close>

text \<open>Writers that each count the generation up by one, on an endpoint whose calls never fail.\<close>

definition gen_index :: "nat \<Rightarrow> ArchiveIndex" where
  "gen_index g = zero_index\<lparr>ix_Generation := int g\<rparr>"

definition gen_tag :: "ArchiveIndex \<Rightarrow> string" where
  "gen_tag idx = CHR ''e'' # replicate (nat (ix_Generation idx)) CHR ''x''"

definition count_up :: mutation where
  "count_up idx exists = Inr (idx\<lparr>ix_Generation := ix_Generation idx + 1\<rparr>, True)"

definition ideal_server :: s3_server where
  "ideal_server = \<lparr>srv_get = Inr, srv_put = (\<lambda>cond idx obj.
     if satisfied cond obj then (None, Some (idx, gen_tag idx)) else (Some PreconditionFailed, obj))\<rparr>"

lemma ideal_conditional: "conditional_writes gen_tag ideal_server"
  by (simp add: conditional_writes_def ideal_server_def)

lemma gen_distinguish: "tags_distinguish gen_tag (\<lambda>_. count_up) (Some (gen_index 0)) (range gen_index)"
proof -
  have "inj_on gen_tag (range gen_index)"
    by (rule inj_onI) (auto simp: gen_tag_def gen_index_def zero_index_def dest: arg_cong [of _ _ length])
  moreover have "idx\<lparr>ix_Generation := ix_Generation idx + 1\<rparr> \<in> range gen_index" if i: "idx \<in> range gen_index \<or> idx = zero_index" for idx
  proof -
    have "zero_index = gen_index 0" by (simp add: gen_index_def zero_index_def)
    then obtain g where "idx = gen_index g" using i by auto
    then have "idx\<lparr>ix_Generation := ix_Generation idx + 1\<rparr> = gen_index (Suc g)" by (simp add: gen_index_def)
    then show ?thesis by blast
  qed
  ultimately show ?thesis by (auto simp: tags_distinguish_def count_up_def gen_tag_def)
qed

definition gen_state :: "nat \<Rightarrow> writer \<Rightarrow> writer \<Rightarrow> cas_state" where
  "gen_state k first other = \<lparr>ca_obj = Some (gen_index k, gen_tag (gen_index k)),
     ca_pc = (\<lambda>v. if v = 0 then first else if v \<le> k then Wrote else if v = Suc k then other else Idle indexUpdateAttempts),
     ca_log = map Suc [0..<k]\<rparr>"

lemma gen_starts: "starts_with gen_tag (Some (gen_index 0)) (gen_state 0 (Idle indexUpdateAttempts) (Idle indexUpdateAttempts))"
  by (simp add: starts_with_def gen_state_def)

lemma gen_read: "read_step ideal_server count_up n (Some (gen_index k, gen_tag (gen_index k))) =
    Holding (gen_index (Suc k)) (gen_tag (gen_index k)) n"
  by (simp add: read_step_def GetJSONVersion_def ideal_server_def bind_res_def count_up_def gen_index_def)

lemma gen_put:
  "put_step ideal_server False (gen_index (Suc g)) (gen_tag (gen_index g)) n (Some (gen_index k, gen_tag (gen_index k))) =
     (if g = k then (Wrote, False, Some (gen_index (Suc k), gen_tag (gen_index (Suc k))))
      else (Idle n, False, Some (gen_index k, gen_tag (gen_index k))))"
proof -
  have "gen_tag (gen_index k) = gen_tag (gen_index g) \<longleftrightarrow> g = k"
    by (auto simp: gen_tag_def gen_index_def dest: arg_cong [of _ _ length])
  then show ?thesis
    by (simp add: put_step_def PutJSONIf_def ideal_server_def satisfied_def gen_tag_def)
qed

abbreviation gen_step :: "cas_state \<Rightarrow> cas_state \<Rightarrow> bool" where
  "gen_step \<equiv> cas_step gen_tag (\<lambda>_. count_up)"

abbreviation gen_hold :: "nat \<Rightarrow> nat \<Rightarrow> writer" where
  "gen_hold k n \<equiv> Holding (gen_index (Suc k)) (gen_tag (gen_index k)) n"

lemma gen_first_upd: "(ca_pc (gen_state k p other))(0 := q) = ca_pc (gen_state k q other)"
  by (auto simp: gen_state_def fun_eq_iff)

lemma gen_read_first: "gen_step (gen_state k (Idle (Suc n)) other) (gen_state k (gen_hold k n) other)"
proof -
  have "(ca_pc (gen_state k (Idle (Suc n)) other))(0 := gen_hold k n) = ca_pc (gen_state k (gen_hold k n) other)"
    by (auto simp: gen_state_def fun_eq_iff)
  then show ?thesis
    using cas_step.read [OF ideal_conditional, of "gen_state k (Idle (Suc n)) other" 0 n "\<lambda>_. count_up"]
    by (simp add: gen_state_def gen_read)
qed

lemma gen_read_other: "gen_step (gen_state k first (Idle (Suc n))) (gen_state k first (gen_hold k n))"
proof -
  have "(ca_pc (gen_state k first (Idle (Suc n))))(Suc k := gen_hold k n) = ca_pc (gen_state k first (gen_hold k n))"
    by (auto simp: gen_state_def fun_eq_iff)
  then show ?thesis
    using cas_step.read [OF ideal_conditional, of "gen_state k first (Idle (Suc n))" "Suc k" n "\<lambda>_. count_up"]
    by (simp add: gen_state_def gen_read)
qed

lemma gen_put_other: "gen_step (gen_state k first (gen_hold k n)) (gen_state (Suc k) first (Idle indexUpdateAttempts))"
proof -
  have "(ca_pc (gen_state k first (gen_hold k n)))(Suc k := Wrote) = ca_pc (gen_state (Suc k) first (Idle indexUpdateAttempts))"
    by (auto simp: gen_state_def fun_eq_iff)
  then show ?thesis
    using cas_step.put [OF ideal_conditional, of "gen_state k first (gen_hold k n)" "Suc k" "gen_index (Suc k)" "gen_tag (gen_index k)"
      n Wrote False "Some (gen_index (Suc k), gen_tag (gen_index (Suc k)))" "\<lambda>_. count_up"]
    by (simp add: gen_state_def gen_put)
qed

lemma gen_put_first: "gen_step (gen_state (Suc k) (gen_hold k n) other) (gen_state (Suc k) (Idle n) other)"
proof -
  have "(ca_pc (gen_state (Suc k) (gen_hold k n) other))(0 := Idle n) = ca_pc (gen_state (Suc k) (Idle n) other)"
    by (auto simp: gen_state_def fun_eq_iff)
  then show ?thesis
    using cas_step.put [OF ideal_conditional, of "gen_state (Suc k) (gen_hold k n) other" 0 "gen_index (Suc k)" "gen_tag (gen_index k)"
      n "Idle n" False "Some (gen_index (Suc k), gen_tag (gen_index (Suc k)))" "\<lambda>_. count_up"]
    by (simp add: gen_state_def gen_put)
qed

abbreviation gen_run :: "cas_state \<Rightarrow> bool" where
  "gen_run \<equiv> cas_run gen_tag (\<lambda>_. count_up) (gen_state 0 (Idle indexUpdateAttempts) (Idle indexUpdateAttempts))"

lemma gen_round:
  assumes "gen_run (gen_state k (Idle (Suc n)) (Idle indexUpdateAttempts))"
  shows "gen_run (gen_state (Suc k) (Idle n) (Idle indexUpdateAttempts))"
proof -
  have a: "indexUpdateAttempts = Suc 7" by (simp add: indexUpdateAttempts_def)
  have "gen_run (gen_state k (gen_hold k n) (Idle indexUpdateAttempts))"
    by (rule cas_run.step [OF assms gen_read_first])
  then have "gen_run (gen_state k (gen_hold k n) (gen_hold k 7))"
    unfolding a by (rule cas_run.step [OF _ gen_read_other])
  then have "gen_run (gen_state (Suc k) (gen_hold k n) (Idle indexUpdateAttempts))"
    by (rule cas_run.step [OF _ gen_put_other])
  then show ?thesis by (rule cas_run.step [OF _ gen_put_first])
qed

lemma gen_rounds: "k \<le> indexUpdateAttempts \<Longrightarrow> gen_run (gen_state k (Idle (indexUpdateAttempts - k)) (Idle indexUpdateAttempts))"
proof (induction k)
  case 0
  then show ?case by (simp add: cas_run.start)
next
  case (Suc k)
  then have "indexUpdateAttempts - k = Suc (indexUpdateAttempts - Suc k)" by simp
  then show ?case using Suc gen_round [of k "indexUpdateAttempts - Suc k"] by simp
qed

lemma index_no_lost_update_witness:
  "\<exists>s. gen_run s \<and> ca_pc s 2 = Wrote \<and> map_option fst (ca_obj s) = written (\<lambda>_. count_up) (Some (gen_index 0)) [1, 2] \<and> 2 \<in> set (ca_log s)"
proof -
  let ?s = "gen_state 2 (Idle (indexUpdateAttempts - 2)) (Idle indexUpdateAttempts)"
  have r: "gen_run ?s" by (rule gen_rounds) (simp add: indexUpdateAttempts_def)
  have "ca_pc ?s 2 = Wrote" "ca_log ?s = [1, 2]" by (simp_all add: gen_state_def numeral_2_eq_2)
  then show ?thesis using r index_no_lost_update [OF r gen_starts gen_distinguish, of 2] by metis
qed

lemma contention_means_progress_witness:
  "\<exists>s. gen_run s \<and> ca_pc s 0 = Failed contention \<and> indexUpdateAttempts \<le> length (ca_log s) \<and> 0 \<notin> set (ca_log s)"
proof -
  let ?s = "gen_state indexUpdateAttempts (Idle 0) (Idle indexUpdateAttempts)"
  let ?s' = "?s\<lparr>ca_pc := (ca_pc ?s)(0 := Failed contention)\<rparr>"
  have "gen_run ?s" using gen_rounds [of indexUpdateAttempts] by simp
  moreover have "gen_step ?s ?s'" by (rule cas_step.give_up) (simp add: gen_state_def)
  ultimately have r: "gen_run ?s'" by (rule cas_run.step)
  have f: "ca_pc ?s' 0 = Failed contention" by simp
  have "indexUpdateAttempts \<le> length (ca_log ?s') \<and> 0 \<notin> set (ca_log ?s')"
    by (rule contention_means_progress [OF r gen_starts gen_distinguish _ f]) (simp add: count_up_def)
  then show ?thesis using r f by blast
qed

lemma update_alone_witness:
  "UpdateArchiveIndex ideal_server count_up False (map_option (\<lambda>idx. (idx, gen_tag idx)) (Some (gen_index 4))) =
     (Wrote, False, Some (gen_index 5, gen_tag (gen_index 5)))"
  by (rule update_alone [OF ideal_conditional])
    (simp_all add: ideal_server_def gen_tag_def count_up_def gen_index_def)

section \<open>The index over any run of writers\<close>

definition keeps :: "(ArchiveIndex \<Rightarrow> bool) \<Rightarrow> mutation \<Rightarrow> bool" where
  "keeps Inv m \<longleftrightarrow> (\<forall>idx idx'. Inv idx \<longrightarrow> m idx True = Inr (idx', True) \<longrightarrow> Inv idx') \<and> (\<forall>idx'. m zero_index False = Inr (idx', True) \<longrightarrow> Inv idx')"

text \<open>What every mutation keeps, every interleaving keeps.\<close>

lemma cas_run_keeps:
  assumes "cas_run tag mut s0 s" "starts_with tag stored s0" "set_option stored \<subseteq> Collect Inv" "\<And>w. keeps Inv (mut w)"
  shows "\<forall>obj. ca_obj s = Some obj \<longrightarrow> Inv (fst obj)"
proof -
  have "(\<forall>obj. ca_obj s = Some obj \<longrightarrow> Inv (fst obj) \<and> snd obj = tag (fst obj)) \<and> (\<forall>w idx etag n. ca_pc s w = Holding idx etag n \<longrightarrow> Inv idx)"
    using assms(1)
  proof (induction rule: cas_run.induct)
    case start
    then show ?case using assms(2,3) by (auto simp: starts_with_def)
  next
    case (step s s')
    note ih = step.IH
    from step.hyps(2) show ?case
    proof cases
      case (give_up w)
      then show ?thesis using ih by auto
    next
      case (read srv w n)
      define stored' where "stored' = map_option fst (ca_obj s)"
      have obj: "ca_obj s = map_option (\<lambda>idx. (idx, tag idx)) stored'" using ih by (cases "ca_obj s") (auto simp: stored'_def prod_eq_iff)
      have "Inv idx" if h: "read_step srv (mut w) n (ca_obj s) = Holding idx etag k" for idx etag k
      proof (rule read_step_cases [OF read(2) obj, of "mut w" n])
        fix i assume "read_step srv (mut w) n (ca_obj s) = Holding i (case stored' of None \<Rightarrow> [] | Some i \<Rightarrow> tag i) n"
          "mut w (case stored' of None \<Rightarrow> zero_index | Some i \<Rightarrow> i) (stored' \<noteq> None) = Inr (i, True)"
        then show "Inv idx" using h assms(4) [of w] ih by (cases "ca_obj s") (auto simp: stored'_def keeps_def)
      qed (use h in auto)
      then show ?thesis using ih read(1) by auto
    next
      case (put srv w idx etag n pc' u obj')
      have "obj' = ca_obj s \<or> obj' = Some (idx, tag idx)" "\<And>i e k. pc' \<noteq> Holding i e k"
        by (rule put_step_cases [OF put(2,4)]; simp)+
      moreover have "Inv idx" using ih put(3) by blast
      ultimately show ?thesis using ih put(1) by (cases "ca_obj s") auto
    qed
  qed
  then show ?thesis by blast
qed

end
