(* ===== verification/Retention.thy ===== *)
theory Retention
  imports Index_Cas
begin

text \<open>
  A retention pass over the object store (\<open>retention.go\<close> and \<open>logical.go\<close> of
  \<open>pkg/management/mysql/objectstore\<close>, \<open>internal/controller/cluster_retention.go\<close>): what is listed, whether
  the location is proven to be the cluster's own, what the plan deletes, in which order, and what a failing call leaves
  behind. A bucket is the keys it holds in listing order, the index object, and the outcome of the calls still to come;
  decoding a manifest is the argument \<open>GetJSON\<close> of the listing functions. The backup store and the archive store
  are one bucket when they are the same location.
\<close>

section \<open>Logical backups\<close>

record LogicalBackupMetadata =
  lm_FormatVersion :: int
  lm_BackupID :: string
  lm_ClusterName :: string
  lm_ClusterUID :: string
  lm_BackupName :: string
  lm_InstanceName :: string
  lm_Method :: string
  lm_Tool :: string
  lm_Flavor :: string
  lm_ServerVersion :: string
  lm_Compression :: string
  lm_ArchiveKey :: string
  lm_SizeBytes :: int
  lm_UncompressedBytes :: int
  lm_SHA256 :: string
  lm_Databases :: "string list"
  lm_SnapshotGTID :: string
  lm_SnapshotBinlog :: string
  lm_StartedAt :: gotime
  lm_CompletedAt :: gotime

record LogicalBackupEntry =
  le_Prefix :: string
  le_Meta :: LogicalBackupMetadata

definition LogicalFormatVersion :: int where "LogicalFormatVersion = 1"

definition LogicalCompressionZstd :: string where "LogicalCompressionZstd = ''zstd''"

definition CheckImportable :: "LogicalBackupMetadata \<Rightarrow> string \<Rightarrow> string list \<Rightarrow> go_error option" where
  "CheckImportable m flavor selected =
     (if lm_FormatVersion m \<noteq> LogicalFormatVersion
      then Some (Errorf ''the dump uses format version %d and this operator reads version %d''
        [FormatInt (lm_FormatVersion m), FormatInt LogicalFormatVersion])
      else if lm_Compression m \<noteq> LogicalCompressionZstd
      then Some (Errorf ''the dump uses compression %q and this operator reads %q'' [lm_Compression m, LogicalCompressionZstd])
      else if lm_Flavor m \<noteq> [] \<and> lm_Flavor m \<noteq> flavor
      then Some (Errorf (''the dump was taken on a %s server and this cluster runs %s; '' @
        ''a dump only loads into the flavor it was taken on'') [lm_Flavor m, flavor])
      else let missing = filter (\<lambda>db. db \<notin> set (lm_Databases m)) selected in
        if missing \<noteq> []
        then Some (Errorf ''databases %s are not in the dump, which holds %s''
          [join_with '', '' missing, join_with '', '' (lm_Databases m)])
        else None)"

fun logical_backups :: "(string \<Rightarrow> LogicalBackupMetadata res) \<Rightarrow> string list \<Rightarrow> LogicalBackupEntry list res" where
  "logical_backups GetJSON [] = Inr []"
| "logical_backups GetJSON (key # keys) =
     (if \<not> HasSuffix key (''/'' @ LogicalMetadataName) then logical_backups GetJSON keys
      else bind_res (GetJSON key) (\<lambda>meta. bind_res (logical_backups GetJSON keys) (\<lambda>entries.
        Inr (\<lparr>le_Prefix = TrimSuffix key LogicalMetadataName, le_Meta = meta\<rparr> # entries))))"

definition ListLogicalBackups :: "(string \<Rightarrow> string list res) \<Rightarrow> (string \<Rightarrow> LogicalBackupMetadata res) \<Rightarrow> S3ObjectStore \<Rightarrow> string \<Rightarrow> LogicalBackupEntry list res" where
  "ListLogicalBackups ListObjects GetJSON store clusterName =
     bind_res (ListObjects (ClusterPrefix store clusterName)) (logical_backups GetJSON)"

definition SelectLatestLogicalBackup :: "LogicalBackupEntry list \<Rightarrow> LogicalBackupEntry res" where
  "SelectLatestLogicalBackup entries =
     (case entries of
        [] \<Rightarrow> Inl (Errorf ''no logical backups found in object store'' [])
      | e # rest \<Rightarrow>
          Inr (foldl (\<lambda>latest entry. if lm_CompletedAt (le_Meta entry) > lm_CompletedAt (le_Meta latest) then entry else latest) e rest))"

definition FindLogicalBackupByID :: "LogicalBackupEntry list \<Rightarrow> string \<Rightarrow> LogicalBackupEntry res" where
  "FindLogicalBackupByID entries backupID =
     (case find (\<lambda>entry. lm_BackupID (le_Meta entry) = backupID) entries of
        Some entry \<Rightarrow> Inr entry
      | None \<Rightarrow> Inl (Errorf ''no logical backup with backupID %q found in object store'' [backupID]))"

text \<open>Oldest first, the prefix breaking ties: a stable sort by prefix and then by completion.\<close>

definition logical_order :: "LogicalBackupEntry list \<Rightarrow> LogicalBackupEntry list" where
  "logical_order entries = sort_key (\<lambda>e. lm_CompletedAt (le_Meta e)) (sort_key le_Prefix entries)"

definition PlanLogicalRetention :: "LogicalBackupEntry list \<Rightarrow> gotime \<Rightarrow> string list" where
  "PlanLogicalRetention entries cutoff =
     (if entries = [] then []
      else map le_Prefix (filter (\<lambda>e. lm_CompletedAt (le_Meta e) \<noteq> zero_time \<and> lm_CompletedAt (le_Meta e) < cutoff)
             (butlast (logical_order entries))))"

section \<open>The bucket\<close>

record bucket =
  bu_keys :: "string list"
  bu_index :: s3_object
  bu_faults :: "go_error option list"

definition bucket_call :: "bucket \<Rightarrow> go_error option \<times> bucket" where
  "bucket_call b = (case bu_faults b of [] \<Rightarrow> (None, b) | f # fs \<Rightarrow> (f, b\<lparr>bu_faults := fs\<rparr>))"

definition HasPrefix :: "string \<Rightarrow> string \<Rightarrow> bool" where
  "HasPrefix s p \<longleftrightarrow> take (length p) s = p"

definition ListObjects :: "bucket \<Rightarrow> string \<Rightarrow> string list res \<times> bucket" where
  "ListObjects b p =
     (case bucket_call b of
        (Some err, b1) \<Rightarrow> (Inl err, b1)
      | (None, b1) \<Rightarrow> (Inr (filter (\<lambda>key. HasPrefix key p) (bu_keys b1)), b1))"

definition Remove :: "string \<Rightarrow> bucket \<Rightarrow> go_error option \<times> bucket" where
  "Remove key b =
     (case bucket_call b of
        (Some err, b1) \<Rightarrow> (Some (Wrapf ''removing %s: %w'' [key] err), b1)
      | (None, b1) \<Rightarrow> (None, b1\<lparr>bu_keys := filter (\<lambda>k. k \<noteq> key) (bu_keys b1)\<rparr>))"

fun remove_all :: "string list \<Rightarrow> bucket \<Rightarrow> go_error option \<times> bucket" where
  "remove_all [] b = (None, b)"
| "remove_all (key # keys) b =
     (case Remove key b of (Some err, b1) \<Rightarrow> (Some err, b1) | (None, b1) \<Rightarrow> remove_all keys b1)"

definition RemovePrefix :: "string \<Rightarrow> bucket \<Rightarrow> go_error option \<times> bucket" where
  "RemovePrefix p b =
     (case ListObjects b p of (Inl err, b1) \<Rightarrow> (Some err, b1) | (Inr keys, b1) \<Rightarrow> remove_all keys b1)"

fun remove_prefixes :: "string list \<Rightarrow> bucket \<Rightarrow> go_error option \<times> bucket" where
  "remove_prefixes [] b = (None, b)"
| "remove_prefixes (p # ps) b =
     (case RemovePrefix p b of (Some err, b1) \<Rightarrow> (Some err, b1) | (None, b1) \<Rightarrow> remove_prefixes ps b1)"

definition ApplyBackupExpiry :: "RetentionPlan \<Rightarrow> bucket \<Rightarrow> go_error option \<times> bucket" where
  "ApplyBackupExpiry plan b = remove_prefixes (rp_DeleteBackupPrefixes plan) b"

definition rewrite_mutation :: "gotime \<Rightarrow> RetentionPlan \<Rightarrow> mutation" where
  "rewrite_mutation now plan idx exists =
     (if \<not> exists then Inr (idx, False) else Inr (rewriteIndex now idx (rp_DeletedBinlogs plan), True))"

definition rewriteArchiveIndex :: "s3_server \<Rightarrow> gotime \<Rightarrow> RetentionPlan \<Rightarrow> bucket \<Rightarrow> go_error option \<times> bucket" where
  "rewriteArchiveIndex srv now plan b =
     (if rp_DeletedBinlogs plan = [] then (None, b)
      else case UpdateArchiveIndex srv (rewrite_mutation now plan) False (bu_index b) of
             (Failed err, u, obj) \<Rightarrow> (Some err, b\<lparr>bu_index := obj\<rparr>)
           | (_, u, obj) \<Rightarrow> (None, b\<lparr>bu_index := obj\<rparr>))"

definition ApplyBinlogExpiry :: "s3_server \<Rightarrow> gotime \<Rightarrow> RetentionPlan \<Rightarrow> bucket \<Rightarrow> go_error option \<times> bucket" where
  "ApplyBinlogExpiry srv now plan b =
     (case remove_all (rp_DeleteBinlogKeys plan) b of
        (Some err, b1) \<Rightarrow> (Some err, b1)
      | (None, b1) \<Rightarrow> rewriteArchiveIndex srv now plan b1)"

section \<open>Ownership\<close>

definition retentionOwnership ::
  "string \<Rightarrow> bool \<Rightarrow> BackupEntry list \<Rightarrow> LogicalBackupEntry list \<Rightarrow> BinlogEntry list \<Rightarrow> ArchiveIndex option \<Rightarrow> string" where
  "retentionOwnership uid sameLocation backups logical binlogs index =
     (if uid = [] then ''the Cluster has no UID''
      else let backupsOwned = (\<exists>b \<in> set backups. bm_ClusterUID (be_Meta b) = uid) \<or> (\<exists>l \<in> set logical. lm_ClusterUID (le_Meta l) = uid);
               archiveOwned = (case index of None \<Rightarrow> False | Some idx \<Rightarrow> ix_ClusterUID idx = uid);
               backupsOwned = (if sameLocation then backupsOwned \<or> archiveOwned else backupsOwned);
               archiveOwned = (if sameLocation then backupsOwned else archiveOwned)
           in if \<not> backupsOwned \<and> length backups + length logical > 0
              then ''no backup manifest or archive index at the backup store carries this Cluster's UID, '' @
                ''so its backups may belong to another cluster with the same name. '' @
                ''The next backup or archived binary log taken by this Cluster proves the store is its own''
              else if \<not> archiveOwned \<and> (length binlogs > 0 \<or> index \<noteq> None)
              then ''the binary-log archive index does not carry this Cluster's UID, '' @
                ''so the archive may belong to another cluster with the same name. '' @
                ''The next binary log this Cluster archives proves the archive is its own''
              else [])"

section \<open>A pass\<close>

datatype retention_outcome = Applied | Skipped string | Errored go_error

text \<open>A call on the bucket that holds the archive: the backup store's when both are the same location.\<close>

definition on_archive :: "bool \<Rightarrow> (bucket \<Rightarrow> 'r \<times> bucket) \<Rightarrow> bucket \<times> bucket \<Rightarrow> 'r \<times> bucket \<times> bucket" where
  "on_archive same f s =
     (if same then (case f (fst s) of (r, b) \<Rightarrow> (r, b, snd s)) else (case f (snd s) of (r, a) \<Rightarrow> (r, fst s, a)))"

definition on_backups :: "(bucket \<Rightarrow> 'r \<times> bucket) \<Rightarrow> bucket \<times> bucket \<Rightarrow> 'r \<times> bucket \<times> bucket" where
  "on_backups f s = (case f (fst s) of (r, b) \<Rightarrow> (r, b, snd s))"

record manifests =
  GetBackup :: "string \<Rightarrow> BackupMetadata res"
  GetLogical :: "string \<Rightarrow> LogicalBackupMetadata res"
  GetBinlog :: "string \<Rightarrow> BinlogMetadata res"

definition read_index :: "bucket \<Rightarrow> ArchiveIndex option res \<times> bucket" where
  "read_index b =
     (case bucket_call b of
        (Some err, b1) \<Rightarrow> (Inl err, b1)
      | (None, b1) \<Rightarrow>
          (case bu_index b1 of
             None \<Rightarrow> (Inr None, b1)
           | Some (idx, etag) \<Rightarrow> (case bucket_call b1 of (Some err, b2) \<Rightarrow> (Inl err, b2) | (None, b2) \<Rightarrow> (Inr (Some idx), b2))))"

text \<open>What the pass lists before it decides: the backups, the dumps, the archived files and the index.\<close>

definition retention_listing ::
  "manifests \<Rightarrow> bool \<Rightarrow> S3ObjectStore \<Rightarrow> S3ObjectStore \<Rightarrow> string \<Rightarrow> bucket \<times> bucket \<Rightarrow>
   (BackupEntry list \<times> LogicalBackupEntry list \<times> BinlogEntry list \<times> ArchiveIndex option) res \<times> bucket \<times> bucket" where
  "retention_listing get same store binlogStore clusterName s0 =
     (case on_backups (\<lambda>b. ListObjects b (ClusterPrefix store clusterName)) s0 of (keys, s1) \<Rightarrow>
      case ListBaseBackups (\<lambda>_. keys) (GetBackup get) store clusterName of
        Inl err \<Rightarrow> (Inl err, s1)
      | Inr backups \<Rightarrow>
          (case on_backups (\<lambda>b. ListObjects b (ClusterPrefix store clusterName)) s1 of (keys, s2) \<Rightarrow>
           case ListLogicalBackups (\<lambda>_. keys) (GetLogical get) store clusterName of
             Inl err \<Rightarrow> (Inl err, s2)
           | Inr logical \<Rightarrow>
               (case on_archive same (\<lambda>b. ListObjects b (BinlogPrefix binlogStore clusterName)) s2 of (keys, s3) \<Rightarrow>
                case ListArchivedBinlogs (\<lambda>_. keys) (GetBinlog get) binlogStore clusterName of
                  Inl err \<Rightarrow> (Inl err, s3)
                | Inr binlogs \<Rightarrow>
                    (case on_archive same read_index s3 of
                       (Inl err, s4) \<Rightarrow> (Inl err, s4)
                     | (Inr index, s4) \<Rightarrow> (Inr (backups, logical, binlogs, index), s4)))))"

definition retention_apply ::
  "s3_server \<Rightarrow> gotime \<Rightarrow> bool \<Rightarrow> RetentionPlan \<Rightarrow> string list \<Rightarrow> bucket \<times> bucket \<Rightarrow> retention_outcome \<times> bucket \<times> bucket" where
  "retention_apply srv now same plan expiredDumps s0 =
     (case (if Empty plan then (None, s0)
            else case on_backups (ApplyBackupExpiry plan) s0 of
                   (Some err, s1) \<Rightarrow> (Some err, s1)
                 | (None, s1) \<Rightarrow> on_archive same (ApplyBinlogExpiry srv now plan) s1) of
        (Some err, s2) \<Rightarrow> (Errored err, s2)
      | (None, s2) \<Rightarrow>
          (case on_backups (remove_prefixes expiredDumps) s2 of
             (Some err, s3) \<Rightarrow> (Errored err, s3)
           | (None, s3) \<Rightarrow> (Applied, s3)))"

definition retention_pass ::
  "(BackupEntry list \<Rightarrow> BackupEntry list) \<Rightarrow> s3_server \<Rightarrow> manifests \<Rightarrow> gotime \<Rightarrow> int \<Rightarrow> string \<Rightarrow> bool \<Rightarrow>
   S3ObjectStore \<Rightarrow> S3ObjectStore \<Rightarrow> string \<Rightarrow> bucket \<times> bucket \<Rightarrow> retention_outcome \<times> bucket \<times> bucket" where
  "retention_pass srt srv get now window uid same store binlogStore clusterName s0 =
     (case retention_listing get same store binlogStore clusterName s0 of
        (Inl err, s1) \<Rightarrow> (Errored err, s1)
      | (Inr (backups, logical, binlogs, index), s1) \<Rightarrow>
          (let reason = retentionOwnership uid same backups logical binlogs index in
           if reason \<noteq> [] then (Skipped (''Skipped backup retention: '' @ reason), s1)
           else let cutoff = now - window in
             retention_apply srv now same (PlanRetention srt now backups binlogs index cutoff)
               (PlanLogicalRetention logical cutoff) s1))"

section \<open>What calls change\<close>

lemma bucket_call_frame: "bucket_call b = (r, b') \<Longrightarrow> bu_keys b' = bu_keys b \<and> bu_index b' = bu_index b"
  by (auto simp: bucket_call_def split: list.splits)

lemma bucket_call_ok: "bu_faults b = [] \<Longrightarrow> bucket_call b = (None, b)"
  by (simp add: bucket_call_def)

lemma ListObjects_frame:
  "ListObjects b p = (r, b') \<Longrightarrow> bu_keys b' = bu_keys b \<and> bu_index b' = bu_index b \<and>
     (\<forall>keys. r = Inr keys \<longrightarrow> keys = filter (\<lambda>key. HasPrefix key p) (bu_keys b))"
  using bucket_call_frame by (auto simp: ListObjects_def split: prod.splits option.splits)

lemma read_index_frame:
  "read_index b = (r, b') \<Longrightarrow> bu_keys b' = bu_keys b \<and> bu_index b' = bu_index b \<and>
     (\<forall>i. r = Inr i \<longrightarrow> i = map_option fst (bu_index b))"
  by (auto simp: read_index_def split: prod.splits option.splits dest!: bucket_call_frame)

lemma Remove_frame:
  "Remove key b = (err, b') \<Longrightarrow> bu_index b' = bu_index b \<and>
     bu_keys b' = (if err = None then filter (\<lambda>k. k \<noteq> key) (bu_keys b) else bu_keys b)"
  by (auto simp: Remove_def split: prod.splits option.splits dest!: bucket_call_frame)

lemma remove_all_frame:
  assumes "remove_all keys b = (err, b')"
  shows "bu_index b' = bu_index b \<and> set (bu_keys b) - set keys \<subseteq> set (bu_keys b') \<and> set (bu_keys b') \<subseteq> set (bu_keys b) \<and>
    (err = None \<longrightarrow> bu_keys b' = filter (\<lambda>k. k \<notin> set keys) (bu_keys b))"
  using assms
proof (induction keys arbitrary: b)
  case (Cons key keys)
  obtain e b1 where r: "Remove key b = (e, b1)" by force
  note f = Remove_frame [OF r]
  show ?case
  proof (cases e)
    case None
    then have "remove_all keys b1 = (err, b')" using Cons.prems r by simp
    from Cons.IH [OF this] show ?thesis using f None by (auto simp: filter_filter intro: filter_cong)
  next
    case (Some x)
    then show ?thesis using Cons.prems r f by auto
  qed
qed auto

lemma remove_prefixes_frame:
  assumes "remove_prefixes ps b = (err, b')"
  shows "bu_index b' = bu_index b \<and> set (bu_keys b') \<subseteq> set (bu_keys b) \<and>
    (\<forall>key \<in> set (bu_keys b). (\<forall>p \<in> set ps. \<not> HasPrefix key p) \<longrightarrow> key \<in> set (bu_keys b')) \<and> (ps = [] \<longrightarrow> b' = b)"
  using assms
proof (induction ps arbitrary: b)
  case (Cons p ps)
  obtain r b1 where l: "ListObjects b p = (r, b1)" by force
  note fl = ListObjects_frame [OF l]
  show ?case
  proof (cases r)
    case (Inl e)
    then show ?thesis using Cons.prems l fl by (auto simp: RemovePrefix_def)
  next
    case (Inr keys)
    obtain e b2 where r: "remove_all keys b1 = (e, b2)" by force
    note fr = remove_all_frame [OF r]
    have rp: "RemovePrefix p b = (e, b2)" using l Inr r by (simp add: RemovePrefix_def)
    have keys: "set keys = {key \<in> set (bu_keys b). HasPrefix key p}" using fl Inr by auto
    show ?thesis
    proof (cases e)
      case (Some x)
      then show ?thesis using Cons.prems rp fl fr keys by auto
    next
      case None
      then have "remove_prefixes ps b2 = (err, b')" using Cons.prems rp by simp
      from Cons.IH [OF this] show ?thesis using fl fr keys by auto
    qed
  qed
qed simp

lemma rewriteArchiveIndex_frame:
  assumes "rewriteArchiveIndex srv now plan b = (err, b')"
  shows "bu_keys b' = bu_keys b \<and> (rp_DeletedBinlogs plan = [] \<longrightarrow> b' = b)"
  using assms by (auto simp: rewriteArchiveIndex_def split: if_splits prod.splits writer.splits)

lemma ApplyBinlogExpiry_frame:
  assumes "ApplyBinlogExpiry srv now plan b = (err, b')"
  shows "set (bu_keys b') \<subseteq> set (bu_keys b) \<and> set (bu_keys b) - set (rp_DeleteBinlogKeys plan) \<subseteq> set (bu_keys b') \<and>
    (rp_DeleteBinlogKeys plan = [] \<longrightarrow> rp_DeletedBinlogs plan = [] \<longrightarrow> b' = b)"
proof -
  obtain e b1 where r: "remove_all (rp_DeleteBinlogKeys plan) b = (e, b1)" by force
  note fr = remove_all_frame [OF r]
  show ?thesis
  proof (cases e)
    case (Some x)
    then have "b' = b1" using assms r by (simp add: ApplyBinlogExpiry_def)
    moreover have "rp_DeleteBinlogKeys plan = [] \<longrightarrow> b1 = b" using r by auto
    ultimately show ?thesis using fr by blast
  next
    case None
    then have "rewriteArchiveIndex srv now plan b1 = (err, b')" using assms r by (simp add: ApplyBinlogExpiry_def)
    note fw = rewriteArchiveIndex_frame [OF this]
    moreover have "rp_DeleteBinlogKeys plan = [] \<longrightarrow> b1 = b" using r by auto
    ultimately show ?thesis using fr by metis
  qed
qed

definition same_store :: "bucket \<Rightarrow> bucket \<Rightarrow> bool" where
  "same_store b b' \<longleftrightarrow> bu_keys b' = bu_keys b \<and> bu_index b' = bu_index b"

lemma same_store_refl [simp]: "same_store b b"
  by (simp add: same_store_def)

lemma on_archive_cases:
  assumes "on_archive same f s = (r, s')"
  shows "if same then f (fst s) = (r, fst s') \<and> snd s' = snd s else f (snd s) = (r, snd s') \<and> fst s' = fst s"
  using assms by (auto simp: on_archive_def split: prod.splits)

lemma on_backups_cases: "on_backups f s = (r, s') \<Longrightarrow> f (fst s) = (r, fst s') \<and> snd s' = snd s"
  by (auto simp: on_backups_def split: prod.splits)

text \<open>A bucket that lost at most the keys of a set.\<close>

definition trimmed :: "string set \<Rightarrow> bucket \<Rightarrow> bucket \<Rightarrow> bool" where
  "trimmed K b b' \<longleftrightarrow> set (bu_keys b') \<subseteq> set (bu_keys b) \<and> set (bu_keys b) - K \<subseteq> set (bu_keys b')"

lemma trimmed_refl [simp]: "trimmed K b b"
  by (simp add: trimmed_def)

lemma trimmed_trans: "trimmed K b b' \<Longrightarrow> trimmed K b' b'' \<Longrightarrow> trimmed K b b''"
  by (auto simp: trimmed_def)

lemma trimmed_mono: "trimmed K b b' \<Longrightarrow> K \<subseteq> K' \<Longrightarrow> trimmed K' b b'"
  by (auto simp: trimmed_def)

definition under :: "string list \<Rightarrow> string set" where
  "under ps = {key. \<exists>p \<in> set ps. HasPrefix key p}"

lemma remove_prefixes_trimmed: "remove_prefixes ps b = (err, b') \<Longrightarrow> trimmed (under ps) b b'"
  using remove_prefixes_frame [of ps b err b'] by (auto simp: trimmed_def under_def)

lemma ApplyBinlogExpiry_trimmed: "ApplyBinlogExpiry srv now plan b = (err, b') \<Longrightarrow> trimmed (set (rp_DeleteBinlogKeys plan)) b b'"
  using ApplyBinlogExpiry_frame [of srv now plan b err b'] by (auto simp: trimmed_def)

text \<open>What a pass may remove from the backup bucket and from the archive bucket, whatever calls fail.\<close>

definition planned :: "RetentionPlan \<Rightarrow> string list \<Rightarrow> bool \<Rightarrow> string set" where
  "planned plan dumps same = under (rp_DeleteBackupPrefixes plan @ dumps) \<union> (if same then set (rp_DeleteBinlogKeys plan) else {})"

lemma retention_expiry_trimmed:
  assumes "on_backups (ApplyBackupExpiry plan) s = (e, s1)"
    "(e, s1) = (e1, s2) \<and> e \<noteq> None \<or> e = None \<and> on_archive same (ApplyBinlogExpiry srv now plan) s1 = (e1, s2)"
  shows "trimmed (planned plan dumps same) (fst s) (fst s2) \<and> trimmed (if same then {} else set (rp_DeleteBinlogKeys plan)) (snd s) (snd s2)"
proof -
  have fb: "trimmed (under (rp_DeleteBackupPrefixes plan)) (fst s) (fst s1)" "snd s1 = snd s"
    using on_backups_cases [OF assms(1)] remove_prefixes_trimmed by (simp_all add: ApplyBackupExpiry_def)
  have u: "under (rp_DeleteBackupPrefixes plan) \<subseteq> planned plan dumps same" by (auto simp: planned_def under_def)
  then have t1: "trimmed (planned plan dumps same) (fst s) (fst s1)" by (rule trimmed_mono [OF fb(1)])
  from assms(2) show ?thesis
  proof (elim disjE conjE)
    assume "(e, s1) = (e1, s2)"
    then show ?thesis using t1 fb(2) by simp
  next
    assume "on_archive same (ApplyBinlogExpiry srv now plan) s1 = (e1, s2)"
    from on_archive_cases [OF this] show ?thesis
    proof (cases same)
      case True
      then have "ApplyBinlogExpiry srv now plan (fst s1) = (e1, fst s2)" "snd s2 = snd s1"
        using on_archive_cases [OF \<open>on_archive same _ s1 = (e1, s2)\<close>] by simp_all
      moreover have "set (rp_DeleteBinlogKeys plan) \<subseteq> planned plan dumps same" using True by (auto simp: planned_def)
      ultimately show ?thesis using True t1 fb(2) trimmed_trans trimmed_mono ApplyBinlogExpiry_trimmed by (metis trimmed_refl)
    next
      case False
      then have "ApplyBinlogExpiry srv now plan (snd s1) = (e1, snd s2)" "fst s2 = fst s1"
        using on_archive_cases [OF \<open>on_archive same _ s1 = (e1, s2)\<close>] by simp_all
      then show ?thesis using False t1 fb(2) ApplyBinlogExpiry_trimmed by simp
    qed
  qed
qed

lemma retention_apply_trimmed:
  assumes "retention_apply srv now same plan dumps s = (out, s')"
  shows "trimmed (planned plan dumps same) (fst s) (fst s') \<and> trimmed (if same then {} else set (rp_DeleteBinlogKeys plan)) (snd s) (snd s')"
proof -
  define mid where "mid = (if Empty plan then (None, s)
            else case on_backups (ApplyBackupExpiry plan) s of
                   (Some err, s1) \<Rightarrow> (Some err, s1)
                 | (None, s1) \<Rightarrow> on_archive same (ApplyBinlogExpiry srv now plan) s1)"
  obtain e1 s2 where m: "mid = (e1, s2)" by (cases mid)
  have f2: "trimmed (planned plan dumps same) (fst s) (fst s2) \<and> trimmed (if same then {} else set (rp_DeleteBinlogKeys plan)) (snd s) (snd s2)"
  proof (cases "Empty plan")
    case True
    then show ?thesis using m by (simp add: mid_def)
  next
    case False
    obtain e s1 where b: "on_backups (ApplyBackupExpiry plan) s = (e, s1)" by (cases "on_backups (ApplyBackupExpiry plan) s")
    then show ?thesis using m False unfolding mid_def by (intro retention_expiry_trimmed [OF b, of e1 s2 same srv now dumps]) (cases e; auto)
  qed
  obtain e2 s3 where l: "on_backups (remove_prefixes dumps) s2 = (e2, s3)" by (cases "on_backups (remove_prefixes dumps) s2")
  have l': "trimmed (under dumps) (fst s2) (fst s3)" "snd s3 = snd s2"
    using on_backups_cases [OF l] remove_prefixes_trimmed by simp_all
  have "under dumps \<subseteq> planned plan dumps same" by (auto simp: planned_def under_def)
  then have f3: "trimmed (planned plan dumps same) (fst s) (fst s3)" using f2 l'(1) trimmed_trans trimmed_mono by metis
  have "s' = (if e1 = None then s3 else s2)"
    using assms unfolding retention_apply_def mid_def [symmetric] m by (cases e1; cases e2) (simp_all add: l)
  then show ?thesis using f2 f3 l'(2) by (cases "e1 = None"; metis)
qed

section \<open>Listings\<close>

lemma base_backups_mem:
  "base_backups GetJSON keys = Inr entries \<Longrightarrow> e \<in> set entries \<Longrightarrow>
     \<exists>key \<in> set keys. GetJSON key = Inr (be_Meta e) \<and> be_Prefix e = TrimSuffix key BackupMetadataName"
  by (induction keys arbitrary: entries) (auto simp: go_simps split: if_splits)

lemma logical_backups_mem:
  "logical_backups GetJSON keys = Inr entries \<Longrightarrow> e \<in> set entries \<Longrightarrow>
     \<exists>key \<in> set keys. GetJSON key = Inr (le_Meta e) \<and> le_Prefix e = TrimSuffix key LogicalMetadataName"
  by (induction keys arbitrary: entries) (auto simp: go_simps split: if_splits)

text \<open>The listing leaves both stores as they were, and what it returns is what they hold.\<close>

definition carries_uid :: "manifests \<Rightarrow> string \<Rightarrow> bucket \<Rightarrow> bool" where
  "carries_uid get uid b \<longleftrightarrow>
     (\<exists>key \<in> set (bu_keys b). (\<exists>m. GetBackup get key = Inr m \<and> bm_ClusterUID m = uid) \<or>
        (\<exists>m. GetLogical get key = Inr m \<and> lm_ClusterUID m = uid))"

definition index_carries :: "string \<Rightarrow> bucket \<Rightarrow> bool" where
  "index_carries uid b \<longleftrightarrow> (\<exists>idx etag. bu_index b = Some (idx, etag) \<and> ix_ClusterUID idx = uid)"

lemma on_backups_list:
  assumes "on_backups (\<lambda>b. ListObjects b p) s = (r, s')"
  shows "same_store (fst s) (fst s') \<and> snd s' = snd s \<and> (\<forall>keys. r = Inr keys \<longrightarrow> set keys \<subseteq> set (bu_keys (fst s)))"
proof -
  have l: "ListObjects (fst s) p = (r, fst s')" and s: "snd s' = snd s" using on_backups_cases [OF assms] by simp_all
  have "set keys \<subseteq> set (bu_keys (fst s))" if "r = Inr keys" for keys using ListObjects_frame [OF l] that by simp
  then show ?thesis using ListObjects_frame [OF l] s unfolding same_store_def by blast
qed

lemma on_archive_frame:
  assumes "on_archive same f s = (r, s')" "\<And>b r b'. f b = (r, b') \<Longrightarrow> same_store b b'"
  shows "same_store (fst s) (fst s') \<and> same_store (snd s) (snd s')"
proof (cases same)
  case True
  then have "f (fst s) = (r, fst s')" "snd s' = snd s" using on_archive_cases [OF assms(1)] by simp_all
  then show ?thesis using assms(2) by simp
next
  case False
  then have "f (snd s) = (r, snd s')" "fst s' = fst s" using on_archive_cases [OF assms(1)] by simp_all
  then show ?thesis using assms(2) by simp
qed

lemma ListObjects_same: "ListObjects b p = (r, b') \<Longrightarrow> same_store b b'"
  using ListObjects_frame unfolding same_store_def by blast

lemma read_index_same: "read_index b = (r, b') \<Longrightarrow> same_store b b'"
  using read_index_frame unfolding same_store_def by blast

lemma on_archive_index:
  assumes "on_archive same read_index s = (Inr i, s')"
  shows "i = map_option fst (bu_index (if same then fst s else snd s))"
proof (cases same)
  case True
  then have "read_index (fst s) = (Inr i, fst s')" using on_archive_cases [OF assms(1)] by simp
  then show ?thesis using read_index_frame True by simp
next
  case False
  then have "read_index (snd s) = (Inr i, snd s')" using on_archive_cases [OF assms(1)] by simp
  then show ?thesis using read_index_frame False by simp
qed

lemma same_store_trans: "same_store b b' \<Longrightarrow> same_store b' b'' \<Longrightarrow> same_store b b''"
  by (simp add: same_store_def)

lemma retention_listing_frame:
  assumes "retention_listing get same store binlogStore clusterName s0 = (r, s4)"
  shows "same_store (fst s0) (fst s4) \<and> same_store (snd s0) (snd s4)"
proof -
  obtain k1 s1 where 1: "on_backups (\<lambda>b. ListObjects b (ClusterPrefix store clusterName)) s0 = (k1, s1)"
    by (cases "on_backups (\<lambda>b. ListObjects b (ClusterPrefix store clusterName)) s0")
  obtain k2 s2 where 2: "on_backups (\<lambda>b. ListObjects b (ClusterPrefix store clusterName)) s1 = (k2, s2)"
    by (cases "on_backups (\<lambda>b. ListObjects b (ClusterPrefix store clusterName)) s1")
  obtain k3 s3 where 3: "on_archive same (\<lambda>b. ListObjects b (BinlogPrefix binlogStore clusterName)) s2 = (k3, s3)"
    by (cases "on_archive same (\<lambda>b. ListObjects b (BinlogPrefix binlogStore clusterName)) s2")
  obtain k4 s5 where 4: "on_archive same read_index s3 = (k4, s5)" by (cases "on_archive same read_index s3")
  have s1: "same_store (fst s0) (fst s1) \<and> same_store (snd s0) (snd s1)" using on_backups_list [OF 1] by simp
  then have s2: "same_store (fst s0) (fst s2) \<and> same_store (snd s0) (snd s2)"
    using on_backups_list [OF 2] by (simp add: same_store_def)
  then have s3: "same_store (fst s0) (fst s3) \<and> same_store (snd s0) (snd s3)"
    using on_archive_frame [OF 3 ListObjects_same] by (simp add: same_store_def)
  then have s5: "same_store (fst s0) (fst s5) \<and> same_store (snd s0) (snd s5)"
    using on_archive_frame [OF 4 read_index_same] by (simp add: same_store_def)
  have "s4 \<in> {s1, s2, s3, s5}"
    using assms unfolding retention_listing_def 1 2 3 4 prod.case by (auto split: sum.splits)
  then show ?thesis using s1 s2 s3 s5 by auto
qed

lemma retention_listing_Inr:
  assumes "retention_listing get same store binlogStore clusterName s0 = (Inr (backups, logical, binlogs, index), s4)"
  shows "(\<forall>e \<in> set backups. \<exists>key \<in> set (bu_keys (fst s0)). GetBackup get key = Inr (be_Meta e)) \<and>
    (\<forall>e \<in> set logical. \<exists>key \<in> set (bu_keys (fst s0)). GetLogical get key = Inr (le_Meta e)) \<and>
    index = map_option fst (bu_index (if same then fst s0 else snd s0))"
proof -
  obtain k1 s1 where 1: "on_backups (\<lambda>b. ListObjects b (ClusterPrefix store clusterName)) s0 = (k1, s1)"
    by (cases "on_backups (\<lambda>b. ListObjects b (ClusterPrefix store clusterName)) s0")
  obtain k2 s2 where 2: "on_backups (\<lambda>b. ListObjects b (ClusterPrefix store clusterName)) s1 = (k2, s2)"
    by (cases "on_backups (\<lambda>b. ListObjects b (ClusterPrefix store clusterName)) s1")
  obtain k3 s3 where 3: "on_archive same (\<lambda>b. ListObjects b (BinlogPrefix binlogStore clusterName)) s2 = (k3, s3)"
    by (cases "on_archive same (\<lambda>b. ListObjects b (BinlogPrefix binlogStore clusterName)) s2")
  have b: "ListBaseBackups (\<lambda>_. k1) (GetBackup get) store clusterName = Inr backups"
    and l: "ListLogicalBackups (\<lambda>_. k2) (GetLogical get) store clusterName = Inr logical"
    and i: "on_archive same read_index s3 = (Inr index, s4)"
    using assms unfolding retention_listing_def 1 2 3 prod.case by (auto split: sum.splits prod.splits)
  obtain ks1 ks2 where k: "k1 = Inr ks1" "base_backups (GetBackup get) ks1 = Inr backups"
    "k2 = Inr ks2" "logical_backups (GetLogical get) ks2 = Inr logical"
    using b l by (auto simp: ListBaseBackups_def ListLogicalBackups_def go_simps)
  have s1: "same_store (fst s0) (fst s1)" "snd s1 = snd s0" "set ks1 \<subseteq> set (bu_keys (fst s0))"
    using on_backups_list [OF 1] k(1) by simp_all
  have s2: "same_store (fst s1) (fst s2)" "snd s2 = snd s1" "set ks2 \<subseteq> set (bu_keys (fst s1))"
    using on_backups_list [OF 2] k(3) by simp_all
  have s3: "same_store (fst s2) (fst s3)" "same_store (snd s2) (snd s3)" using on_archive_frame [OF 3 ListObjects_same] by simp_all
  have "bu_index (if same then fst s3 else snd s3) = bu_index (if same then fst s0 else snd s0)"
    using s1 s2 s3 by (simp add: same_store_def)
  then have "index = map_option fst (bu_index (if same then fst s0 else snd s0))" using on_archive_index [OF i] by simp
  moreover have "\<exists>key \<in> set (bu_keys (fst s0)). GetBackup get key = Inr (be_Meta e)" if "e \<in> set backups" for e
    using base_backups_mem [OF k(2) that] s1(3) by blast
  moreover have "\<exists>key \<in> set (bu_keys (fst s0)). GetLogical get key = Inr (le_Meta e)" if "e \<in> set logical" for e
    using logical_backups_mem [OF k(4) that] s2(3) s1(1) by (auto simp: same_store_def)
  ultimately show ?thesis by blast
qed

section \<open>Ownership\<close>

lemma retentionOwnership_ok:
  assumes "retentionOwnership uid same backups logical binlogs index = []"
  shows "(backups \<noteq> [] \<or> logical \<noteq> [] \<longrightarrow>
      (\<exists>b \<in> set backups. bm_ClusterUID (be_Meta b) = uid) \<or> (\<exists>l \<in> set logical. lm_ClusterUID (le_Meta l) = uid) \<or>
      same \<and> (\<exists>idx. index = Some idx \<and> ix_ClusterUID idx = uid)) \<and>
    (binlogs \<noteq> [] \<or> index \<noteq> None \<longrightarrow>
      (\<exists>idx. index = Some idx \<and> ix_ClusterUID idx = uid) \<or>
      same \<and> ((\<exists>b \<in> set backups. bm_ClusterUID (be_Meta b) = uid) \<or> (\<exists>l \<in> set logical. lm_ClusterUID (le_Meta l) = uid)))"
proof -
  have "index \<noteq> None \<Longrightarrow> (case index of None \<Rightarrow> False | Some idx \<Rightarrow> ix_ClusterUID idx = uid) \<longleftrightarrow>
      (\<exists>idx. index = Some idx \<and> ix_ClusterUID idx = uid)" by auto
  then show ?thesis using assms unfolding retentionOwnership_def Let_def
    by (cases same; cases index) (auto split: if_splits)
qed

lemma plan_no_binlogs:
  "binlogs = [] \<Longrightarrow> rp_DeleteBinlogKeys (PlanRetention srt now backups binlogs index cutoff) = [] \<and>
     rp_DeletedBinlogs (PlanRetention srt now backups binlogs index cutoff) = []"
  by (simp add: plan_binlogs plan_deleted)

lemma plan_no_backups: "Empty (PlanRetention srt now [] binlogs index cutoff)"
  by (simp add: PlanRetention_def Empty_def)

lemma PlanLogicalRetention_Nil [simp]: "PlanLogicalRetention [] cutoff = []"
  by (simp add: PlanLogicalRetention_def)

lemma retention_apply_nothing:
  assumes "retention_apply srv now same plan [] s = (out, s')" "Empty plan"
  shows "s' = s"
  using assms by (simp add: retention_apply_def on_backups_def)

lemma retention_apply_archive:
  assumes "retention_apply srv now same plan dumps s = (out, s')"
    "same \<or> rp_DeleteBinlogKeys plan = [] \<and> rp_DeletedBinlogs plan = []"
  shows "snd s' = snd s"
proof -
  define mid where "mid = (if Empty plan then (None, s)
            else case on_backups (ApplyBackupExpiry plan) s of
                   (Some err, s1) \<Rightarrow> (Some err, s1)
                 | (None, s1) \<Rightarrow> on_archive same (ApplyBinlogExpiry srv now plan) s1)"
  obtain e1 s2 where m: "mid = (e1, s2)" by (cases mid)
  obtain e s1 where b: "on_backups (ApplyBackupExpiry plan) s = (e, s1)" by (cases "on_backups (ApplyBackupExpiry plan) s")
  have s1: "snd s1 = snd s" using on_backups_cases [OF b] by simp
  have s2: "snd s2 = snd s"
  proof (cases "Empty plan \<or> e \<noteq> None")
    case True
    then show ?thesis using m b s1 by (auto simp: mid_def split: if_splits)
  next
    case False
    then have a: "on_archive same (ApplyBinlogExpiry srv now plan) s1 = (e1, s2)" using m b by (simp add: mid_def)
    show ?thesis
      using on_archive_cases [OF a] ApplyBinlogExpiry_frame [of srv now plan "snd s1" e1 "snd s2"] assms(2) s1
      by (cases same) simp_all
  qed
  obtain e2 s3 where l: "on_backups (remove_prefixes dumps) s2 = (e2, s3)" by (cases "on_backups (remove_prefixes dumps) s2")
  have "s' = (if e1 = None then s3 else s2)"
    using assms(1) unfolding retention_apply_def mid_def [symmetric] m by (cases e1; cases e2) (simp_all add: l)
  then show ?thesis using s2 on_backups_cases [OF l] by simp
qed

text \<open>C38. Retention deletes only from a location proven to be the cluster's own: whatever calls fail, when a pass changes
  the backup store, a manifest in it carries the cluster's UID, or the index does when the archive is at the same location;
  and when it changes a separate archive store, the index there carries it.\<close>

theorem retention_only_owned:
  assumes "retention_pass srt srv get now window uid same store binlogStore clusterName s0 = (out, s')"
  shows "(same_store (fst s0) (fst s') \<or> carries_uid get uid (fst s0) \<or> same \<and> index_carries uid (fst s0)) \<and>
    (same_store (snd s0) (snd s') \<or> \<not> same \<and> index_carries uid (snd s0))"
proof -
  obtain r s1 where l: "retention_listing get same store binlogStore clusterName s0 = (r, s1)"
    by (cases "retention_listing get same store binlogStore clusterName s0")
  note f1 = retention_listing_frame [OF l]
  show ?thesis
  proof (cases r)
    case (Inl e)
    then show ?thesis using assms l f1 by (simp add: retention_pass_def)
  next
    case (Inr q)
    obtain backups logical binlogs index where q: "q = (backups, logical, binlogs, index)" by (cases q)
    have l': "retention_listing get same store binlogStore clusterName s0 = (Inr (backups, logical, binlogs, index), s1)"
      using l Inr q by simp
    note facts = retention_listing_Inr [OF l']
    let ?plan = "PlanRetention srt now backups binlogs index (now - window)" and ?dumps = "PlanLogicalRetention logical (now - window)"
    show ?thesis
    proof (cases "retentionOwnership uid same backups logical binlogs index = []")
      case False
      then show ?thesis using assms l' f1 by (simp add: retention_pass_def)
    next
      case True
      then have a: "retention_apply srv now same ?plan ?dumps s1 = (out, s')"
        using assms l' by (simp add: retention_pass_def Let_def)
      note own = retentionOwnership_ok [OF True]
      have index: "index_carries uid (if same then fst s0 else snd s0)" if "\<exists>idx. index = Some idx \<and> ix_ClusterUID idx = uid"
        using that facts by (auto simp: index_carries_def)
      have manifest: "carries_uid get uid (fst s0)"
        if "(\<exists>b \<in> set backups. bm_ClusterUID (be_Meta b) = uid) \<or> (\<exists>l \<in> set logical. lm_ClusterUID (le_Meta l) = uid)"
        using that facts unfolding carries_uid_def by metis
      have b: "s' = s1 \<or> carries_uid get uid (fst s0) \<or> same \<and> index_carries uid (fst s0)"
      proof (cases "backups = [] \<and> logical = []")
        case True
        then show ?thesis using retention_apply_nothing [of srv now same ?plan s1 out s'] a plan_no_backups by simp
      next
        case False
        then show ?thesis using own index manifest by (cases same) auto
      qed
      have c: "snd s' = snd s1 \<or> \<not> same \<and> index_carries uid (snd s0)"
      proof (cases same)
        case True
        then show ?thesis using retention_apply_archive [OF a] by simp
      next
        case False
        then show ?thesis
        proof (cases "binlogs = []")
          case True
          then show ?thesis using retention_apply_archive [OF a] plan_no_binlogs by metis
        next
          case b: False
          then show ?thesis using own index False by auto
        qed
      qed
      show ?thesis using b c f1 by (auto simp: same_store_def)
    qed
  qed
qed

text \<open>C39. A failing call never costs more than the plan: however a pass ends, and whichever of its calls fail, an object is
  gone only if it lies under the directory of an expired backup or dump or is one of the archived files the plan deletes,
  and nothing is added.\<close>

theorem retention_failure_safe:
  assumes "retention_listing get same store binlogStore clusterName s0 = (Inr (backups, logical, binlogs, index), s1)"
    "retention_pass srt srv get now window uid same store binlogStore clusterName s0 = (out, s')"
    and plan: "plan = PlanRetention srt now backups binlogs index (now - window)"
    and dumps: "dumps = PlanLogicalRetention logical (now - window)"
  shows "trimmed (planned plan dumps same) (fst s0) (fst s') \<and>
    trimmed (if same then {} else set (rp_DeleteBinlogKeys plan)) (snd s0) (snd s')"
proof -
  have eq: "trimmed K (fst s0) b = trimmed K (fst s1) b" "trimmed K (snd s0) b = trimmed K (snd s1) b" for K b
    using retention_listing_frame [OF assms(1)] by (simp_all add: trimmed_def same_store_def)
  show ?thesis
  proof (cases "retentionOwnership uid same backups logical binlogs index = []")
    case False
    then have "s' = s1" using assms(1,2) by (simp add: retention_pass_def)
    then show ?thesis by (simp add: eq)
  next
    case True
    then have "retention_apply srv now same plan dumps s1 = (out, s')"
      using assms(1,2) by (simp add: retention_pass_def Let_def plan dumps)
    from retention_apply_trimmed [OF this] show ?thesis by (simp only: eq)
  qed
qed

section \<open>An interrupted pass\<close>

definition wit_keys :: "string list" where
  "wit_keys = [''db/b1/i1/backup.xbstream'', ''db/b1/i1/metadata.json'', ''db/b2/i2/metadata.json'',
     ''db/binlogs/s/bin.1'', ''db/binlogs/s/bin.1.json'', ''db/binlogs/s/bin.2'', ''db/binlogs/s/bin.2.json'']"

definition wit_bucket :: bucket where
  "wit_bucket = \<lparr>bu_keys = wit_keys,
     bu_index = Some (wit_index\<lparr>ix_ClusterUID := ''uid''\<rparr>, gen_tag wit_index), bu_faults = []\<rparr>"

definition wit_manifests :: manifests where
  "wit_manifests = \<lparr>
     GetBackup = (\<lambda>key. if key = ''db/b1/i1/metadata.json'' then Inr (be_Meta (wit_backup [] 10 20))
        else Inr (be_Meta (wit_backup [] 100 120))),
     GetLogical = (\<lambda>key. Inl (Errorf ''no dump'' [])),
     GetBinlog = (\<lambda>key. if key = ''db/binlogs/s/bin.1.json'' then Inr (bl_Meta (wit_binlog ''bin.1'' 30))
        else Inr (bl_Meta (wit_binlog ''bin.2'' 110)))\<rparr>"

text \<open>An endpoint that cannot be read while the index is rewritten, and one that works.\<close>

definition failing_server :: s3_server where
  "failing_server = ideal_server\<lparr>srv_get := \<lambda>obj. Inl (Errorf ''timeout'' [])\<rparr>"

definition wit_retention :: "s3_server \<Rightarrow> bucket \<times> bucket \<Rightarrow> retention_outcome \<times> bucket \<times> bucket" where
  "wit_retention srv s = retention_pass by_completion srv wit_manifests 200 150 ''uid'' True (wit_store\<lparr>s3_Path := []\<rparr>)
     (wit_store\<lparr>s3_Path := []\<rparr>) ''db'' s"

definition lists_missing :: "bucket \<Rightarrow> string \<Rightarrow> string \<Rightarrow> string \<Rightarrow> bool" where
  "lists_missing b uuid name key \<longleftrightarrow>
     key \<notin> set (bu_keys b) \<and> (case bu_index b of None \<Rightarrow> False | Some (idx, etag) \<Rightarrow> listed idx uuid name)"

text \<open>A pass interrupted between deleting the archived files and rewriting the index is not repaired by the next one:
  the backup whose expiry started it is gone, so nothing expires, and the manifests of the deleted files are gone, so no
  plan names them again; the index keeps listing a file that no longer exists.\<close>

theorem interrupted_retention_stale:
  "(case wit_retention failing_server (wit_bucket, wit_bucket) of (out1, s1) \<Rightarrow>
    case wit_retention ideal_server s1 of (out2, s2) \<Rightarrow>
      out1 \<noteq> Applied \<and> out2 = Applied \<and> lists_missing (fst s2) ''s'' ''bin.1'' ''db/binlogs/s/bin.1'')"
  by code_simp

lemma retention_only_owned_witness:
  "\<not> same_store wit_bucket (fst (snd (wit_retention ideal_server (wit_bucket, wit_bucket)))) \<and>
   (carries_uid wit_manifests ''uid'' wit_bucket \<or> index_carries ''uid'' wit_bucket)"
proof -
  let ?p = "wit_retention ideal_server (wit_bucket, wit_bucket)"
  have n: "\<not> same_store wit_bucket (fst (snd ?p))" by code_simp
  have "?p = (fst ?p, snd ?p)" by simp
  then have "same_store wit_bucket (fst (snd ?p)) \<or> carries_uid wit_manifests ''uid'' wit_bucket \<or> index_carries ''uid'' wit_bucket"
    using retention_only_owned [of by_completion ideal_server wit_manifests 200 150 "''uid''" True "wit_store\<lparr>s3_Path := []\<rparr>"
      "wit_store\<lparr>s3_Path := []\<rparr>" "''db''" "(wit_bucket, wit_bucket)" "fst ?p" "snd ?p"]
    unfolding wit_retention_def by simp
  then show ?thesis using n by blast
qed

definition wit_listed :: "BackupEntry list" where
  "wit_listed = [(wit_backup [] 10 20)\<lparr>be_Prefix := ''db/b1/i1/''\<rparr>, (wit_backup [] 100 120)\<lparr>be_Prefix := ''db/b2/i2/''\<rparr>]"

definition wit_owned :: ArchiveIndex where
  "wit_owned = wit_index\<lparr>ix_ClusterUID := ''uid''\<rparr>"

lemma wit_listing:
  "retention_listing wit_manifests True (wit_store\<lparr>s3_Path := []\<rparr>) (wit_store\<lparr>s3_Path := []\<rparr>) ''db'' (wit_bucket, wit_bucket) =
     (Inr (wit_listed, [], wit_binlogs, Some wit_owned), (wit_bucket, wit_bucket))"
  by code_simp

lemma retention_failure_safe_witness:
  "''db/b2/i2/metadata.json'' \<in> set (bu_keys (fst (snd (wit_retention failing_server (wit_bucket, wit_bucket)))))"
proof -
  let ?p = "wit_retention failing_server (wit_bucket, wit_bucket)"
  let ?plan = "PlanRetention by_completion 200 wit_listed wit_binlogs (Some wit_owned) (200 - 150)"
  have plan: "rp_DeleteBackupPrefixes ?plan = [''db/b1/i1/'']"
    "rp_DeleteBinlogKeys ?plan = [''db/binlogs/s/bin.1'', ''db/binlogs/s/bin.1.json'']" by code_simp+
  have "?p = (fst ?p, snd ?p)" by simp
  then have "trimmed (planned ?plan (PlanLogicalRetention [] (200 - 150)) True) wit_bucket (fst (snd ?p))"
    using retention_failure_safe [OF wit_listing, of by_completion failing_server 200 150 "''uid''" "fst ?p" "snd ?p" ?plan
      "PlanLogicalRetention [] (200 - 150)"] unfolding wit_retention_def by simp
  moreover have "''db/b2/i2/metadata.json'' \<notin> planned ?plan (PlanLogicalRetention [] (200 - 150)) True"
    unfolding planned_def under_def plan by (simp add: HasPrefix_def)
  ultimately show ?thesis unfolding trimmed_def by (auto simp: wit_bucket_def wit_keys_def)
qed

end
