(* ===== verification/Gtid_Ops.thy ===== *)
theory Gtid_Ops
  imports Gtid_Model
begin

text \<open>
  The set operations the archiver and the replay planner use (the interface \<open>gtidOps\<close> of
  \<open>pkg/management/mysql/binlog/replay.go\<close>). The Go interface is the record \<open>gtid_ops\<close> of its methods over the
  type of the implementing object; a method that changes its receiver returns it. What the callers rely on is the locale
  \<open>ops_laws\<close>: an object stands for a set of transactions and the methods are the set operations. It is interpreted on
  both implementations, the interval sets of MySQL and the position strings of MariaDB, so that the archive index and the
  replay plan are proved once for both.
\<close>

section \<open>The interface and its implementations\<close>

record 'g gtid_ops =
  op_New :: 'g
  op_Parse :: "string \<Rightarrow> 'g res"
  op_Contains :: "'g \<Rightarrow> 'g \<Rightarrow> bool"
  op_Union :: "'g \<Rightarrow> 'g \<Rightarrow> 'g"
  op_IsEmpty :: "'g \<Rightarrow> bool"
  op_String :: "'g \<Rightarrow> string"

definition mysql_Parse :: "string \<Rightarrow> GTIDSet res" where
  "mysql_Parse raw = (if raw = [] then Inr [] else ParseGTIDSet raw)"

definition mysql_Contains :: "GTIDSet \<Rightarrow> GTIDSet \<Rightarrow> bool" where
  "mysql_Contains m other = (if IsEmpty other then True else Contains m other)"

definition mysql_Union :: "GTIDSet \<Rightarrow> GTIDSet \<Rightarrow> GTIDSet" where
  "mysql_Union m other = Union (Clone m) other"

definition mysqlGTIDSet :: "GTIDSet gtid_ops" where
  "mysqlGTIDSet = \<lparr>op_New = [], op_Parse = mysql_Parse, op_Contains = mysql_Contains, op_Union = mysql_Union,
     op_IsEmpty = IsEmpty, op_String = GTIDSet_String\<rparr>"

text \<open>The MariaDB object is its raw position; its methods go through the engine's model.\<close>

definition mariadb_Parse :: "gtid_model \<Rightarrow> string \<Rightarrow> string res" where
  "mariadb_Parse model raw =
     (if raw \<noteq> [] then (case gm_Canonical model raw of Inl err \<Rightarrow> Inl err | Inr _ \<Rightarrow> Inr raw) else Inr raw)"

definition mariadb_Contains :: "gtid_model \<Rightarrow> string \<Rightarrow> string \<Rightarrow> bool" where
  "mariadb_Contains model m other =
     (if other = [] then True
      else if m = [] then False
      else case gm_Contains model m other of Inr ok \<Rightarrow> ok | Inl err \<Rightarrow> False)"

definition unionStrings :: "string \<Rightarrow> string \<Rightarrow> string" where
  "unionStrings a b = (if a = [] then b else if b = [] then a else TrimSpace (a @ '','' @ b))"

definition mariadb_Union :: "string \<Rightarrow> string \<Rightarrow> string" where
  "mariadb_Union m other = (if m = [] then other else if other = [] then m else unionStrings m other)"

definition mariadb_IsEmpty :: "gtid_model \<Rightarrow> string \<Rightarrow> bool" where
  "mariadb_IsEmpty model m = (case gm_IsEmpty model m of Inr e \<Rightarrow> e | Inl err \<Rightarrow> False)"

definition mariadb_String :: "gtid_model \<Rightarrow> string \<Rightarrow> string" where
  "mariadb_String model m =
     (if m = [] then [] else case gm_Canonical model m of Inl err \<Rightarrow> m | Inr canonical \<Rightarrow> canonical)"

definition mariadbGTIDSet :: "gtid_model \<Rightarrow> string gtid_ops" where
  "mariadbGTIDSet model = \<lparr>op_New = [], op_Parse = mariadb_Parse model, op_Contains = mariadb_Contains model,
     op_Union = mariadb_Union, op_IsEmpty = mariadb_IsEmpty model, op_String = mariadb_String model\<rparr>"

section \<open>What the interface promises\<close>

text \<open>
  \<open>reach\<close> is what a string stands for, \<open>txns\<close> what an object stands for, \<open>ok\<close> the objects the methods are used on
  and \<open>admits\<close> the strings whose objects they are. A string of spaces is not admitted on MariaDB: its object is not the
  empty one, and \<open>Contains\<close> and \<open>Union\<close> treat it differently.
\<close>

locale ops_laws =
  fixes ops :: "'g gtid_ops"
    and reach :: "string \<Rightarrow> 't set res"
    and txns :: "'g \<Rightarrow> 't set"
    and ok :: "'g \<Rightarrow> bool"
    and admits :: "string \<Rightarrow> bool"
  assumes New_law: "ok (op_New ops) \<and> txns (op_New ops) = {}"
    and Parse_law: "admits raw \<Longrightarrow> op_Parse ops raw = Inr g \<Longrightarrow> ok g \<and> reach raw = Inr (txns g)"
    and Parse_total: "reach raw = Inr A \<Longrightarrow> \<exists>g. op_Parse ops raw = Inr g"
    and Contains_law: "ok m \<Longrightarrow> ok g \<Longrightarrow> op_Contains ops m g \<longleftrightarrow> txns g \<subseteq> txns m"
    and Union_law: "ok m \<Longrightarrow> ok g \<Longrightarrow> ok (op_Union ops m g) \<and> txns (op_Union ops m g) = txns m \<union> txns g"
    and IsEmpty_law: "ok m \<Longrightarrow> op_IsEmpty ops m \<longleftrightarrow> txns m = {}"
    and String_law: "ok m \<Longrightarrow> admits (op_String ops m) \<and> reach (op_String ops m) = Inr (txns m)"
    and admits_Nil: "admits [] \<and> reach [] = Inr {}"
begin

text \<open>The union of a list of strings, as the archiver and the planner accumulate it.\<close>

lemma Parse_Inr:
  "admits raw \<Longrightarrow> reach raw = Inr A \<Longrightarrow> \<exists>g. op_Parse ops raw = Inr g \<and> ok g \<and> txns g = A"
  using Parse_total [of raw A] Parse_law [of raw] by fastforce

lemma print_parse: "ok m \<Longrightarrow> \<exists>g. op_Parse ops (op_String ops m) = Inr g \<and> ok g \<and> txns g = txns m"
  using String_law [of m] Parse_Inr by blast

end

section \<open>MySQL\<close>

lemma slice_at_Clone: "wf_set s \<Longrightarrow> slice_at (Clone s) u = slice_at s u"
  by (simp add: slice_at_def Clone_correct)

interpretation mysql_ops: ops_laws mysqlGTIDSet mysql_reach gtids wf_set "\<lambda>_. True"
proof
  fix raw g
  assume "op_Parse mysqlGTIDSet raw = Inr g"
  then have "ParseGTIDSet raw = Inr g" by (auto simp: mysqlGTIDSet_def mysql_Parse_def ParseGTIDSet_def strip_spaces_def split: if_splits)
  then show "wf_set g \<and> mysql_reach raw = Inr (gtids g)" by (simp add: ParseGTIDSet_wf mysql_reach_def)
next
  fix m g assume "wf_set m" "wf_set g"
  then show "wf_set (op_Union mysqlGTIDSet m g) \<and> gtids (op_Union mysqlGTIDSet m g) = gtids m \<union> gtids g"
    using Union_correct [OF Clone_wf] by (simp add: mysqlGTIDSet_def mysql_Union_def gtids_def slice_at_Clone)
next
  fix m assume "wf_set m"
  then show "True \<and> mysql_reach (op_String mysqlGTIDSet m) = Inr (gtids m)"
    using parse_print [of m] by (auto simp: mysqlGTIDSet_def mysql_reach_Inr)
next
  fix raw A assume "mysql_reach raw = Inr A"
  then show "\<exists>g. op_Parse mysqlGTIDSet raw = Inr g" by (auto simp: mysqlGTIDSet_def mysql_Parse_def mysql_reach_Inr)
qed (auto simp: mysqlGTIDSet_def mysql_Contains_def IsEmpty_iff Contains_iff gtids_def mysql_reach_def ParseGTIDSet_def strip_spaces_def)

section \<open>MariaDB\<close>

lemma split_on_concat: "split_on c (s @ c # t) = split_on c s @ split_on c t"
  by (induction s) (auto split: list.splits)

lemma split_on_covers: "x \<in> set s \<Longrightarrow> x \<noteq> c \<Longrightarrow> \<exists>p \<in> set (split_on c s). x \<in> set p"
  by (induction s) (auto split: list.splits)

lemma parse_digits_chars: "parse_digits acc s = Some n \<Longrightarrow> x \<in> set s \<Longrightarrow> is_digit x"
  by (induction acc s rule: parse_digits.induct) (auto split: if_splits)

lemma ParseUint_chars: "ParseUint s bits = Inr n \<Longrightarrow> x \<in> set s \<Longrightarrow> is_digit x"
  by (auto simp: ParseUint_def parse_dec_def split: option.splits if_splits dest: parse_digits_chars)

lemma parse_triple_chars:
  assumes "parse_triple raw t = Inr v" "x \<in> set t"
  shows "is_digit x \<or> x = CHR ''-''"
proof (cases "x = CHR ''-''")
  case False
  let ?ps = "split_on CHR ''-'' t"
  obtain p where p: "p \<in> set ?ps" "x \<in> set p" using split_on_covers [OF assms(2) False] by blast
  have "length ?ps = 3" and u: "\<exists>n. ParseUint (?ps ! 0) 32 = Inr n" "\<exists>n. ParseUint (?ps ! 1) 32 = Inr n" "\<exists>n. ParseUint (?ps ! 2) 64 = Inr n"
    using assms(1) by (simp_all add: parse_triple_def Let_def split: if_splits sum.splits)
  then obtain a b c where abc: "?ps = [a, b, c]" by (auto simp: numeral_3_eq_3 length_Suc_conv)
  then have "p = a \<or> p = b \<or> p = c" using p(1) by simp
  then show ?thesis using u p(2) ParseUint_chars abc by auto
qed simp

lemma parse_triples_ok:
  "(\<exists>q. parse_triples raw ts p = Inr q) \<longleftrightarrow> (\<forall>t \<in> set ts. is_ok (parse_triple raw t))"
  by (induction raw ts p rule: parse_triples.induct) (auto simp: is_ok_def split: sum.splits prod.splits)

lemma parse_triple_raw: "parse_triple raw t = Inr v \<longleftrightarrow> parse_triple raw' t = Inr v"
  by (auto simp: parse_triple_def Let_def split: if_splits sum.splits)

text \<open>What a list of triples stands for.\<close>

definition triples_set :: "string list \<Rightarrow> (nat \<times> int) set" where
  "triples_set ts = (\<Union>t \<in> set ts. case parse_triple [] t of Inl _ \<Rightarrow> {} | Inr (d, e) \<Rightarrow> Pair d ` {0 .. int (me_seq e)})"

lemma parse_triples_set:
  "parse_triples raw ts p = Inr q \<Longrightarrow> maria_set q = maria_set p \<union> triples_set ts"
proof (induction raw ts p rule: parse_triples.induct)
  case (2 raw t rest p)
  then obtain d e where t: "parse_triple raw t = Inr (d, e)" by (auto split: sum.splits)
  then have "parse_triple [] t = Inr (d, e)" using parse_triple_raw by blast
  with "2.IH" [OF t refl] "2.prems" t show ?case by (auto simp: triples_set_def keep_higher_correct(2))
qed (simp add: triples_set_def)

lemma parseMariaPos_split:
  "strip_spaces raw \<noteq> [] \<Longrightarrow> maria_reach raw = Inr A \<longleftrightarrow>
     (\<forall>t \<in> set (split_on CHR '','' (strip_spaces raw)). is_ok (parse_triple [] t)) \<and>
     A = triples_set (split_on CHR '','' (strip_spaces raw))"
proof -
  assume ne: "strip_spaces raw \<noteq> []"
  let ?ts = "split_on CHR '','' (strip_spaces raw)"
  have "is_ok (parse_triple raw t) = is_ok (parse_triple [] t)" for t
    using parse_triple_raw [of raw t _ "[]"] by (metis is_ok_simps is_okE obj_sumE)
  then show ?thesis
    using parse_triples_ok [of raw ?ts "[]"] parse_triples_set [of raw ?ts "[]"] ne
    by (auto simp: maria_reach_Inr parseMariaPos_def Let_def)
qed

text \<open>A position that parses holds no other space than the ones the parser strips.\<close>

lemma maria_reach_spaces:
  assumes "maria_reach raw = Inr A" "x \<in> set raw" "is_space x"
  shows "is_gtid_space x"
proof (rule ccontr)
  assume n: "\<not> is_gtid_space x"
  then have m: "x \<in> set (strip_spaces raw)" using assms(2) by (simp add: strip_spaces_def)
  then have ne: "strip_spaces raw \<noteq> []" by auto
  have "x \<noteq> CHR '',''" using assms(3) by (auto simp: is_space_def less_eq_char_def)
  then obtain t where t: "t \<in> set (split_on CHR '','' (strip_spaces raw))" "x \<in> set t" using split_on_covers [OF m] by blast
  then obtain v where "parse_triple [] t = Inr v" using assms(1) parseMariaPos_split [OF ne] by (blast elim: is_okE)
  from parse_triple_chars [OF this t(2)] show False using assms(3) by (auto simp: is_digit_def is_space_def less_eq_char_def)
qed

lemma strip_dropWhile:
  "(\<And>x. x \<in> set s \<Longrightarrow> is_space x \<Longrightarrow> is_gtid_space x) \<Longrightarrow> strip_spaces (dropWhile is_space s) = strip_spaces s"
  by (induction s) (auto simp: strip_spaces_def)

lemma strip_rev: "strip_spaces (rev s) = rev (strip_spaces s)"
  by (simp add: strip_spaces_def rev_filter)

lemma strip_TrimSpace:
  assumes "\<And>x. x \<in> set s \<Longrightarrow> is_space x \<Longrightarrow> is_gtid_space x"
  shows "strip_spaces (TrimSpace s) = strip_spaces s"
proof -
  have "strip_spaces (dropWhile is_space (rev (dropWhile is_space s))) = strip_spaces (rev (dropWhile is_space s))"
    using assms by (intro strip_dropWhile) (auto dest: set_dropWhileD)
  then show ?thesis using strip_dropWhile [OF assms] by (simp add: TrimSpace_def strip_rev)
qed

lemma maria_concat:
  assumes "maria_reach a = Inr A" "maria_reach b = Inr B" "strip_spaces a \<noteq> []" "strip_spaces b \<noteq> []"
  shows "maria_reach (TrimSpace (a @ '','' @ b)) = Inr (A \<union> B) \<and> strip_spaces (TrimSpace (a @ '','' @ b)) \<noteq> []"
proof -
  have "is_gtid_space x" if "x \<in> set (a @ '','' @ b)" "is_space x" for x
    using that maria_reach_spaces assms(1,2) by (auto simp: is_space_def less_eq_char_def)
  then have s: "strip_spaces (TrimSpace (a @ '','' @ b)) = strip_spaces a @ CHR '','' # strip_spaces b"
    by (subst strip_TrimSpace) (auto simp: strip_spaces_def is_gtid_space_def)
  then have "maria_reach (TrimSpace (a @ '','' @ b)) = Inr (A \<union> B)"
    using assms by (auto simp: parseMariaPos_split split_on_concat triples_set_def)
  then show ?thesis using s by simp
qed

lemma maria_reach_nonempty: "strip_spaces raw \<noteq> [] \<Longrightarrow> maria_reach raw = Inr A \<Longrightarrow> A \<noteq> {}"
proof -
  assume ne: "strip_spaces raw \<noteq> []" and r: "maria_reach raw = Inr A"
  obtain t ts where t: "split_on CHR '','' (strip_spaces raw) = t # ts" by (cases "split_on CHR '','' (strip_spaces raw)") auto
  then obtain d e where "parse_triple [] t = Inr (d, e)" 
    using r parseMariaPos_split [OF ne] by (metis is_okE list.set_intros(1) surj_pair)
  then have "(d, 0) \<in> A" using r t parseMariaPos_split [OF ne] by (auto simp: triples_set_def)
  then show "A \<noteq> {}" by blast
qed

definition maria_txns :: "string \<Rightarrow> (nat \<times> int) set" where
  "maria_txns raw = (case maria_reach raw of Inl _ \<Rightarrow> {} | Inr A \<Rightarrow> A)"

definition maria_admits :: "string \<Rightarrow> bool" where
  "maria_admits raw \<longleftrightarrow> raw = [] \<or> strip_spaces raw \<noteq> []"

definition maria_ok :: "string \<Rightarrow> bool" where
  "maria_ok raw \<longleftrightarrow> maria_admits raw \<and> is_ok (maria_reach raw)"

lemma maria_reach_Nil: "maria_reach [] = Inr {}"
  by (simp add: maria_reach_def parseMariaPos_def strip_spaces_def)

lemma maria_okE:
  assumes "maria_ok raw"
  obtains "raw = []" "maria_txns raw = {}" "maria_reach raw = Inr {}"
  | "raw \<noteq> []" "strip_spaces raw \<noteq> []" "maria_reach raw = Inr (maria_txns raw)" "maria_txns raw \<noteq> {}"
  using assms that maria_reach_nonempty [of raw]
  by (cases "raw = []") (auto simp: maria_ok_def maria_admits_def maria_txns_def maria_reach_Nil elim!: is_okE)

lemma maria_okI: "strip_spaces raw \<noteq> [] \<Longrightarrow> maria_reach raw = Inr A \<Longrightarrow> maria_ok raw \<and> maria_txns raw = A"
  by (simp add: maria_ok_def maria_admits_def maria_txns_def)

interpretation mariadb_ops: ops_laws "mariadbGTIDSet mariadbGTID" maria_reach maria_txns maria_ok maria_admits
proof
  show "maria_ok (op_New (mariadbGTIDSet mariadbGTID)) \<and> maria_txns (op_New (mariadbGTIDSet mariadbGTID)) = {}"
    by (simp add: mariadbGTIDSet_def maria_ok_def maria_admits_def maria_txns_def maria_reach_Nil)
next
  fix raw g
  assume a: "maria_admits raw" and "op_Parse (mariadbGTIDSet mariadbGTID) raw = Inr g"
  then have p: "mariadb_Parse mariadbGTID raw = Inr g" by (simp add: mariadbGTIDSet_def)
  show "maria_ok g \<and> maria_reach raw = Inr (maria_txns g)"
  proof (cases "maria_reach raw")
    case (Inl err)
    then have "gm_Canonical mariadbGTID raw = Inl err" by (rule mariadb.Canonical_error)
    then show ?thesis using p Inl by (auto simp: mariadb_Parse_def maria_reach_Nil split: if_splits)
  next
    case (Inr A)
    then have "g = raw" using p by (auto simp: mariadb_Parse_def split: if_splits sum.splits)
    then show ?thesis using Inr a by (simp add: maria_ok_def maria_txns_def)
  qed
next
  fix raw A assume "maria_reach raw = Inr A"
  then show "\<exists>g. op_Parse (mariadbGTIDSet mariadbGTID) raw = Inr g"
    using mariadb.Canonical_law [of raw A] by (auto simp: mariadbGTIDSet_def mariadb_Parse_def)
next
  fix m g assume "maria_ok m" "maria_ok g"
  then show "op_Contains (mariadbGTIDSet mariadbGTID) m g \<longleftrightarrow> maria_txns g \<subseteq> maria_txns m"
    by (elim maria_okE) (simp_all add: mariadbGTIDSet_def mariadb_Contains_def mariadb.Contains_law)
next
  fix m g assume "maria_ok m" "maria_ok g"
  then show "maria_ok (op_Union (mariadbGTIDSet mariadbGTID) m g) \<and>
      maria_txns (op_Union (mariadbGTIDSet mariadbGTID) m g) = maria_txns m \<union> maria_txns g"
  proof (cases "m = [] \<or> g = []")
    case True
    then show ?thesis using \<open>maria_ok m\<close> \<open>maria_ok g\<close> maria_reach_Nil
      by (auto simp: mariadbGTIDSet_def mariadb_Union_def maria_txns_def)
  next
    case False
    then have "maria_reach m = Inr (maria_txns m)" "strip_spaces m \<noteq> []" "maria_reach g = Inr (maria_txns g)" "strip_spaces g \<noteq> []"
      using \<open>maria_ok m\<close> \<open>maria_ok g\<close> by (auto elim: maria_okE)
    note u = maria_concat [OF this(1,3,2,4)]
    have "op_Union (mariadbGTIDSet mariadbGTID) m g = TrimSpace (m @ '','' @ g)"
      using False by (simp add: mariadbGTIDSet_def mariadb_Union_def unionStrings_def)
    then show ?thesis using maria_okI u by metis
  qed
next
  fix m assume "maria_ok m"
  then show "op_IsEmpty (mariadbGTIDSet mariadbGTID) m \<longleftrightarrow> maria_txns m = {}"
    by (elim maria_okE) (simp_all add: mariadbGTIDSet_def mariadb_IsEmpty_def mariadb.IsEmpty_law)
next
  fix m assume m: "maria_ok m"
  then show "maria_admits (op_String (mariadbGTIDSet mariadbGTID) m) \<and>
      maria_reach (op_String (mariadbGTIDSet mariadbGTID) m) = Inr (maria_txns m)"
  proof (cases rule: maria_okE)
    case 1
    then show ?thesis by (simp add: mariadbGTIDSet_def mariadb_String_def maria_admits_def)
  next
    case 2
    obtain out where o: "gm_Canonical mariadbGTID m = Inr out" "maria_reach out = Inr (maria_txns m)"
      using mariadb.Canonical_law [OF 2(3)] by blast
    have "strip_spaces out \<noteq> []"
    proof
      assume "strip_spaces out = []"
      then have "maria_reach out = Inr {}" by (simp add: maria_reach_def parseMariaPos_def)
      then show False using o(2) 2(4) by simp
    qed
    then show ?thesis using o 2(1) by (simp add: mariadbGTIDSet_def mariadb_String_def maria_admits_def)
  qed
qed (simp add: maria_admits_def maria_reach_Nil)

end
