(* ===== verification/Archive_Forks.thy ===== *)
theory Archive_Forks
  imports Archive_Index
begin

text \<open>
  Forks of the archived timeline (\<open>pkg/management/mysql/binlog/forks.go\<close>): which archived transactions the
  surviving timeline does not hold. A judge compares a segment with the primary's executed set on MySQL, with the timeline
  of primaries on MariaDB; what it finds is folded into the segment's fork record and into the index's disowned record, and
  MySQL narrows both when the primary turns out to hold a transaction after all.
\<close>

section \<open>Judges\<close>

text \<open>The two implementations of the judge: the executed set with its text, or the timeline, the position it was read at and
  the epochs it carries to be archived.\<close>

datatype ForkJudge =
    mysqlForkJudge string GTIDSet
  | mariadbForkJudge MariaDBTimeline string "ArchiveEpoch list"

definition NewMySQLForkJudge :: "string \<Rightarrow> ForkJudge res" where
  "NewMySQLForkJudge executed =
     (case ParseGTIDSet executed of
        Inl err \<Rightarrow> Inl (Wrapf ''binlog: parsing gtid_executed: %w'' [] err)
      | Inr s \<Rightarrow> Inr (mysqlForkJudge executed s))"

definition EngineTimeline :: "ArchiveEpoch list \<Rightarrow> MariaDBTimeline" where
  "EngineTimeline epochs = map (\<lambda>e. \<lparr>ServerID = ae_ServerID e, Handoff = ae_Handoff e\<rparr>) epochs"

definition NewMariaDBArchiveJudge :: "ArchiveEpoch list \<Rightarrow> string \<Rightarrow> ForkJudge" where
  "NewMariaDBArchiveJudge epochs position = mariadbForkJudge (EngineTimeline epochs) position epochs"

definition Authority :: "ForkJudge \<Rightarrow> string" where
  "Authority j = (case j of mysqlForkJudge raw executed \<Rightarrow> raw | mariadbForkJudge timeline position epochs \<Rightarrow> position)"

definition new_fork :: ArchiveFork where
  "new_fork = \<lparr>af_GTIDSet = [], af_AfterSeq = [], af_AuthorityGTIDSet = [], af_DetectedAt = zero_time, af_DetectedBy = []\<rparr>"

fun dead_domains :: "MariaDBTimeline \<Rightarrow> MariaDBGTID list \<Rightarrow> (nat, nat) gomap \<Rightarrow> (nat, nat) gomap" where
  "dead_domains timeline [] after = after"
| "dead_domains timeline (g # gs) after =
     dead_domains timeline gs
       (case DeadAfter timeline g of None \<Rightarrow> after | Some seq \<Rightarrow> AList.update (mg_Domain g) seq after)"

definition judge_segment :: "ForkJudge \<Rightarrow> ArchiveSegment \<Rightarrow> ArchiveFork option res" where
  "judge_segment j seg =
     (case j of
        mysqlForkJudge raw executed \<Rightarrow>
          (case ParseGTIDSet (sg_GTIDSet seg) of
             Inl err \<Rightarrow> Inl (Wrapf ''binlog: parsing gtid set of segment %s: %w'' [sg_ServerUUID seg] err)
           | Inr s \<Rightarrow>
               (let disowned = Difference s executed in
                Inr (if IsEmpty disowned then None else Some (new_fork\<lparr>af_GTIDSet := GTIDSet_String disowned\<rparr>))))
      | mariadbForkJudge timeline position epochs \<Rightarrow>
          (case ParseMariaDBPosition (sg_GTIDSet seg) of
             Inl err \<Rightarrow> Inl (Wrapf ''binlog: parsing position of segment %s: %w'' [sg_ServerUUID seg] err)
           | Inr gs \<Rightarrow>
               (let after = dead_domains timeline gs [] in
                Inr (if after = [] then None else Some (new_fork\<lparr>af_AfterSeq := after\<rparr>)))))"

definition NewMariaDBForkJudge :: "MariaDBTimeline \<Rightarrow> string \<Rightarrow> ForkJudge" where
  "NewMariaDBForkJudge timeline position = mariadbForkJudge timeline position []"

text \<open>The judge that carries a timeline to persist; the judge of MySQL carries none.\<close>

definition ArchiveTimeline :: "ForkJudge \<Rightarrow> ArchiveEpoch list option" where
  "ArchiveTimeline j = (case j of mysqlForkJudge raw executed \<Rightarrow> None | mariadbForkJudge timeline position epochs \<Rightarrow> Some epochs)"

text \<open>Only the MySQL judge can tell which disowned transactions the authority holds again.\<close>

definition Unheld :: "GTIDSet \<Rightarrow> string \<Rightarrow> string res" where
  "Unheld executed gtidSet =
     (case ParseGTIDSet gtidSet of
        Inl err \<Rightarrow> Inl (Wrapf ''binlog: parsing disowned set: %w'' [] err)
      | Inr s \<Rightarrow> Inr (GTIDSet_String (Difference s executed)))"

definition retractor :: "ForkJudge \<Rightarrow> GTIDSet option" where
  "retractor j = (case j of mysqlForkJudge raw executed \<Rightarrow> Some executed | mariadbForkJudge timeline position epochs \<Rightarrow> None)"

definition canonicalGTIDSet :: "string \<Rightarrow> string" where
  "canonicalGTIDSet raw = (case ParseGTIDSet raw of Inr s \<Rightarrow> GTIDSet_String s | Inl err \<Rightarrow> raw)"

section \<open>Fork records\<close>

definition retractFork :: "ArchiveFork option \<Rightarrow> GTIDSet \<Rightarrow> string \<Rightarrow> (ArchiveFork option \<times> bool) res" where
  "retractFork fork executed authority =
     (case fork of
        None \<Rightarrow> Inr (None, False)
      | Some f \<Rightarrow>
          if af_GTIDSet f = [] then Inr (Some f, False)
          else case Unheld executed (af_GTIDSet f) of
                 Inl err \<Rightarrow> Inl err
               | Inr unheld \<Rightarrow>
                   if unheld = canonicalGTIDSet (af_GTIDSet f) then Inr (Some f, False)
                   else if unheld = [] \<and> af_AfterSeq f = [] then Inr (None, True)
                   else Inr (Some (f\<lparr>af_GTIDSet := unheld, af_AuthorityGTIDSet := authority\<rparr>), True))"

fun lower_cuts :: "(nat, nat) gomap \<Rightarrow> (nat, nat) gomap \<Rightarrow> bool \<Rightarrow> (nat, nat) gomap \<times> bool" where
  "lower_cuts [] merged grew = (merged, grew)"
| "lower_cuts ((domain, seq) # rest) merged grew =
     (case map_of merged domain of
        Some cur \<Rightarrow> if cur \<le> seq then lower_cuts rest merged grew else lower_cuts rest (AList.update domain seq merged) True
      | None \<Rightarrow> lower_cuts rest (AList.update domain seq merged) True)"

definition mergeFork :: "ArchiveFork option \<Rightarrow> ArchiveFork option \<Rightarrow> string \<Rightarrow> gotime \<Rightarrow> string \<Rightarrow> (ArchiveFork option \<times> bool) res" where
  "mergeFork existing delta authority now by =
     (case delta of
        None \<Rightarrow> Inr (existing, False)
      | Some d \<Rightarrow>
          if af_GTIDSet d = [] \<and> af_AfterSeq d = [] then Inr (existing, False)
          else (case existing of
             None \<Rightarrow>
               (case (if af_GTIDSet d \<noteq> [] then ParseGTIDSet (af_GTIDSet d) else Inr []) of
                  Inl err \<Rightarrow> Inl (Wrapf ''binlog: parsing fork gtid set: %w'' [] err)
                | Inr _ \<Rightarrow> Inr (Some \<lparr>af_GTIDSet = af_GTIDSet d, af_AfterSeq = af_AfterSeq d, af_AuthorityGTIDSet = authority,
                    af_DetectedAt = now, af_DetectedBy = by\<rparr>, True))
           | Some e \<Rightarrow>
               (case (if af_GTIDSet d \<noteq> [] then UnionGTIDStrings [af_GTIDSet e, af_GTIDSet d] else Inr (af_GTIDSet e)) of
                  Inl err \<Rightarrow> Inl (Wrapf ''binlog: merging fork gtid set: %w'' [] err)
                | Inr un \<Rightarrow>
                    (let (after, grew) = lower_cuts (af_AfterSeq d) (af_AfterSeq e) (un \<noteq> af_GTIDSet e) in
                     if \<not> grew then Inr (existing, False)
                     else Inr (Some (e\<lparr>af_GTIDSet := un, af_AfterSeq := after, af_AuthorityGTIDSet := authority\<rparr>), True)))))"

text \<open>The ranges a MariaDB fork disowns: for each domain it cuts, what the segment's position holds above the cut.\<close>

fun add_gtids :: "nat \<Rightarrow> nat \<Rightarrow> MariaDBGTID list \<Rightarrow> ArchiveDisowned \<Rightarrow> bool \<Rightarrow> ArchiveDisowned \<times> bool" where
  "add_gtids domain after [] out changed = (out, changed)"
| "add_gtids domain after (g # gs) out changed =
     (if mg_Domain g = domain
      then (case AddRange out \<lparr>dr_Domain = domain, dr_Server = mg_Server g, dr_After = after, dr_Through = mg_Seq g\<rparr> of
              (out', grew) \<Rightarrow> add_gtids domain after gs out' (changed \<or> grew))
      else add_gtids domain after gs out changed)"

fun add_cuts :: "ArchiveSegment \<Rightarrow> (nat, nat) gomap \<Rightarrow> ArchiveDisowned \<Rightarrow> bool \<Rightarrow> (ArchiveDisowned \<times> bool) res" where
  "add_cuts seg [] out changed = Inr (out, changed)"
| "add_cuts seg ((domain, after) # rest) out changed =
     (case ParseMariaDBPosition (sg_GTIDSet seg) of
        Inl err \<Rightarrow> Inl (Wrapf ''binlog: parsing position of segment %s: %w'' [sg_ServerUUID seg] err)
      | Inr gs \<Rightarrow> (case add_gtids domain after gs out changed of (out', changed') \<Rightarrow> add_cuts seg rest out' changed'))"

fun fold_forks :: "(ArchiveSegment \<times> ArchiveFork option) list \<Rightarrow> ArchiveDisowned \<Rightarrow> bool \<Rightarrow> string list \<Rightarrow> (ArchiveDisowned \<times> bool \<times> string list) res" where
  "fold_forks [] out changed sets = Inr (out, changed, sets)"
| "fold_forks ((seg, None) # rest) out changed sets = fold_forks rest out changed sets"
| "fold_forks ((seg, Some fork) # rest) out changed sets =
     (case add_cuts seg (af_AfterSeq fork) out changed of
        Inl err \<Rightarrow> Inl err
      | Inr (out', changed') \<Rightarrow>
          fold_forks rest out' changed' (if af_GTIDSet fork \<noteq> [] then sets @ [af_GTIDSet fork] else sets))"

definition foldDisowned ::
  "ArchiveDisowned option \<Rightarrow> ArchiveSegment list \<Rightarrow> ArchiveFork option list \<Rightarrow> GTIDSet option \<Rightarrow> (ArchiveDisowned option \<times> bool) res" where
  "foldDisowned existing segs forks retract =
     (let out = (case existing of None \<Rightarrow> \<lparr>ad_GTIDSet = [], ad_Ranges = []\<rparr> | Some e \<Rightarrow> e);
          before = (case existing of None \<Rightarrow> [] | Some e \<Rightarrow> canonicalGTIDSet (ad_GTIDSet e))
      in case fold_forks (zip segs forks) out False [ad_GTIDSet out] of
           Inl err \<Rightarrow> Inl err
         | Inr (out', changed, sets) \<Rightarrow>
             (case UnionGTIDStrings sets of
                Inl err \<Rightarrow> Inl (Wrapf ''binlog: merging disowned sets: %w'' [] err)
              | Inr un \<Rightarrow>
                  (case (case retract of
                           Some executed \<Rightarrow> if un \<noteq> [] then Unheld executed un else Inr un
                         | None \<Rightarrow> Inr un) of
                     Inl err \<Rightarrow> Inl err
                   | Inr un \<Rightarrow>
                       (let out = out'\<lparr>ad_GTIDSet := un\<rparr>; changed = (changed \<or> un \<noteq> before) in
                        Inr (if ad_GTIDSet out = [] \<and> ad_Ranges out = [] then None else Some out, changed)))))"

section \<open>The archived timeline\<close>

fun oldest_loop :: "MariaDBGTID list \<Rightarrow> (nat, MariaDBGTID) gomap \<Rightarrow> (nat, MariaDBGTID) gomap" where
  "oldest_loop [] oldest = oldest"
| "oldest_loop (g # gs) oldest =
     oldest_loop gs
       (case map_of oldest (mg_Domain g) of
          Some cur \<Rightarrow> if mg_Seq g < mg_Seq cur then AList.update (mg_Domain g) g oldest else oldest
        | None \<Rightarrow> AList.update (mg_Domain g) g oldest)"

fun oldest_segments :: "ArchiveSegment list \<Rightarrow> (nat, MariaDBGTID) gomap \<Rightarrow> (nat, MariaDBGTID) gomap" where
  "oldest_segments [] oldest = oldest"
| "oldest_segments (seg # segs) oldest =
     (case ParseMariaDBPosition (sg_GTIDSet seg) of
        Inl err \<Rightarrow> oldest_segments segs oldest
      | Inr gs \<Rightarrow> oldest_segments segs (oldest_loop gs oldest))"

definition OldestSegmentPosition :: "ArchiveSegment list \<Rightarrow> string" where
  "OldestSegmentPosition segs =
     join_with '','' (map (\<lambda>(d, g). MariaDBGTID_String g) (sort_key fst (oldest_segments segs [])))"

definition index_of :: "ArchiveEpoch \<Rightarrow> ArchiveEpoch list \<Rightarrow> nat option" where
  "index_of e stored = (let k = length (takeWhile (\<lambda>s. s \<noteq> e) stored) in if k < length stored then Some k else None)"

definition mergeArchiveTimeline :: "ArchiveEpoch list \<Rightarrow> ArchiveEpoch list \<Rightarrow> ArchiveSegment list \<Rightarrow> ArchiveEpoch list" where
  "mergeArchiveTimeline stored current segs =
     (case current of
        [] \<Rightarrow> stored
      | c # _ \<Rightarrow>
          (let merged = (case index_of c stored of Some k \<Rightarrow> take k stored | None \<Rightarrow> stored) @ current;
               oldest = OldestSegmentPosition segs;
               refs = (if oldest \<noteq> [] then [(''archive'', oldest)] else []);
               pruned = PruneMariaDBTimeline (EngineTimeline merged) refs (int MariaDBTimelineCeiling)
           in drop (pr_Dropped pruned) merged))"

fun apply_timeline :: "ForkJudge \<Rightarrow> ArchiveSegment list \<Rightarrow> ArchiveSegment list res" where
  "apply_timeline judge [] = Inr []"
| "apply_timeline judge (seg # segs) =
     bind_res (judge_segment judge seg) (\<lambda>delta.
     bind_res (mergeFork (sg_Fork seg) delta [] zero_time ''restore'') (\<lambda>(fork, grew).
     bind_res (apply_timeline judge segs) (\<lambda>segs'. Inr (seg\<lparr>sg_Fork := fork\<rparr> # segs'))))"

definition ApplyArchiveTimeline :: "ArchiveIndex \<Rightarrow> ArchiveIndex res" where
  "ApplyArchiveTimeline idx =
     (if ix_MariaDBTimeline idx = [] then Inr idx
      else bind_res (apply_timeline (NewMariaDBArchiveJudge (ix_MariaDBTimeline idx) []) (ix_Segments idx)) (\<lambda>segs.
        Inr (idx\<lparr>ix_Segments := segs\<rparr>)))"


section \<open>What status reports\<close>

definition render_part :: "(nat, nat) gomap \<Rightarrow> MariaDBGTID \<Rightarrow> string list" where
  "render_part cuts g =
     (case map_of cuts (mg_Domain g) of
        None \<Rightarrow> []
      | Some after \<Rightarrow>
          if mg_Seq g \<le> after then []
          else let first = g\<lparr>mg_Seq := u64 (int after + 1)\<rparr> in
            if mg_Seq first = mg_Seq g then [MariaDBGTID_String g]
            else [MariaDBGTID_String first @ ''..'' @ MariaDBGTID_String g])"

definition RenderFork :: "ArchiveSegment \<Rightarrow> string" where
  "RenderFork seg =
     (case sg_Fork seg of
        None \<Rightarrow> []
      | Some fork \<Rightarrow>
          if af_GTIDSet fork \<noteq> [] then af_GTIDSet fork
          else case ParseMariaDBPosition (sg_GTIDSet seg) of
                 Inl err \<Rightarrow> []
               | Inr gs \<Rightarrow> join_with '','' (concat (map (render_part (af_AfterSeq fork)) gs)))"

record SegmentFork =
  sf_ServerUUID :: string
  sf_InstanceName :: string
  sf_GTIDs :: string
  sf_DetectedAt :: gotime

fun segment_forks :: "ArchiveSegment list \<Rightarrow> SegmentFork list" where
  "segment_forks [] = []"
| "segment_forks (seg # segs) =
     (case sg_Fork seg of
        None \<Rightarrow> segment_forks segs
      | Some fork \<Rightarrow>
          if RenderFork seg = [] then segment_forks segs
          else \<lparr>sf_ServerUUID = sg_ServerUUID seg, sf_InstanceName = sg_InstanceName seg, sf_GTIDs = RenderFork seg,
                 sf_DetectedAt = af_DetectedAt fork\<rparr> # segment_forks segs)"

definition SegmentForks :: "ArchiveIndex \<Rightarrow> SegmentFork list" where
  "SegmentForks idx = segment_forks (ix_Segments idx)"

definition forkCheckIdentity :: "string \<Rightarrow> string \<Rightarrow> string" where
  "forkCheckIdentity inst identity = inst @ ''/'' @ identity"

section \<open>Gaps\<close>

fun seq_in_triples :: "string list \<Rightarrow> nat \<Rightarrow> nat" where
  "seq_in_triples [] domain = 0"
| "seq_in_triples (triple # rest) domain =
     (let parts = split_on CHR ''-'' triple in
      if length parts \<noteq> 3 then seq_in_triples rest domain
      else case ParseUint (parts ! 0) 32 of
             Inl err \<Rightarrow> seq_in_triples rest domain
           | Inr d \<Rightarrow>
               if d \<noteq> domain then seq_in_triples rest domain
               else case ParseUint (parts ! 2) 64 of Inr seq \<Rightarrow> seq | Inl err \<Rightarrow> seq_in_triples rest domain)"

definition MariaSeqForDomain :: "string \<Rightarrow> nat \<Rightarrow> nat" where
  "MariaSeqForDomain pos domain =
     (let cleaned = filter (\<lambda>r. r \<notin> {CHR '' '', CHR 0x0A, CHR 0x0D, CHR 0x09}) pos in
      if cleaned = [] then 0 else seq_in_triples (split_on CHR '','' cleaned) domain)"

fun mariadb_segments :: "ArchiveSegment list \<Rightarrow> bool" where
  "mariadb_segments [] = False"
| "mariadb_segments (seg # segs) =
     (if sg_GTIDSet seg = [] then mariadb_segments segs else is_ok (ParseMariaDBPosition (sg_GTIDSet seg)))"

definition mariadbArchive :: "ArchiveIndex \<Rightarrow> bool" where
  "mariadbArchive idx = mariadb_segments (ix_Segments idx)"

definition gap_interval :: "ArchiveSegment \<Rightarrow> MariaDBGTID \<Rightarrow> (nat \<times> nat \<times> nat) list" where
  "gap_interval seg g =
     (let s = MariaSeqForDomain (sg_StartGTIDSet seg) (mg_Domain g);
          start = (if s = 0 then 1 else s);
          stop = (case sg_Fork seg of
                    None \<Rightarrow> mg_Seq g
                  | Some fork \<Rightarrow>
                      (case map_of (af_AfterSeq fork) (mg_Domain g) of
                         Some c \<Rightarrow> if c < mg_Seq g then c else mg_Seq g
                       | None \<Rightarrow> mg_Seq g))
      in if stop \<ge> start then [(mg_Domain g, start, stop)] else [])"

definition segment_intervals :: "ArchiveSegment \<Rightarrow> (nat \<times> nat \<times> nat) list" where
  "segment_intervals seg =
     (case ParseMariaDBPosition (sg_GTIDSet seg) of Inl err \<Rightarrow> [] | Inr gs \<Rightarrow> concat (map (gap_interval seg) gs))"

fun gaps_after :: "nat \<Rightarrow> nat \<Rightarrow> (nat \<times> nat) list \<Rightarrow> (nat \<times> nat) list" where
  "gaps_after domain reached [] = []"
| "gaps_after domain reached ((start, stop) # ivs) =
     (if start > u64 (int reached + 1) then [(u64 (int reached + 1), u64 (int start - 1))] else [])
     @ gaps_after domain (max reached stop) ivs"

definition domain_gaps :: "(nat \<times> nat \<times> nat) list \<Rightarrow> nat \<Rightarrow> (nat \<times> nat) list" where
  "domain_gaps ivs domain =
     (case sort_key fst (map snd (filter (\<lambda>iv. fst iv = domain) ivs)) of
        [] \<Rightarrow> []
      | iv # rest \<Rightarrow> gaps_after domain (snd iv) rest)"

definition render_gap :: "nat \<Rightarrow> nat \<times> nat \<Rightarrow> string" where
  "render_gap domain gap = Sprintf ''%d-%d..%d'' [FormatUint domain, FormatUint (fst gap), FormatUint (snd gap)]"

definition ArchiveGaps :: "ArchiveIndex \<Rightarrow> string list" where
  "ArchiveGaps idx =
     (if ix_Segments idx = [] then []
      else let ivs = concat (map segment_intervals (ix_Segments idx));
               by_domain = concat (map (\<lambda>d. map (render_gap d) (domain_gaps ivs d)) (sort (remdups (map fst ivs))))
        in case ParseGTIDSet (ix_CoveredGTIDSet idx) of
             Inr covered \<Rightarrow>
               if \<not> mariadbArchive idx
               then (if IsEmpty (Holes covered) then [] else [GTIDSet_String (Holes covered)])
               else by_domain
           | Inl err \<Rightarrow> by_domain)"

section \<open>MySQL fork records as sets\<close>

text \<open>The transactions a fork record disowns.\<close>

definition fork_reach :: "ArchiveFork option \<Rightarrow> (string \<times> int) set res" where
  "fork_reach fork = (case fork of None \<Rightarrow> Inr {} | Some f \<Rightarrow> mysql_reach (af_GTIDSet f))"

lemma mysql_reach_Nil [simp]: "mysql_reach [] = Inr {}"
  by (simp add: mysql_reach_def ParseGTIDSet_def strip_spaces_def gtids_def)

lemma mysql_reach_String [simp]: "wf_set s \<Longrightarrow> mysql_reach (GTIDSet_String s) = Inr (gtids s)"
  using parse_print [of s] by (auto simp: mysql_reach_Inr)

lemma mysql_reachE:
  assumes "mysql_reach raw = Inr A"
  obtains s where "ParseGTIDSet raw = Inr s" "wf_set s" "A = gtids s"
  using assms by (auto simp: mysql_reach_Inr dest: ParseGTIDSet_wf)

lemma UnionGTIDStrings_reach:
  assumes "UnionGTIDStrings raws = Inr out" "list_all2 (\<lambda>raw A. mysql_reach raw = Inr A) raws As"
  shows "mysql_reach out = Inr (\<Union> (set As))"
  using mysql.Union_law [OF assms(2)] assms(1) by (simp add: mysqlGTID_def)

lemma Unheld_reach:
  assumes "Unheld executed raw = Inr out" "wf_set executed" "mysql_reach raw = Inr A"
  shows "mysql_reach out = Inr (A - gtids executed)"
  using assms by (auto simp: Unheld_def Difference_correct elim!: mysql_reachE)

lemma judge_reach:
  assumes "judge_segment (mysqlForkJudge raw executed) seg = Inr delta" "wf_set executed" "mysql_reach (sg_GTIDSet seg) = Inr A"
  shows "fork_reach delta = Inr (A - gtids executed)"
  using assms
  by (auto simp: judge_segment_def Let_def fork_reach_def new_fork_def IsEmpty_iff Difference_correct elim!: mysql_reachE split: if_splits)

lemma lower_cuts_same: "lower_cuts cuts merged grew = (merged', False) \<Longrightarrow> \<not> grew \<and> merged' = merged"
  by (induction cuts merged grew rule: lower_cuts.induct) (auto split: option.splits if_splits)

lemma mergeFork_reach:
  assumes "mergeFork existing delta authority now by = Inr (fork, grew)" "fork_reach existing = Inr E" "fork_reach delta = Inr D"
  shows "fork_reach fork = Inr (E \<union> D)"
proof (cases delta)
  case None
  then show ?thesis using assms by (simp add: mergeFork_def fork_reach_def)
next
  case (Some d)
  show ?thesis
  proof (cases existing)
    case None
    then show ?thesis using assms Some by (auto simp: mergeFork_def fork_reach_def split: if_splits sum.splits)
  next
    case e: (Some e)
    have "mysql_reach un = Inr (E \<union> D)" if "UnionGTIDStrings [af_GTIDSet e, af_GTIDSet d] = Inr un" for un
      using UnionGTIDStrings_reach [OF that, of "[E, D]"] assms e Some by (simp add: fork_reach_def)
    then show ?thesis using assms e Some
      by (auto simp: mergeFork_def fork_reach_def split: if_splits sum.splits prod.splits dest!: lower_cuts_same)
  qed
qed

lemma canonical_reach:
  assumes "mysql_reach raw = Inr A" "mysql_reach out = Inr B" "out = canonicalGTIDSet raw"
  shows "A = B"
  using assms by (auto simp: canonicalGTIDSet_def elim!: mysql_reachE)
    (metis ParseGTIDSet_wf Inr_inject mysql_reach_String mysql_reach_Inr)+

lemma retractFork_reach:
  assumes "retractFork fork executed authority = Inr (kept, retracted)" "wf_set executed" "fork_reach fork = Inr F"
  shows "fork_reach kept = Inr (F - gtids executed)"
proof (cases fork)
  case None
  then show ?thesis using assms by (simp add: retractFork_def fork_reach_def)
next
  case (Some f)
  show ?thesis
  proof (cases "af_GTIDSet f = []")
    case True
    then show ?thesis using assms Some by (auto simp: retractFork_def fork_reach_def)
  next
    case False
    obtain unheld where u: "Unheld executed (af_GTIDSet f) = Inr unheld"
      using assms Some False by (auto simp: retractFork_def split: sum.splits)
    have F: "mysql_reach (af_GTIDSet f) = Inr F" using assms(3) Some by (simp add: fork_reach_def)
    note r = Unheld_reach [OF u assms(2) F]
    show ?thesis
      using assms(1) Some False u r F canonical_reach [OF F r]
      by (auto simp: retractFork_def fork_reach_def split: if_splits)
  qed
qed

definition disowned_reach :: "ArchiveDisowned option \<Rightarrow> (string \<times> int) set res" where
  "disowned_reach d = (case d of None \<Rightarrow> Inr {} | Some x \<Rightarrow> mysql_reach (ad_GTIDSet x))"

lemma AddRange_GTIDSet: "ad_GTIDSet (fst (AddRange d r)) = ad_GTIDSet d"
  by (auto simp: AddRange_def split: option.splits)

lemma add_gtids_GTIDSet: "ad_GTIDSet (fst (add_gtids domain after gs out changed)) = ad_GTIDSet out"
  by (induction domain after gs out changed rule: add_gtids.induct)
    (auto split: prod.splits, metis AddRange_GTIDSet fst_conv)

lemma add_cuts_GTIDSet: "add_cuts seg cuts out changed = Inr (out', changed') \<Longrightarrow> ad_GTIDSet out' = ad_GTIDSet out"
  by (induction seg cuts out changed rule: add_cuts.induct)
    (auto split: sum.splits prod.splits, metis add_gtids_GTIDSet fst_conv)

lemma fold_forks_reach:
  assumes "fold_forks sfs out changed sets = Inr (out', changed', sets')"
    "list_all2 (\<lambda>raw A. mysql_reach raw = Inr A) sets As"
    "list_all2 (\<lambda>sf F. fork_reach (snd sf) = Inr F) sfs Fs"
  shows "\<exists>Bs. list_all2 (\<lambda>raw A. mysql_reach raw = Inr A) sets' Bs \<and> \<Union> (set Bs) = \<Union> (set As) \<union> \<Union> (set Fs)"
  using assms
proof (induction sfs out changed sets arbitrary: As Fs rule: fold_forks.induct)
  case (1 out changed sets)
  then show ?case by auto
next
  case (2 seg rest out changed sets)
  then show ?case by (fastforce simp: fork_reach_def list_all2_Cons1)
next
  case (3 seg fork rest out changed sets)
  obtain out1 ch1 where a: "add_cuts seg (af_AfterSeq fork) out changed = Inr (out1, ch1)"
    using "3.prems"(1) by (auto split: sum.splits)
  obtain F Fs' where F: "Fs = F # Fs'" "mysql_reach (af_GTIDSet fork) = Inr F"
    "list_all2 (\<lambda>sf F. fork_reach (snd sf) = Inr F) rest Fs'"
    using "3.prems"(3) by (auto simp: list_all2_Cons1 fork_reach_def)
  have s: "list_all2 (\<lambda>raw A. mysql_reach raw = Inr A)
      (if af_GTIDSet fork \<noteq> [] then sets @ [af_GTIDSet fork] else sets) (if af_GTIDSet fork \<noteq> [] then As @ [F] else As)"
    using "3.prems"(2) F(2) by (auto intro: list_all2_appendI)
  have u: "\<Union> (set (if af_GTIDSet fork \<noteq> [] then As @ [F] else As)) = \<Union> (set As) \<union> F" using F(2) by auto
  from "3.IH" [OF a refl _ s F(3)] "3.prems"(1) a u F(1) show ?case by (auto simp: Un_assoc)
qed

lemma foldDisowned_reach:
  assumes "foldDisowned existing segs forks (Some executed) = Inr (disowned, changed)" "wf_set executed"
    "disowned_reach existing = Inr E" "length segs = length forks" "list_all2 (\<lambda>f F. fork_reach f = Inr F) forks Fs"
  shows "disowned_reach disowned = Inr ((E \<union> \<Union> (set Fs)) - gtids executed)"
proof -
  define out where "out = (case existing of None \<Rightarrow> \<lparr>ad_GTIDSet = [], ad_Ranges = []\<rparr> | Some e \<Rightarrow> e)"
  have E: "mysql_reach (ad_GTIDSet out) = Inr E" using assms(3) by (auto simp: out_def disowned_reach_def split: option.splits)
  have z: "list_all2 (\<lambda>sf F. fork_reach (snd sf) = Inr F) (zip segs forks) Fs"
    using assms(4,5) by (auto simp: list_all2_conv_all_nth)
  obtain out1 ch sets where f: "fold_forks (zip segs forks) out False [ad_GTIDSet out] = Inr (out1, ch, sets)"
    using assms(1) by (auto simp: foldDisowned_def out_def Let_def split: sum.splits)
  obtain Bs where B: "list_all2 (\<lambda>raw A. mysql_reach raw = Inr A) sets Bs" "\<Union> (set Bs) = E \<union> \<Union> (set Fs)"
    using fold_forks_reach [OF f, of "[E]" Fs] E z by auto
  obtain un where u: "UnionGTIDStrings sets = Inr un"
    using assms(1) f by (auto simp: foldDisowned_def out_def Let_def split: sum.splits)
  have r: "mysql_reach un = Inr (E \<union> \<Union> (set Fs))" using UnionGTIDStrings_reach [OF u B(1)] B(2) by simp
  obtain un' where n: "(if un \<noteq> [] then Unheld executed un else Inr un) = Inr un'"
    using assms(1) f u by (auto simp: foldDisowned_def out_def Let_def split: sum.splits)
  have "mysql_reach un' = Inr ((E \<union> \<Union> (set Fs)) - gtids executed)"
  proof (cases "un = []")
    case True
    then have "E \<union> \<Union> (set Fs) = {}" using r by simp
    then show ?thesis using n True by auto
  next
    case False
    then show ?thesis using Unheld_reach [OF _ assms(2) r] n by simp
  qed
  moreover have "disowned = (if un' = [] \<and> ad_Ranges out1 = [] then None else Some (out1\<lparr>ad_GTIDSet := un'\<rparr>))"
    using assms(1) f u n by (auto simp: foldDisowned_def out_def Let_def split: if_splits)
  ultimately show ?thesis by (cases "un' = []") (simp_all add: disowned_reach_def)
qed

text \<open>A MySQL archive whose records can be read: every set parses and no record carries a MariaDB cut.\<close>

definition mysql_fork :: "ArchiveFork option \<Rightarrow> bool" where
  "mysql_fork fork \<longleftrightarrow> is_ok (fork_reach fork) \<and> (case fork of None \<Rightarrow> True | Some f \<Rightarrow> af_AfterSeq f = [])"

definition mysql_index :: "ArchiveIndex \<Rightarrow> bool" where
  "mysql_index index \<longleftrightarrow>
     (\<forall>seg \<in> set (ix_Segments index). is_ok (mysql_reach (sg_GTIDSet seg)) \<and> mysql_fork (sg_Fork seg)) \<and>
     is_ok (disowned_reach (ix_Disowned index))"

definition reached :: "'t set res \<Rightarrow> 't set" where
  "reached r = (case r of Inl _ \<Rightarrow> {} | Inr A \<Rightarrow> A)"

definition seg_txns :: "ArchiveSegment \<Rightarrow> (string \<times> int) set" where
  "seg_txns seg = reached (mysql_reach (sg_GTIDSet seg))"

definition fork_txns :: "ArchiveSegment \<Rightarrow> (string \<times> int) set" where
  "fork_txns seg = reached (fork_reach (sg_Fork seg))"

definition disowned_txns :: "ArchiveIndex \<Rightarrow> (string \<times> int) set" where
  "disowned_txns index = reached (disowned_reach (ix_Disowned index))"

lemma reached_simps [simp]: "reached (Inr A) = A" "is_ok r \<Longrightarrow> r = Inr (reached r)"
  by (auto simp: reached_def elim!: is_okE)

lemma is_ok_reached: "is_ok r \<longleftrightarrow> r = Inr (reached r)"
  by (auto simp: reached_def is_ok_def split: sum.splits)

lemma UnionGTIDStrings_total:
  "list_all2 (\<lambda>raw A. mysql_reach raw = Inr A) raws As \<Longrightarrow> \<exists>out. UnionGTIDStrings raws = Inr out"
  using mysql.Union_law [of raws As] by (auto simp: mysqlGTID_def)

lemma Unheld_total: "mysql_reach raw = Inr A \<Longrightarrow> \<exists>out. Unheld executed raw = Inr out"
  by (auto simp: Unheld_def elim: mysql_reachE)

lemma judge_total:
  "mysql_reach (sg_GTIDSet seg) = Inr A \<Longrightarrow>
   \<exists>delta. judge_segment (mysqlForkJudge raw executed) seg = Inr delta \<and> (case delta of None \<Rightarrow> True | Some f \<Rightarrow> af_AfterSeq f = [])"
  by (auto simp: judge_segment_def Let_def new_fork_def elim!: mysql_reachE)

lemma mergeFork_total:
  assumes "mysql_fork existing" "mysql_fork delta"
  shows "\<exists>fork grew. mergeFork existing delta authority now by = Inr (fork, grew) \<and> mysql_fork fork"
proof -
  obtain E D where r: "fork_reach existing = Inr E" "fork_reach delta = Inr D" using assms by (auto simp: mysql_fork_def elim!: is_okE)
  have "\<exists>fork grew. mergeFork existing delta authority now by = Inr (fork, grew) \<and>
      (case fork of None \<Rightarrow> True | Some f \<Rightarrow> af_AfterSeq f = [])"
  proof (cases delta)
    case None
    then show ?thesis using assms by (auto simp: mergeFork_def mysql_fork_def)
  next
    case d: (Some d)
    show ?thesis
    proof (cases existing)
      case None
      then show ?thesis using assms r d
        by (auto simp: mergeFork_def mysql_fork_def fork_reach_def split: sum.splits elim!: mysql_reachE)
    next
      case (Some e)
      then obtain un where "UnionGTIDStrings [af_GTIDSet e, af_GTIDSet d] = Inr un"
        using UnionGTIDStrings_total [of _ "[E, D]"] r d by (force simp: fork_reach_def)
      then show ?thesis using assms d Some by (auto simp: mergeFork_def mysql_fork_def split: sum.splits)
    qed
  qed
  then show ?thesis using mergeFork_reach r by (fastforce simp: mysql_fork_def)
qed

lemma retractFork_total:
  assumes "mysql_fork fork" "wf_set executed"
  shows "\<exists>kept retracted. retractFork fork executed authority = Inr (kept, retracted) \<and> mysql_fork kept \<and> (\<not> retracted \<longrightarrow> kept = fork)"
proof -
  obtain F where r: "fork_reach fork = Inr F" using assms by (auto simp: mysql_fork_def elim!: is_okE)
  have "\<exists>kept retracted. retractFork fork executed authority = Inr (kept, retracted) \<and> (\<not> retracted \<longrightarrow> kept = fork) \<and>
      (case kept of None \<Rightarrow> True | Some f \<Rightarrow> af_AfterSeq f = [])"
  proof (cases fork)
    case None
    then show ?thesis by (auto simp: retractFork_def)
  next
    case (Some f)
    then obtain u where "Unheld executed (af_GTIDSet f) = Inr u" using Unheld_total r by (fastforce simp: fork_reach_def)
    then show ?thesis using Some assms by (auto simp: retractFork_def mysql_fork_def)
  qed
  then show ?thesis using retractFork_reach [OF _ assms(2) r] by (fastforce simp: mysql_fork_def)
qed

lemma fold_forks_total:
  "\<forall>sf \<in> set sfs. mysql_fork (snd sf) \<Longrightarrow> \<exists>v. fold_forks sfs out changed sets = Inr v"
  by (induction sfs out changed sets rule: fold_forks.induct) (auto simp: mysql_fork_def split: sum.splits)

lemma foldDisowned_total:
  assumes "list_all2 (\<lambda>f F. fork_reach f = Inr F) forks Fs" "\<forall>f \<in> set forks. mysql_fork f" "disowned_reach existing = Inr E"
    "length segs = length forks"
  shows "\<exists>d c. foldDisowned existing segs forks (Some executed) = Inr (d, c)"
proof -
  define out where "out = (case existing of None \<Rightarrow> \<lparr>ad_GTIDSet = [], ad_Ranges = []\<rparr> | Some e \<Rightarrow> e)"
  have E: "mysql_reach (ad_GTIDSet out) = Inr E" using assms(3) by (auto simp: out_def disowned_reach_def split: option.splits)
  have "\<forall>sf \<in> set (zip segs forks). mysql_fork (snd sf)" using assms(2) by (auto dest: set_zip_rightD)
  then obtain out1 ch sets where f: "fold_forks (zip segs forks) out False [ad_GTIDSet out] = Inr (out1, ch, sets)"
    using fold_forks_total by (metis surj_pair)
  have "list_all2 (\<lambda>sf F. fork_reach (snd sf) = Inr F) (zip segs forks) Fs" using assms(1,4) by (auto simp: list_all2_conv_all_nth)
  then obtain Bs where B: "list_all2 (\<lambda>raw A. mysql_reach raw = Inr A) sets Bs"
    using fold_forks_reach [OF f, of "[E]" Fs] E by auto
  obtain un where u: "UnionGTIDStrings sets = Inr un" using UnionGTIDStrings_total [OF B] by blast
  obtain un' where "Unheld executed un = Inr un'" using Unheld_total [OF UnionGTIDStrings_reach [OF u B]] by blast
  then show ?thesis using f u by (simp add: foldDisowned_def out_def Let_def)
qed

end
