(* ===== verification/Archiver.thy ===== *)
theory Archiver
  imports Gtid_Ops Archive_Forks Index_Cas
begin

text \<open>
  What an archiver writes into the archive index (\<open>pkg/management/mysql/binlog/archiver.go\<close>): the fold of one archived
  file into its segment, the fork check over every segment, and the two mutations of the index they make, the write after a
  file was archived and the check outside an archive pass. The archiver is the record of the fields its index writes use;
  its clock is read once per write. The authority the check compares against is the result of reading it: none
  configured, an error, no authority right now, or a judge.
\<close>

section \<open>The archiver\<close>

record archiver =
  ar_clusterName :: string
  ar_clusterUID :: "string option"
  ar_instanceName :: string
  ar_serverUUID :: string

definition forkIdentity :: "archiver \<Rightarrow> string" where
  "forkIdentity a = forkCheckIdentity (ar_instanceName a) (ar_serverUUID a)"

section \<open>Folding a file\<close>

definition new_segment :: "archiver \<Rightarrow> gotime \<Rightarrow> ArchiveSegment" where
  "new_segment a now = \<lparr>sg_ServerUUID = ar_serverUUID a, sg_InstanceName = ar_instanceName a, sg_Binlogs = [], sg_GTIDSet = [],
     sg_StartGTIDSet = [], sg_Fork = None, sg_StartedAt = now, sg_EndedAt = zero_time\<rparr>"

definition fold_segment ::
  "'g gtid_ops \<Rightarrow> gotime \<Rightarrow> ArchiveStatus \<Rightarrow> string \<Rightarrow> string \<Rightarrow> ArchiveSegment \<Rightarrow> ArchiveSegment res" where
  "fold_segment ops now status fileName fileGTIDSet seg0 =
     (let seg = seg0\<lparr>sg_StartGTIDSet := (if sg_StartGTIDSet seg0 = [] then as_FirstGTID status else sg_StartGTIDSet seg0),
            sg_EndedAt := now,
            sg_Binlogs := (if fileName \<noteq> [] \<and> fileName \<notin> set (sg_Binlogs seg0) then sg_Binlogs seg0 @ [fileName] else sg_Binlogs seg0)\<rparr>
      in case op_Parse ops (sg_GTIDSet seg) of
           Inl err \<Rightarrow> Inl (Wrapf ''binlog: parsing segment gtid set: %w'' [] err)
         | Inr segSet \<Rightarrow>
             (case op_Parse ops fileGTIDSet of
                Inl err \<Rightarrow> Inl (Wrapf ''binlog: parsing file gtid set for %q: %w'' [fileName] err)
              | Inr fileSet \<Rightarrow> Inr (seg\<lparr>sg_GTIDSet := op_String ops (op_Union ops segSet fileSet)\<rparr>)))"

text \<open>The first segment of the archiver's server, which \<open>Segment\<close> returns a pointer to, is the one updated.\<close>

fun update_segment :: "string \<Rightarrow> (ArchiveSegment \<Rightarrow> ArchiveSegment res) \<Rightarrow> ArchiveSegment list \<Rightarrow> ArchiveSegment list res" where
  "update_segment uuid f [] = Inr []"
| "update_segment uuid f (seg # segs) =
     (if sg_ServerUUID seg = uuid then bind_res (f seg) (\<lambda>seg'. Inr (seg' # segs))
      else bind_res (update_segment uuid f segs) (\<lambda>segs'. Inr (seg # segs')))"

fun cumulative :: "'g gtid_ops \<Rightarrow> 'g \<Rightarrow> ArchiveSegment list \<Rightarrow> 'g res" where
  "cumulative ops acc [] = Inr acc"
| "cumulative ops acc (seg # segs) =
     (case op_Parse ops (sg_GTIDSet seg) of
        Inl err \<Rightarrow> Inl (Wrapf ''binlog: parsing segment gtid set: %w'' [] err)
      | Inr parsed \<Rightarrow> cumulative ops (op_Union ops acc parsed) segs)"

definition foldFile ::
  "archiver \<Rightarrow> 'g gtid_ops \<Rightarrow> gotime \<Rightarrow> ArchiveStatus \<Rightarrow> string \<Rightarrow> string \<Rightarrow> ArchiveIndex \<Rightarrow> ArchiveIndex res" where
  "foldFile a ops now status fileName fileGTIDSet index0 =
     (let index = index0\<lparr>ix_ClusterName := ar_clusterName a,
            ix_ClusterUID := (case ar_clusterUID a of Some uid \<Rightarrow> if uid \<noteq> [] then uid else ix_ClusterUID index0 | None \<Rightarrow> ix_ClusterUID index0)\<rparr>;
          segs = (if Segment index (ar_serverUUID a) = None then ix_Segments index @ [new_segment a now] else ix_Segments index)
      in bind_res (update_segment (ar_serverUUID a) (fold_segment ops now status fileName fileGTIDSet) segs) (\<lambda>segs'.
         bind_res (cumulative ops (op_New ops) segs') (\<lambda>covered.
           Inr (index\<lparr>ix_Segments := segs', ix_CoveredGTIDSet := op_String ops covered, ix_UpdatedAt := now\<rparr>))))"

section \<open>The fork check\<close>

record ForkReport =
  fr_Checked :: bool
  fr_CheckedAt :: gotime
  fr_Generation :: int
  fr_Superseded :: bool
  fr_Retracted :: "string list"
  fr_Disowned :: string
  fr_Gaps :: "string list"
  fr_Covered :: string
  fr_ArchivedThrough :: gotime
  fr_Timeline :: "ArchiveEpoch list"
  fr_Read :: bool
  fr_Forks :: "SegmentFork list"
  fr_OldestSegmentPosition :: string
  fr_Err :: "go_error option"

definition empty_report :: ForkReport where
  "empty_report = \<lparr>fr_Checked = False, fr_CheckedAt = zero_time, fr_Generation = 0, fr_Superseded = False, fr_Retracted = [],
     fr_Disowned = [], fr_Gaps = [], fr_Covered = [], fr_ArchivedThrough = zero_time, fr_Timeline = [], fr_Read = False,
     fr_Forks = [], fr_OldestSegmentPosition = [], fr_Err = None\<rparr>"

definition finish_report :: "ArchiveIndex \<Rightarrow> ForkReport \<Rightarrow> ForkReport" where
  "finish_report index report = report\<lparr>fr_Read := True, fr_Forks := SegmentForks index,
     fr_OldestSegmentPosition := OldestSegmentPosition (ix_Segments index),
     fr_Disowned := (case ix_Disowned index of Some d \<Rightarrow> ad_GTIDSet d | None \<Rightarrow> fr_Disowned report),
     fr_Gaps := ArchiveGaps index, fr_Timeline := ix_MariaDBTimeline index,
     fr_Covered := (if \<not> mariadbArchive index then ix_CoveredGTIDSet index else fr_Covered report)\<rparr>"

record forkPass =
  fp_source :: "ForkJudge option res option"
  fp_primary :: bool
  fp_generation :: int
  fp_preloaded :: "ForkJudge option"

definition forkPass_load :: "forkPass \<Rightarrow> ForkJudge option res" where
  "forkPass_load p =
     (case fp_preloaded p of
        Some judge \<Rightarrow> Inr (Some judge)
      | None \<Rightarrow> (case fp_source p of None \<Rightarrow> Inr None | Some r \<Rightarrow> r))"

text \<open>One segment of the check: its record after the judgement and the retraction, whether the record changed and whether it
  was retracted.\<close>

definition check_segment :: "archiver \<Rightarrow> gotime \<Rightarrow> ForkJudge \<Rightarrow> ArchiveSegment \<Rightarrow> (ArchiveFork option \<times> bool \<times> bool) res" where
  "check_segment a now judge seg =
     bind_res (if sg_ServerUUID seg \<noteq> ar_serverUUID a
               then bind_res (judge_segment judge seg) (\<lambda>delta. mergeFork (sg_Fork seg) delta (Authority judge) now (forkIdentity a))
               else Inr (sg_Fork seg, False)) (\<lambda>(merged, grew).
       case retractor judge of
         None \<Rightarrow> Inr (merged, grew, False)
       | Some executed \<Rightarrow>
           if merged = None then Inr (merged, grew, False)
           else bind_res (retractFork merged executed (Authority judge)) (\<lambda>(kept, retracted).
             Inr (if retracted then (kept, True, True) else (merged, grew, False))))"

fun check_segments ::
  "archiver \<Rightarrow> gotime \<Rightarrow> ForkJudge \<Rightarrow> ArchiveSegment list \<Rightarrow> bool \<Rightarrow> string list \<Rightarrow>
   (ArchiveFork option list \<times> bool) res \<times> string list" where
  "check_segments a now judge [] changed retracted = (Inr ([], changed), retracted)"
| "check_segments a now judge (seg # segs) changed retracted =
     (case check_segment a now judge seg of
        Inl err \<Rightarrow> (Inl err, retracted)
      | Inr (fork, c, r) \<Rightarrow>
          (case check_segments a now judge segs (changed \<or> c) (if r then retracted @ [sg_ServerUUID seg] else retracted) of
             (Inl err, rs) \<Rightarrow> (Inl err, rs)
           | (Inr (forks, changed'), rs) \<Rightarrow> (Inr (fork # forks, changed'), rs)))"

definition judge_index ::
  "archiver \<Rightarrow> gotime \<Rightarrow> int \<Rightarrow> ForkJudge \<Rightarrow> ArchiveIndex \<Rightarrow> bool \<times> ArchiveIndex \<times> ForkReport" where
  "judge_index a now generation judge index =
     (case check_segments a now judge (ix_Segments index) False [] of
        (Inl err, rs) \<Rightarrow> (False, index, finish_report index (empty_report\<lparr>fr_Retracted := rs, fr_Err := Some err\<rparr>))
      | (Inr (merged, changed), rs) \<Rightarrow>
          (case foldDisowned (ix_Disowned index) (ix_Segments index) merged (retractor judge) of
             Inl err \<Rightarrow> (False, index, finish_report index (empty_report\<lparr>fr_Retracted := rs, fr_Err := Some err\<rparr>))
           | Inr (disowned, disownedChanged) \<Rightarrow>
               (let timeline = (case ArchiveTimeline judge of
                                  None \<Rightarrow> ix_MariaDBTimeline index
                                | Some current \<Rightarrow> mergeArchiveTimeline (ix_MariaDBTimeline index) current (ix_Segments index));
                    changed' = (changed \<or> timeline \<noteq> ix_MariaDBTimeline index);
                    index' = index\<lparr>ix_MariaDBTimeline := timeline,
                      ix_Segments := map2 (\<lambda>seg fork. seg\<lparr>sg_Fork := fork\<rparr>) (ix_Segments index) merged, ix_Disowned := disowned\<rparr>
                in (changed' \<or> disownedChanged, index', finish_report index' (empty_report\<lparr>fr_Retracted := rs, fr_Checked := True,
                      fr_CheckedAt := now, fr_Generation := generation\<rparr>)))))"

definition checkForks :: "archiver \<Rightarrow> gotime \<Rightarrow> forkPass \<Rightarrow> ArchiveIndex \<Rightarrow> bool \<times> ArchiveIndex \<times> ForkReport" where
  "checkForks a now p index =
     (if fp_source p = None then (False, index, finish_report index empty_report)
      else if ix_Generation index > fp_generation p
      then (False, index, finish_report index (empty_report\<lparr>fr_Superseded := True\<rparr>))
      else case forkPass_load p of
             Inl err \<Rightarrow> (False, index, finish_report index (empty_report\<lparr>
               fr_Err := Some (Wrapf ''binlog: reading fork check authority: %w'' [] err)\<rparr>))
           | Inr None \<Rightarrow> (False, index, finish_report index empty_report)
           | Inr (Some judge) \<Rightarrow> judge_index a now (fp_generation p) judge index)"

section \<open>The mutations of the index\<close>

definition stamp_check :: "archiver \<Rightarrow> ForkReport \<Rightarrow> ArchiveIndex \<Rightarrow> ArchiveIndex" where
  "stamp_check a report index = index\<lparr>ix_ForkCheck := Some \<lparr>fc_CheckedAt = fr_CheckedAt report, fc_CheckedBy = forkIdentity a\<rparr>\<rparr>"

definition update_mutation ::
  "archiver \<Rightarrow> 'g gtid_ops \<Rightarrow> gotime \<Rightarrow> forkPass \<Rightarrow> ArchiveStatus \<Rightarrow> string \<Rightarrow> string \<Rightarrow> mutation" where
  "update_mutation a ops now p status fileName fileGTIDSet index0 exists =
     bind_res (foldFile a ops now status fileName fileGTIDSet index0) (\<lambda>index1.
       (let index2 = (if fp_primary p \<and> fp_generation p > ix_Generation index1 then index1\<lparr>ix_Generation := fp_generation p\<rparr> else index1)
        in case checkForks a now p index2 of
             (_, index3, report) \<Rightarrow> Inr (if fr_Checked report then stamp_check a report index3 else index3, True)))"

definition updateIndex ::
  "archiver \<Rightarrow> 'g gtid_ops \<Rightarrow> gotime \<Rightarrow> forkPass \<Rightarrow> s3_server \<Rightarrow> ArchiveStatus \<Rightarrow> string \<Rightarrow> string \<Rightarrow> s3_object \<Rightarrow> go_error option \<times> s3_object" where
  "updateIndex a ops now p srv status fileName fileGTIDSet obj =
     (case UpdateArchiveIndex srv (update_mutation a ops now p status fileName fileGTIDSet) False obj of
        (Failed err, u, obj') \<Rightarrow> (Some (Wrapf ''binlog: updating archive index: %w'' [] err), obj')
      | (_, u, obj') \<Rightarrow> (None, obj'))"

definition check_mutate ::
  "archiver \<Rightarrow> gotime \<Rightarrow> forkPass \<Rightarrow> gotime \<Rightarrow> ArchiveIndex \<Rightarrow> bool \<Rightarrow> (ArchiveIndex \<times> bool) res \<times> ForkReport" where
  "check_mutate a now p through index exists =
     (if \<not> exists then (Inr (index, False), empty_report)
      else case checkForks a now p index of
        (changed, index1, report) \<Rightarrow>
          (case fr_Err report of
             Some err \<Rightarrow> (Inl err, report)
           | None \<Rightarrow>
               if fr_Superseded report then (Inr (index1, False), report)
               else let stamp = (through \<noteq> zero_time \<and> through > ix_ArchivedThrough index1);
                        checkDue = (fr_Checked report \<and>
                          (changed \<or> ix_ForkCheck index1 = None \<or> ix_Generation index1 < fp_generation p))
                    in if \<not> checkDue \<and> \<not> stamp then (Inr (index1, False), report)
                       else let index2 = (if stamp then index1\<lparr>ix_ArchivedThrough := through\<rparr> else index1);
                                report' = (if stamp then report\<lparr>fr_ArchivedThrough := through\<rparr> else report)
                            in if \<not> fr_Checked report'
                               then (Inr (index2\<lparr>ix_Generation := max (ix_Generation index2) (fp_generation p), ix_UpdatedAt := now\<rparr>, True), report')
                               else (Inr ((stamp_check a report' index2)\<lparr>ix_Generation := fp_generation p, ix_UpdatedAt := now\<rparr>, True), report')))"

text \<open>\<open>CheckArchive\<close> with no other writer between its calls: \<open>forks\<close> is what reading the authority gives, \<open>authority\<close> the
  generation and whether the instance is the current primary. The report is that of the attempt on the index as read.\<close>

definition CheckArchive ::
  "archiver \<Rightarrow> gotime \<Rightarrow> ForkJudge option res option \<Rightarrow> int \<times> bool \<Rightarrow> s3_server \<Rightarrow> gotime \<Rightarrow> s3_object \<Rightarrow>
   (ForkReport \<times> go_error option) \<times> s3_object" where
  "CheckArchive a now forks authority srv through obj =
     (case forks of
        None \<Rightarrow> ((empty_report, None), obj)
      | Some load \<Rightarrow>
          if \<not> snd authority then ((empty_report, Some (Errorf ''binlog: the cluster does not name this instance its current primary yet'' [])), obj)
          else (case load of
             Inl err \<Rightarrow>
               (let err' = Wrapf ''binlog: reading fork check authority: %w'' [] err
                in ((empty_report\<lparr>fr_Err := Some err'\<rparr>, Some err'), obj))
           | Inr judge \<Rightarrow>
               if judge = None \<and> through = zero_time then ((empty_report, None), obj)
               else let p = \<lparr>fp_source = forks, fp_primary = True, fp_generation = fst authority, fp_preloaded = judge\<rparr>;
                        mutate = check_mutate a now p through;
                        report = (case GetJSONVersion srv obj of
                                    Inl err \<Rightarrow> empty_report
                                  | Inr (idx, etag, exists) \<Rightarrow> snd (mutate idx exists))
                    in case UpdateArchiveIndex srv (\<lambda>idx exists. fst (mutate idx exists)) False obj of
                         (Failed err, u, obj') \<Rightarrow>
                           ((if fr_Err report = None then report\<lparr>fr_Err := Some err\<rparr> else report, Some err), obj')
                       | (_, u, obj') \<Rightarrow> ((report, None), obj')))"

definition CheckForks ::
  "archiver \<Rightarrow> gotime \<Rightarrow> ForkJudge option res option \<Rightarrow> int \<times> bool \<Rightarrow> s3_server \<Rightarrow> s3_object \<Rightarrow> (ForkReport \<times> go_error option) \<times> s3_object" where
  "CheckForks a now forks authority srv obj = CheckArchive a now forks authority srv zero_time obj"

section \<open>A MySQL fork check is exact\<close>

text \<open>What the check makes of one segment: the record of a segment of another server becomes what it or the segment holds
  and the primary does not; the archiver's own record only loses what the primary holds.\<close>

definition foreign_txns :: "archiver \<Rightarrow> ArchiveSegment \<Rightarrow> (string \<times> int) set" where
  "foreign_txns a seg = (if sg_ServerUUID seg \<noteq> ar_serverUUID a then seg_txns seg else {})"

lemma check_segment_reach:
  assumes "wf_set executed" "is_ok (mysql_reach (sg_GTIDSet seg))" "mysql_fork (sg_Fork seg)"
  shows "\<exists>fork c r. check_segment a now (mysqlForkJudge raw executed) seg = Inr (fork, c, r) \<and> mysql_fork fork \<and>
    fork_reach fork = Inr ((fork_txns seg \<union> foreign_txns a seg) - gtids executed)"
proof -
  let ?j = "mysqlForkJudge raw executed"
  have S: "mysql_reach (sg_GTIDSet seg) = Inr (seg_txns seg)" using assms(2) by (simp add: seg_txns_def)
  have F: "fork_reach (sg_Fork seg) = Inr (fork_txns seg)" using assms(3) by (simp add: fork_txns_def mysql_fork_def)
  obtain merged grew where m: "(if sg_ServerUUID seg \<noteq> ar_serverUUID a
      then bind_res (judge_segment ?j seg) (\<lambda>delta. mergeFork (sg_Fork seg) delta (Authority ?j) now (forkIdentity a))
      else Inr (sg_Fork seg, False)) = Inr (merged, grew)" "mysql_fork merged"
    "fork_reach merged = Inr (fork_txns seg \<union> (foreign_txns a seg - gtids executed))"
  proof (cases "sg_ServerUUID seg \<noteq> ar_serverUUID a")
    case True
    obtain delta where d: "judge_segment ?j seg = Inr delta" "case delta of None \<Rightarrow> True | Some f \<Rightarrow> af_AfterSeq f = []"
      using judge_total [OF S] by blast
    have D: "fork_reach delta = Inr (seg_txns seg - gtids executed)" using judge_reach [OF d(1) assms(1) S] .
    then have "mysql_fork delta" using d(2) by (simp add: mysql_fork_def)
    then obtain f g where fg: "mergeFork (sg_Fork seg) delta (Authority ?j) now (forkIdentity a) = Inr (f, g)" "mysql_fork f"
      using mergeFork_total [OF assms(3)] by blast
    show ?thesis by (rule that [of f g]) (use True d fg mergeFork_reach [OF fg(1) F D] in \<open>simp_all add: foreign_txns_def\<close>)
  next
    case False
    then show ?thesis using that [of "sg_Fork seg" False] assms(3) F by (simp add: foreign_txns_def)
  qed
  obtain kept retracted where k: "retractFork merged executed (Authority ?j) = Inr (kept, retracted)" "mysql_fork kept"
    "\<not> retracted \<longrightarrow> kept = merged" using retractFork_total [OF m(2) assms(1)] by blast
  have K: "fork_reach kept = Inr ((fork_txns seg \<union> foreign_txns a seg) - gtids executed)"
    using retractFork_reach [OF k(1) assms(1) m(3)] by (simp add: Un_Diff)
  have "merged = None \<Longrightarrow> kept = None" using k(1) by (simp add: retractFork_def)
  then show ?thesis
    using m(1,2) k K by (auto simp: check_segment_def retractor_def)
qed

lemma check_segments_reach:
  assumes "wf_set executed" "\<forall>seg \<in> set segs. is_ok (mysql_reach (sg_GTIDSet seg)) \<and> mysql_fork (sg_Fork seg)"
  shows "\<exists>forks c rs. check_segments a now (mysqlForkJudge raw executed) segs changed retracted = (Inr (forks, c), rs) \<and>
    (\<forall>f \<in> set forks. mysql_fork f) \<and>
    list_all2 (\<lambda>f F. fork_reach f = Inr F) forks (map (\<lambda>seg. (fork_txns seg \<union> foreign_txns a seg) - gtids executed) segs)"
  using assms(2)
proof (induction segs arbitrary: changed retracted)
  case (Cons seg segs)
  obtain fork c r where f: "check_segment a now (mysqlForkJudge raw executed) seg = Inr (fork, c, r)" "mysql_fork fork"
    "fork_reach fork = Inr ((fork_txns seg \<union> foreign_txns a seg) - gtids executed)"
    using check_segment_reach [OF assms(1)] Cons.prems by (metis list.set_intros(1))
  let ?rs = "if r then retracted @ [sg_ServerUUID seg] else retracted"
  obtain forks c' rs where i: "check_segments a now (mysqlForkJudge raw executed) segs (changed \<or> c) ?rs = (Inr (forks, c'), rs)"
    "\<forall>f \<in> set forks. mysql_fork f"
    "list_all2 (\<lambda>f F. fork_reach f = Inr F) forks (map (\<lambda>seg. (fork_txns seg \<union> foreign_txns a seg) - gtids executed) segs)"
    using Cons.IH [of "changed \<or> c" ?rs] Cons.prems by auto
  show ?case using f i by simp
qed simp

lemma judge_index_exact:
  assumes "mysql_index index" "wf_set executed"
  shows "\<exists>changed index' report. judge_index a now generation (mysqlForkJudge raw executed) index = (changed, index', report) \<and>
    fr_Checked report \<and> fr_Err report = None \<and> mysql_index index' \<and>
    map (\<lambda>seg. seg\<lparr>sg_Fork := None\<rparr>) (ix_Segments index') = map (\<lambda>seg. seg\<lparr>sg_Fork := None\<rparr>) (ix_Segments index) \<and>
    map fork_txns (ix_Segments index') = map (\<lambda>seg. (fork_txns seg \<union> foreign_txns a seg) - gtids executed) (ix_Segments index) \<and>
    disowned_txns index' =
      (disowned_txns index \<union> (\<Union>seg \<in> set (ix_Segments index). fork_txns seg \<union> foreign_txns a seg)) - gtids executed"
proof -
  let ?segs = "ix_Segments index" and ?j = "mysqlForkJudge raw executed"
  let ?Fs = "map (\<lambda>seg. (fork_txns seg \<union> foreign_txns a seg) - gtids executed) ?segs"
  have ok: "\<forall>seg \<in> set ?segs. is_ok (mysql_reach (sg_GTIDSet seg)) \<and> mysql_fork (sg_Fork seg)"
    and D: "disowned_reach (ix_Disowned index) = Inr (disowned_txns index)"
    using assms(1) by (simp_all add: mysql_index_def disowned_txns_def)
  obtain forks c rs where f: "check_segments a now ?j ?segs False [] = (Inr (forks, c), rs)"
    "\<forall>f \<in> set forks. mysql_fork f" "list_all2 (\<lambda>f F. fork_reach f = Inr F) forks ?Fs"
    using check_segments_reach [OF assms(2) ok] by blast
  have l: "length ?segs = length forks" using f(3) by (simp add: list_all2_lengthD)
  obtain d dc where d: "foldDisowned (ix_Disowned index) ?segs forks (Some executed) = Inr (d, dc)"
    using foldDisowned_total [OF f(3,2) D l] by blast
  note dr = foldDisowned_reach [OF d assms(2) D l f(3)]
  define index' where "index' = index\<lparr>ix_MariaDBTimeline := ix_MariaDBTimeline index,
    ix_Segments := map2 (\<lambda>seg fork. seg\<lparr>sg_Fork := fork\<rparr>) ?segs forks, ix_Disowned := d\<rparr>"
  obtain report where r: "judge_index a now generation ?j index = (c \<or> dc, index', report)" "fr_Checked report" "fr_Err report = None"
    using f(1) d by (simp add: judge_index_def retractor_def ArchiveTimeline_def index'_def finish_report_def empty_report_def Let_def)
  have nth: "ix_Segments index' ! i = (?segs ! i)\<lparr>sg_Fork := forks ! i\<rparr>" if "i < length ?segs" for i
    using that l by (simp add: index'_def)
  have len: "length (ix_Segments index') = length ?segs" using l by (simp add: index'_def)
  have "map fork_txns (ix_Segments index') = ?Fs"
    using f(3) nth len l by (intro nth_equalityI) (auto simp: fork_txns_def list_all2_conv_all_nth)
  moreover have "map (\<lambda>seg. seg\<lparr>sg_Fork := None\<rparr>) (ix_Segments index') = map (\<lambda>seg. seg\<lparr>sg_Fork := None\<rparr>) ?segs"
    using nth len by (intro nth_equalityI) auto
  moreover have "mysql_index index'"
    using ok f(2) nth len l dr unfolding mysql_index_def all_set_conv_all_nth by (auto simp: index'_def all_set_conv_all_nth)
  moreover have "disowned_txns index' = (disowned_txns index \<union> (\<Union>seg \<in> set ?segs. fork_txns seg \<union> foreign_txns a seg)) - gtids executed"
    using dr by (auto simp: disowned_txns_def index'_def)
  ultimately show ?thesis using r by blast
qed


section \<open>Files and coverage stay in step\<close>

text \<open>What the comment at \<open>updateIndex\<close> promises, with \<open>holds uuid name\<close> the transactions of a file: a segment's set is what the
  files it lists hold, and the covered set is the union of the segments'.\<close>

definition seg_holds :: "(string \<Rightarrow> string \<Rightarrow> 't set) \<Rightarrow> ArchiveSegment \<Rightarrow> 't set" where
  "seg_holds holds seg = (\<Union>name \<in> set (sg_Binlogs seg). holds (sg_ServerUUID seg) name)"

definition in_step :: "(string \<Rightarrow> 't set res) \<Rightarrow> (string \<Rightarrow> bool) \<Rightarrow> (string \<Rightarrow> string \<Rightarrow> 't set) \<Rightarrow> ArchiveIndex \<Rightarrow> bool" where
  "in_step reach admits holds index \<longleftrightarrow>
     distinct (map sg_ServerUUID (ix_Segments index)) \<and>
     (\<forall>seg \<in> set (ix_Segments index). admits (sg_GTIDSet seg) \<and> reach (sg_GTIDSet seg) = Inr (seg_holds holds seg)) \<and>
     admits (ix_CoveredGTIDSet index) \<and> reach (ix_CoveredGTIDSet index) = Inr (\<Union>seg \<in> set (ix_Segments index). seg_holds holds seg)"

lemma update_segment_split:
  assumes "sg_ServerUUID seg = uuid" "uuid \<notin> sg_ServerUUID ` set pre"
  shows "update_segment uuid f (pre @ seg # post) = bind_res (f seg) (\<lambda>seg'. Inr (pre @ seg' # post))"
  using assms by (induction pre) (auto simp: bind_res_def split: sum.splits)

context ops_laws
begin

lemma cumulative_correct:
  "\<forall>seg \<in> set segs. admits (sg_GTIDSet seg) \<and> reach (sg_GTIDSet seg) = Inr (T seg) \<Longrightarrow> ok acc \<Longrightarrow>
   \<exists>c. cumulative ops acc segs = Inr c \<and> ok c \<and> txns c = txns acc \<union> (\<Union>seg \<in> set segs. T seg)"
proof (induction segs arbitrary: acc)
  case (Cons seg segs)
  obtain g where g: "op_Parse ops (sg_GTIDSet seg) = Inr g" "ok g" "txns g = T seg"
    using Parse_Inr [of "sg_GTIDSet seg"] Cons.prems(1) by auto
  have u: "ok (op_Union ops acc g)" "txns (op_Union ops acc g) = txns acc \<union> T seg" using Union_law [OF Cons.prems(2) g(2)] g(3) by auto
  then show ?case using Cons.IH [OF _ u(1)] Cons.prems(1) g(1) by (auto simp: Un_assoc)
qed simp

lemma fold_segment_correct:
  assumes "admits (sg_GTIDSet seg)" "reach (sg_GTIDSet seg) = Inr (seg_holds holds seg)"
    "admits gset" "reach gset = Inr (holds (sg_ServerUUID seg) name)" "name \<noteq> []"
  shows "\<exists>seg'. fold_segment ops now status name gset seg = Inr seg' \<and> sg_ServerUUID seg' = sg_ServerUUID seg \<and>
    set (sg_Binlogs seg') = insert name (set (sg_Binlogs seg)) \<and>
    admits (sg_GTIDSet seg') \<and> reach (sg_GTIDSet seg') = Inr (seg_holds holds seg')"
proof -
  obtain g where g: "op_Parse ops (sg_GTIDSet seg) = Inr g" "ok g" "txns g = seg_holds holds seg" using Parse_Inr [OF assms(1,2)] by blast
  obtain h where h: "op_Parse ops gset = Inr h" "ok h" "txns h = holds (sg_ServerUUID seg) name" using Parse_Inr [OF assms(3,4)] by blast
  note u = Union_law [OF g(2) h(2)]
  note s = String_law [OF conjunct1 [OF u]]
  show ?thesis using g h u s assms(5) by (auto simp: fold_segment_def seg_holds_def Let_def insert_absorb)
qed

lemma foldFile_in_step:
  assumes "in_step reach admits holds index" "admits gset" "reach gset = Inr (holds (ar_serverUUID a) name)" "name \<noteq> []"
  shows "\<exists>index'. foldFile a ops now status name gset index = Inr index' \<and> in_step reach admits holds index' \<and>
    (\<exists>seg \<in> set (ix_Segments index'). sg_ServerUUID seg = ar_serverUUID a \<and> name \<in> set (sg_Binlogs seg))"
proof -
  let ?uuid = "ar_serverUUID a"
  define segs where "segs = (if Segment index ?uuid = None then ix_Segments index @ [new_segment a now] else ix_Segments index)"
  have nseg: "admits (sg_GTIDSet (new_segment a now))" "reach (sg_GTIDSet (new_segment a now)) = Inr (seg_holds holds (new_segment a now))"
    using admits_Nil by (auto simp: new_segment_def seg_holds_def)
  have ok: "\<forall>seg \<in> set segs. admits (sg_GTIDSet seg) \<and> reach (sg_GTIDSet seg) = Inr (seg_holds holds seg)"
    using assms(1) nseg by (auto simp: in_step_def segs_def)
  have has: "\<exists>seg \<in> set segs. sg_ServerUUID seg = ?uuid" and d: "distinct (map sg_ServerUUID segs)"
    using assms(1) by (auto simp: segs_def Segment_def in_step_def find_None_iff new_segment_def)
  from split_list_first_prop [OF has] obtain pre seg post
    where s: "segs = pre @ seg # post" "sg_ServerUUID seg = ?uuid" and np: "\<forall>y \<in> set pre. sg_ServerUUID y \<noteq> ?uuid" by blast
  from np have s3: "?uuid \<notin> sg_ServerUUID ` set pre" by auto
  obtain seg' where f: "fold_segment ops now status name gset seg = Inr seg'" "sg_ServerUUID seg' = ?uuid"
    "set (sg_Binlogs seg') = insert name (set (sg_Binlogs seg))"
    "admits (sg_GTIDSet seg')" "reach (sg_GTIDSet seg') = Inr (seg_holds holds seg')"
    using fold_segment_correct [of seg holds gset name now status] ok s assms(2-4) by auto
  define segs' where "segs' = pre @ seg' # post"
  have u: "update_segment ?uuid (fold_segment ops now status name gset) segs = Inr segs'"
    using update_segment_split [OF s(2) s3] s(1) f(1) by (simp add: segs'_def bind_res_def)
  have ok': "\<forall>seg \<in> set segs'. admits (sg_GTIDSet seg) \<and> reach (sg_GTIDSet seg) = Inr (seg_holds holds seg)"
    using ok s(1) f(4,5) by (auto simp: segs'_def)
  obtain c where c: "cumulative ops (op_New ops) segs' = Inr c" "ok c" "txns c = (\<Union>seg \<in> set segs'. seg_holds holds seg)"
    using cumulative_correct [OF ok' conjunct1 [OF New_law]] New_law by auto
  have "distinct (map sg_ServerUUID segs')" using d s(1,2) f(2) by (simp add: segs'_def)
  then have "in_step reach admits holds (index\<lparr>ix_ClusterName := n, ix_ClusterUID := k, ix_Segments := segs', ix_CoveredGTIDSet := op_String ops c, ix_UpdatedAt := now\<rparr>)" for n k
    using ok' String_law [OF c(2)] c(3) by (simp add: in_step_def)
  moreover have "seg' \<in> set segs'" "name \<in> set (sg_Binlogs seg')" using f(3) by (simp_all add: segs'_def)
  ultimately show ?thesis using u c(1) f(2) by (auto simp: foldFile_def Let_def Segment_def segs_def bind_res_def)
qed

end

section \<open>Every write keeps files and coverage in step\<close>

definition erase_fork :: "ArchiveSegment \<Rightarrow> ArchiveSegment" where
  "erase_fork seg = seg\<lparr>sg_Fork := None\<rparr>"

definition same_files :: "ArchiveIndex \<Rightarrow> ArchiveIndex \<Rightarrow> bool" where
  "same_files index index' \<longleftrightarrow>
     map erase_fork (ix_Segments index') = map erase_fork (ix_Segments index) \<and> ix_CoveredGTIDSet index' = ix_CoveredGTIDSet index"

lemma erase_fork_simps [simp]:
  "sg_ServerUUID (erase_fork seg) = sg_ServerUUID seg" "sg_GTIDSet (erase_fork seg) = sg_GTIDSet seg"
  "seg_holds holds (erase_fork seg) = seg_holds holds seg"
  by (simp_all add: erase_fork_def seg_holds_def)

lemma in_step_erased:
  "in_step reach admits holds index \<longleftrightarrow>
     (let segs = map erase_fork (ix_Segments index) in
      distinct (map sg_ServerUUID segs) \<and> (\<forall>seg \<in> set segs. admits (sg_GTIDSet seg) \<and> reach (sg_GTIDSet seg) = Inr (seg_holds holds seg)) \<and>
      admits (ix_CoveredGTIDSet index) \<and> reach (ix_CoveredGTIDSet index) = Inr (\<Union>seg \<in> set segs. seg_holds holds seg))"
  by (simp add: in_step_def Let_def comp_def)

lemma in_step_same_files: "same_files index index' \<Longrightarrow> in_step reach admits holds index \<Longrightarrow> in_step reach admits holds index'"
  unfolding in_step_erased same_files_def by simp

lemma check_segments_length:
  "check_segments a now judge segs changed retracted = (Inr (forks, c), rs) \<Longrightarrow> length forks = length segs"
proof (induction segs arbitrary: changed retracted forks c rs)
  case (Cons seg segs)
  obtain fork d r where f: "check_segment a now judge seg = Inr (fork, d, r)" using Cons.prems by (auto split: sum.splits)
  obtain res rs' where i: "check_segments a now judge segs (changed \<or> d) (if r then retracted @ [sg_ServerUUID seg] else retracted) = (res, rs')"
    by force
  then obtain forks' c' where "res = Inr (forks', c')" "forks = fork # forks'"
    using Cons.prems f by (cases res) auto
  with Cons.IH i show ?case by auto
qed simp

lemma map2_erase: "length forks = length segs \<Longrightarrow> map erase_fork (map2 (\<lambda>seg fork. seg\<lparr>sg_Fork := fork\<rparr>) segs forks) = map erase_fork segs"
  by (induction segs forks rule: list_induct2') (auto simp: erase_fork_def)

lemma judge_index_files:
  assumes "judge_index a now g judge index = (c, index', r)"
  shows "same_files index index'"
proof -
  obtain res rs where k: "check_segments a now judge (ix_Segments index) False [] = (res, rs)" by force
  show ?thesis
  proof (cases res)
    case (Inl err)
    then show ?thesis using assms k by (auto simp: judge_index_def same_files_def)
  next
    case (Inr x)
    obtain forks ch where x: "x = (forks, ch)" by force
    have e: "map erase_fork (map2 (\<lambda>seg fork. seg\<lparr>sg_Fork := fork\<rparr>) (ix_Segments index) forks) = map erase_fork (ix_Segments index)"
      using map2_erase check_segments_length k Inr x by blast
    show ?thesis
    proof (cases "foldDisowned (ix_Disowned index) (ix_Segments index) forks (retractor judge)")
      case (Inl err)
      then show ?thesis using assms k Inr x by (auto simp: judge_index_def same_files_def)
    next
      case y: (Inr y)
      have "ix_Segments index' = map2 (\<lambda>seg fork. seg\<lparr>sg_Fork := fork\<rparr>) (ix_Segments index) forks"
        "ix_CoveredGTIDSet index' = ix_CoveredGTIDSet index"
        using assms k Inr x y by (auto simp: judge_index_def Let_def split: prod.splits)
      then show ?thesis using e unfolding same_files_def by simp
    qed
  qed
qed

lemma checkForks_files: "checkForks a now p index = (c, index', r) \<Longrightarrow> same_files index index'"
  by (auto simp: checkForks_def same_files_def split: if_splits sum.splits option.splits dest: judge_index_files [unfolded same_files_def])

lemma check_mutate_files:
  assumes "fst (check_mutate a now p through index exists) = Inr (index', True)"
  shows "same_files index index'"
proof -
  obtain c i1 r where k: "checkForks a now p index = (c, i1, r)" by (cases "checkForks a now p index")
  show ?thesis using checkForks_files [OF k] assms k
    by (auto simp: check_mutate_def stamp_check_def same_files_def Let_def split: if_splits option.splits)
qed

lemma in_step_zero: "admits [] \<Longrightarrow> reach [] = Inr {} \<Longrightarrow> in_step reach admits holds zero_index"
  by (simp add: in_step_def zero_index_def)

text \<open>The index writes of archivers: the fold of a file whose set is what the file holds, or a fork check.\<close>

definition archive_writer ::
  "'g gtid_ops \<Rightarrow> (string \<Rightarrow> 't set res) \<Rightarrow> (string \<Rightarrow> bool) \<Rightarrow> (string \<Rightarrow> string \<Rightarrow> 't set) \<Rightarrow> mutation \<Rightarrow> bool" where
  "archive_writer ops reach admits holds m \<longleftrightarrow>
     (\<exists>a now p status name gset. m = update_mutation a ops now p status name gset \<and> name \<noteq> [] \<and> admits gset \<and>
        reach gset = Inr (holds (ar_serverUUID a) name)) \<or>
     (\<exists>a now p through. m = (\<lambda>index exists. fst (check_mutate a now p through index exists)))"

context ops_laws
begin

lemma update_mutation_in_step:
  assumes "in_step reach admits holds index" "name \<noteq> []" "admits gset" "reach gset = Inr (holds (ar_serverUUID a) name)"
  shows "\<exists>index'. update_mutation a ops now p status name gset index exists = Inr (index', True) \<and> in_step reach admits holds index' \<and>
    (\<exists>seg \<in> set (ix_Segments index'). sg_ServerUUID seg = ar_serverUUID a \<and> name \<in> set (sg_Binlogs seg))"
proof -
  obtain i1 where f: "foldFile a ops now status name gset index = Inr i1" "in_step reach admits holds i1"
    "\<exists>seg \<in> set (ix_Segments i1). sg_ServerUUID seg = ar_serverUUID a \<and> name \<in> set (sg_Binlogs seg)"
    using foldFile_in_step [OF assms(1,3,4,2)] by blast
  define i2 where "i2 = (if fp_primary p \<and> fp_generation p > ix_Generation i1 then i1\<lparr>ix_Generation := fp_generation p\<rparr> else i1)"
  obtain c i3 r where k: "checkForks a now p i2 = (c, i3, r)" by (cases "checkForks a now p i2")
  define i4 where "i4 = (if fr_Checked r then stamp_check a r i3 else i3)"
  have u: "update_mutation a ops now p status name gset index exists = Inr (i4, True)"
    using f(1) k by (simp add: update_mutation_def i2_def i4_def bind_res_def Let_def)
  have s: "same_files i1 i4" using checkForks_files [OF k] by (auto simp: same_files_def i2_def i4_def stamp_check_def)
  obtain seg where seg: "seg \<in> set (ix_Segments i1)" "sg_ServerUUID seg = ar_serverUUID a" "name \<in> set (sg_Binlogs seg)" using f(3) by blast
  then have "erase_fork seg \<in> set (map erase_fork (ix_Segments i4))" using s by (auto simp: same_files_def)
  then obtain seg4 where "seg4 \<in> set (ix_Segments i4)" "erase_fork seg4 = erase_fork seg" by auto
  then have "\<exists>seg \<in> set (ix_Segments i4). sg_ServerUUID seg = ar_serverUUID a \<and> name \<in> set (sg_Binlogs seg)"
    using seg(2,3) by (intro bexI [of _ seg4]) (auto simp: erase_fork_def dest: arg_cong [of _ _ sg_Binlogs] arg_cong [of _ _ sg_ServerUUID])
  then show ?thesis using u in_step_same_files [OF s f(2)] by blast
qed

lemma archive_writer_keeps:
  assumes "archive_writer ops reach admits holds m"
  shows "keeps (in_step reach admits holds) m"
  using assms unfolding archive_writer_def
proof (elim disjE exE conjE)
  fix a now p status name gset
  assume m: "m = update_mutation a ops now p status name gset"
    and h: "name \<noteq> []" "admits gset" "reach gset = Inr (holds (ar_serverUUID a) name)"
  have "in_step reach admits holds index'" if i: "in_step reach admits holds index" "m index exists = Inr (index', True)" for index index' "exists"
    using update_mutation_in_step [OF i(1) h, of now p status "exists"] i(2) unfolding m by auto
  then show ?thesis using in_step_zero [of admits reach holds] admits_Nil by (auto simp: keeps_def)
next
  fix a now p through
  assume m: "m = (\<lambda>index exists. fst (check_mutate a now p through index exists))"
  have "in_step reach admits holds index'" if "in_step reach admits holds index" "m index exists = Inr (index', True)" for index index' "exists"
    using check_mutate_files that in_step_same_files unfolding m by blast
  then show ?thesis using in_step_zero [of admits reach holds] admits_Nil by (auto simp: keeps_def)
qed

end


text \<open>The same for MariaDB archives, whose sets are positions.\<close>

lemma mariadb_index_in_step:
  assumes "cas_run tag mut s0 s" "starts_with tag stored s0" "\<And>index. stored = Some index \<Longrightarrow> in_step maria_reach maria_admits holds index"
    "\<And>w. archive_writer (mariadbGTIDSet mariadbGTID) maria_reach maria_admits holds (mut w)" "ca_obj s = Some (index, etag)"
  shows "in_step maria_reach maria_admits holds index"
proof -
  have "\<forall>obj. ca_obj s = Some obj \<longrightarrow> in_step maria_reach maria_admits holds (fst obj)"
    using assms(3) by (intro cas_run_keeps [OF assms(1,2) _ mariadb_ops.archive_writer_keeps [OF assms(4)]]) auto
  then show ?thesis using assms(5) by simp
qed

section \<open>Witnesses\<close>

definition wit_archiver :: archiver where
  "wit_archiver = \<lparr>ar_clusterName = ''db'', ar_clusterUID = Some ''u1'', ar_instanceName = ''db-1'', ar_serverUUID = ''ab''\<rparr>"

definition wit_archive_status :: ArchiveStatus where
  "wit_archive_status = \<lparr>as_ClusterName = ''db'', as_ServerUUID = ''ab'', as_InstanceName = ''db-1'', as_LastArchivedBinlog = ''bin.1'',
     as_LastArchivedGTID = ''ab:3'', as_FirstGTID = ''ab:1'', as_CoveredGTIDSet = ''ab:1-3'', as_UpdatedAt = 5\<rparr>"

definition wit_judge :: ForkJudge where
  "wit_judge = mysqlForkJudge ''ab:1-5'' [(''ab'', [mk_iv 1 5])]"

definition wit_forkPass :: forkPass where
  "wit_forkPass = \<lparr>fp_source = Some (Inr (Some wit_judge)), fp_primary = True, fp_generation = 2, fp_preloaded = None\<rparr>"

definition wit_update :: mutation where
  "wit_update = update_mutation wit_archiver mysqlGTIDSet 7 wit_forkPass wit_archive_status ''bin.1'' ''ab:1-3''"

definition wit_updated :: ArchiveIndex where
  "wit_updated = (case wit_update zero_index False of Inr (index, _) \<Rightarrow> index | Inl _ \<Rightarrow> zero_index)"

lemma wit_update_facts:
  "wit_update zero_index False = Inr (wit_updated, True)" "map sg_Binlogs (ix_Segments wit_updated) = [[''bin.1'']]"
  "ix_CoveredGTIDSet wit_updated = ''ab:1-3''" "ix_Generation wit_updated = 2"
  by code_simp+

definition wit_archive_start :: cas_state where
  "wit_archive_start = \<lparr>ca_obj = None, ca_pc = (\<lambda>_. Idle indexUpdateAttempts), ca_log = []\<rparr>"


definition wit_fork_index :: ArchiveIndex where
  "wit_fork_index = wit_updated\<lparr>ix_Segments := ix_Segments wit_updated @ [(new_segment wit_archiver 3)\<lparr>sg_ServerUUID := ''cd'',
     sg_Binlogs := [''bin.1''], sg_GTIDSet := ''ab:1-5,cd:1-9''\<rparr>]\<rparr>"

lemma wit_fork_facts:
  "map sg_GTIDSet (ix_Segments wit_fork_index) = [''ab:1-3'', ''ab:1-5,cd:1-9'']" "map sg_Fork (ix_Segments wit_fork_index) = [None, None]"
  "map sg_ServerUUID (ix_Segments wit_fork_index) = [''ab'', ''cd'']" "ix_Disowned wit_fork_index = None" "ix_Generation wit_fork_index = 2"
  "ParseGTIDSet ''ab:1-3'' = Inr [(''ab'', [mk_iv 1 3])]"
  "ParseGTIDSet ''ab:1-5,cd:1-9'' = Inr [(''ab'', [mk_iv 1 5]), (''cd'', [mk_iv 1 9])]"
  "ParseGTIDSet ''ab:1-5,cd:1-7'' = Inr [(''ab'', [mk_iv 1 5]), (''cd'', [mk_iv 1 7])]"
  by code_simp+


end
