(* ===== verification/Archive_Replay.thy ===== *)
theory Archive_Replay
  imports Gtid_Ops Archive_Forks "HOL-Library.Sublist"
begin

text \<open>
  Planning a point-in-time recovery from the archive (\<open>pkg/management/mysql/binlog/replay.go\<close>): which segments to replay
  on top of a base backup, which transactions to leave out, and when to refuse. The frontier walk is written over the
  operations of \<open>Gtid_Ops\<close> and proved once for both engines; the fork records, the backstop for unrecorded forks and the
  check for gaps are MySQL's.
\<close>

section \<open>Errors and times\<close>

definition ErrTargetBeforeBackup :: go_error where
  "ErrTargetBeforeBackup = Errorf ''binlog: recovery target is older than the base backup'' []"

definition ErrTargetBeyondArchive :: go_error where
  "ErrTargetBeyondArchive = Errorf ''binlog: recovery target is beyond archive coverage'' []"

definition ErrForkedTimeline :: go_error where
  "ErrForkedTimeline = Errorf ''binlog: archive timeline is forked or has a gap'' []"

definition ErrBackupOnDeadBranch :: go_error where
  "ErrBackupOnDeadBranch = Errorf ''binlog: base backup was taken on a dead branch of the timeline'' []"

definition ErrArchiveGap :: go_error where
  "ErrArchiveGap = Errorf ''binlog: the archive is missing transactions the recovery has to replay'' []"

definition stop_datetime :: "gotime \<Rightarrow> string" where
  "stop_datetime t = format_time '' '' [] t"

section \<open>Targets and plans\<close>

record RecoveryTarget =
  rt_Time :: "gotime option"
  rt_GTID :: string
  rt_Immediate :: bool

record ReplaySegment =
  rs_ServerUUID :: string
  rs_Files :: "string list"
  rs_GTIDSet :: string
  rs_Fork :: "ArchiveFork option"

record ReplayPlan =
  pl_Segments :: "ReplaySegment list"
  pl_AnchorGTID :: string
  pl_ExcludeGTIDs :: string
  pl_IncludeGTIDs :: string
  pl_StopDatetime :: string
  pl_TargetTime :: gotime
  pl_AnchorFile :: string
  pl_StartPosition :: int
  pl_AnchorServerUUID :: string
  pl_MariaDBPositional :: bool
  pl_MariaDBDomain :: nat
  pl_MariaDBAnchorSeq :: nat
  pl_MariaDBTargetSeq :: nat
  pl_MariaDBTarget :: "MariaDBGTID option"
  pl_DisownedGTIDs :: string
  pl_Forks :: "SegmentFork list"
  pl_ForkChecked :: bool
  pl_Warnings :: "string list"

definition zero_plan :: ReplayPlan where
  "zero_plan = \<lparr>pl_Segments = [], pl_AnchorGTID = [], pl_ExcludeGTIDs = [], pl_IncludeGTIDs = [], pl_StopDatetime = [],
     pl_TargetTime = zero_time, pl_AnchorFile = [], pl_StartPosition = 0, pl_AnchorServerUUID = [], pl_MariaDBPositional = False,
     pl_MariaDBDomain = 0, pl_MariaDBAnchorSeq = 0, pl_MariaDBTargetSeq = 0, pl_MariaDBTarget = None, pl_DisownedGTIDs = [],
     pl_Forks = [], pl_ForkChecked = False, pl_Warnings = []\<rparr>"

definition replaySegment :: "ArchiveSegment \<Rightarrow> ReplaySegment" where
  "replaySegment seg = \<lparr>rs_ServerUUID = sg_ServerUUID seg, rs_Files = sg_Binlogs seg, rs_GTIDSet = sg_GTIDSet seg, rs_Fork = sg_Fork seg\<rparr>"

definition plannedForks :: "ArchiveIndex \<Rightarrow> ReplaySegment list \<Rightarrow> SegmentFork list" where
  "plannedForks idx planned =
     filter (\<lambda>fork. \<exists>seg \<in> set planned. rs_ServerUUID seg = sf_ServerUUID fork) (SegmentForks idx)"

definition checkTimeTarget :: "ArchiveIndex \<Rightarrow> RecoveryTarget \<Rightarrow> go_error option" where
  "checkTimeTarget idx target =
     (case rt_Time target of
        None \<Rightarrow> None
      | Some t \<Rightarrow>
          if ix_ArchivedThrough idx = zero_time \<or> \<not> t > ix_ArchivedThrough idx then None
          else Some (Wrapf ''%w: the archive holds every transaction only up to %s, before the target %s''
                 [rfc3339 (ix_ArchivedThrough idx), rfc3339 t] ErrTargetBeyondArchive))"

section \<open>The frontier walk\<close>

fun plan_segments :: "'g gtid_ops \<Rightarrow> 'g \<Rightarrow> ArchiveSegment list \<Rightarrow> (ReplaySegment list \<times> 'g) res" where
  "plan_segments ops frontier [] = Inr ([], frontier)"
| "plan_segments ops frontier (seg # segs) =
     (case op_Parse ops (sg_GTIDSet seg) of
        Inl err \<Rightarrow> Inl (Wrapf ''binlog: parsing segment %q GTID set: %w'' [sg_ServerUUID seg] err)
      | Inr segSet \<Rightarrow>
          if \<not> op_IsEmpty ops segSet \<and> op_Contains ops frontier segSet then plan_segments ops frontier segs
          else bind_res (plan_segments ops (op_Union ops frontier segSet) segs) (\<lambda>(planned, final).
                 Inr (replaySegment seg # planned, final)))"

definition applyTargetWithOps :: "'g gtid_ops \<Rightarrow> 'g \<Rightarrow> 'g \<Rightarrow> RecoveryTarget \<Rightarrow> ReplayPlan \<Rightarrow> ReplayPlan res" where
  "applyTargetWithOps ops frontier anchor target plan =
     (if rt_GTID target \<noteq> []
      then (case op_Parse ops (rt_GTID target) of
              Inl err \<Rightarrow> Inl (Wrapf ''binlog: parsing target GTID: %w'' [] err)
            | Inr want \<Rightarrow>
                if \<not> op_Contains ops want anchor then Inl ErrTargetBeforeBackup
                else if \<not> op_Contains ops frontier want then Inl ErrTargetBeyondArchive
                else Inr (plan\<lparr>pl_IncludeGTIDs := op_String ops want\<rparr>))
      else (case rt_Time target of
              None \<Rightarrow> Inr plan
            | Some t \<Rightarrow> Inr (plan\<lparr>pl_StopDatetime := stop_datetime t, pl_TargetTime := t\<rparr>)))"

definition planReplayWithOps :: "'g gtid_ops \<Rightarrow> ArchiveIndex option \<Rightarrow> string \<Rightarrow> RecoveryTarget \<Rightarrow> ReplayPlan res" where
  "planReplayWithOps ops index anchorGTID target =
     (case index of
        None \<Rightarrow> Inl (Errorf ''binlog: archive index is required'' [])
      | Some idx \<Rightarrow>
          (case checkTimeTarget idx target of
             Some err \<Rightarrow> Inl err
           | None \<Rightarrow>
               (case op_Parse ops anchorGTID of
                  Inl err \<Rightarrow> Inl (Wrapf ''binlog: parsing anchor GTID: %w'' [] err)
                | Inr anchor \<Rightarrow>
                    bind_res (plan_segments ops anchor (ix_Segments idx)) (\<lambda>(planned, frontier).
                      let plan = zero_plan\<lparr>pl_ExcludeGTIDs := op_String ops anchor, pl_AnchorGTID := op_String ops anchor,
                            pl_Segments := planned, pl_ForkChecked := (ix_ForkCheck idx \<noteq> None),
                            pl_Forks := plannedForks idx planned\<rparr>;
                          checked = (if ix_CoveredGTIDSet idx \<noteq> []
                                     then (case op_Parse ops (ix_CoveredGTIDSet idx) of
                                             Inl err \<Rightarrow> Inl (Wrapf ''binlog: parsing index coverage: %w'' [] err)
                                           | Inr covered \<Rightarrow> if \<not> op_Contains ops frontier covered then Inl ErrForkedTimeline else Inr ())
                                     else Inr ())
                      in bind_res checked (\<lambda>_. applyTargetWithOps ops frontier anchor target plan)))))"

definition planReplayWithoutFrontier :: "'g gtid_ops \<Rightarrow> ArchiveIndex \<Rightarrow> string \<Rightarrow> RecoveryTarget \<Rightarrow> ReplayPlan res" where
  "planReplayWithoutFrontier ops idx anchorGTID target =
     (case checkTimeTarget idx target of
        Some err \<Rightarrow> Inl err
      | None \<Rightarrow>
          (case op_Parse ops anchorGTID of
             Inl err \<Rightarrow> Inl (Wrapf ''binlog: parsing anchor GTID: %w'' [] err)
           | Inr anchor \<Rightarrow>
               (let planned = map replaySegment (filter (\<lambda>seg. sg_Binlogs seg \<noteq> []) (ix_Segments idx));
                    plan = zero_plan\<lparr>pl_ExcludeGTIDs := op_String ops anchor, pl_Segments := planned,
                      pl_ForkChecked := (ix_ForkCheck idx \<noteq> None), pl_Forks := plannedForks idx planned\<rparr>
                in if rt_GTID target \<noteq> []
                   then (case op_Parse ops (rt_GTID target) of
                           Inl err \<Rightarrow> Inl (Wrapf ''binlog: parsing target GTID: %w'' [] err)
                         | Inr want \<Rightarrow>
                             if \<not> op_Contains ops want anchor then Inl ErrTargetBeforeBackup
                             else Inr (plan\<lparr>pl_IncludeGTIDs := op_String ops want\<rparr>))
                   else (case rt_Time target of None \<Rightarrow> Inr plan | Some t \<Rightarrow> Inr (plan\<lparr>pl_StopDatetime := stop_datetime t\<rparr>)))))"

text \<open>With no index the first attempt fails with another error than the one that makes it fall back.\<close>

definition PlanReplayWithModel :: "gtid_model \<Rightarrow> ArchiveIndex option \<Rightarrow> string \<Rightarrow> RecoveryTarget \<Rightarrow> ReplayPlan res" where
  "PlanReplayWithModel model index anchorGTID target =
     (case planReplayWithOps (mariadbGTIDSet model) index anchorGTID target of
        Inr plan \<Rightarrow> Inr plan
      | Inl err \<Rightarrow>
          if errors_Is err ErrTargetBeyondArchive
          then (case index of
                  None \<Rightarrow> Inl err
                | Some idx \<Rightarrow> planReplayWithoutFrontier (mariadbGTIDSet model) idx anchorGTID target)
          else Inl err)"

section \<open>Gaps\<close>

fun head_gaps :: "GTIDSet \<Rightarrow> GTIDSet \<Rightarrow> GTIDSet \<Rightarrow> GTIDSet" where
  "head_gaps anchor [] missing = missing"
| "head_gaps anchor ((uuid, intervals) # got) missing =
     head_gaps anchor got
       (if length (slice_at anchor uuid) > 0 \<or> intervals = [] \<or> Start (hd intervals) \<le> 1 then missing
        else AddInterval missing uuid (mk_iv 1 (i64 (Start (hd intervals) - 1))))"

definition checkMySQLGaps :: "string \<Rightarrow> string \<Rightarrow> string \<Rightarrow> go_error option" where
  "checkMySQLGaps anchorGTID result disowned =
     (case ParseGTIDSet anchorGTID of
        Inl err \<Rightarrow> Some (Wrapf ''binlog: parsing anchor GTID: %w'' [] err)
      | Inr anchor \<Rightarrow>
          (case ParseGTIDSet result of
             Inl err \<Rightarrow> Some (Wrapf ''binlog: parsing recovered GTID set: %w'' [] err)
           | Inr got \<Rightarrow>
               (case ParseGTIDSet disowned of
                  Inl err \<Rightarrow> Some (Wrapf ''binlog: parsing disowned GTID set: %w'' [] err)
                | Inr disownedSet \<Rightarrow>
                    (let expected = Union disownedSet (Holes anchor);
                         missing = head_gaps anchor got (Holes got);
                         gap = Difference missing expected
                     in if \<not> IsEmpty gap then Some (Wrapf ''%w: %s'' [GTIDSet_String gap] ErrArchiveGap) else None))))"

definition VerifyReplayedGTIDs :: "ReplayPlan \<Rightarrow> string \<Rightarrow> string \<Rightarrow> go_error option" where
  "VerifyReplayedGTIDs plan anchorGTID executed =
     (case (if pl_IncludeGTIDs plan \<noteq> [] then DifferenceGTIDStrings (pl_IncludeGTIDs plan) executed else Inr []) of
        Inl err \<Rightarrow> Some (Wrapf ''binlog: comparing the recovered set with the target: %w'' [] err)
      | Inr missing \<Rightarrow>
          if missing \<noteq> [] then Some (Wrapf ''%w: the recovered server lacks %s of the target'' [missing] ErrArchiveGap)
          else checkMySQLGaps anchorGTID executed (pl_DisownedGTIDs plan))"

section \<open>Forks\<close>

fun parse_segments :: "ArchiveSegment list \<Rightarrow> (ArchiveSegment \<times> GTIDSet) list res" where
  "parse_segments [] = Inr []"
| "parse_segments (seg # segs) =
     (case ParseGTIDSet (sg_GTIDSet seg) of
        Inl err \<Rightarrow> Inl (Wrapf ''binlog: parsing segment %q GTID set: %w'' [sg_ServerUUID seg] err)
      | Inr s \<Rightarrow> bind_res (parse_segments segs) (\<lambda>rest. Inr ((seg, s) # rest)))"

text \<open>What a later segment shows to be dead in an earlier one: its own transactions past the last one the later one re-logged.\<close>

definition dead_branch :: "GTIDSet \<Rightarrow> ArchiveSegment \<times> GTIDSet \<Rightarrow> ArchiveSegment \<times> GTIDSet \<Rightarrow> GTIDSet" where
  "dead_branch known earlier later =
     (let author = to_lower (sg_ServerUUID (fst earlier)); own = slice_at (snd earlier) author;
          successor = to_lower (sg_ServerUUID (fst later)); relogged = slice_at (snd later) author
      in if own = [] \<or> relogged = [] \<or> slice_at (snd later) successor = [] \<or> slice_at (snd earlier) successor \<noteq> [] then []
         else let tookOverAt = End (last relogged); lastOwn = End (last own) in
           if lastOwn \<le> tookOverAt then []
           else Difference (Intersect (AddInterval [] author (mk_iv (i64 (tookOverAt + 1)) lastOwn)) (snd earlier)) known)"

fun check_later :: "GTIDSet \<Rightarrow> ArchiveSegment \<times> GTIDSet \<Rightarrow> (ArchiveSegment \<times> GTIDSet) list \<Rightarrow> go_error option" where
  "check_later known earlier [] = None"
| "check_later known earlier (later # rest) =
     (let dead = dead_branch known earlier later in
      if \<not> IsEmpty dead
      then Some (Wrapf ''%w: segment %s holds %s past the point segment %s took over, and no fork record explains it''
             [sg_ServerUUID (fst earlier), GTIDSet_String dead, sg_ServerUUID (fst later)] ErrForkedTimeline)
      else check_later known earlier rest)"

fun check_pairs :: "GTIDSet \<Rightarrow> (ArchiveSegment \<times> GTIDSet) list \<Rightarrow> go_error option" where
  "check_pairs known [] = None"
| "check_pairs known (earlier # rest) =
     (case check_later known earlier rest of Some err \<Rightarrow> Some err | None \<Rightarrow> check_pairs known rest)"

definition checkUnrecordedForks :: "ArchiveIndex \<Rightarrow> string \<Rightarrow> go_error option" where
  "checkUnrecordedForks idx recorded =
     (case ParseGTIDSet recorded of
        Inl err \<Rightarrow> Some (Wrapf ''binlog: parsing disowned set: %w'' [] err)
      | Inr known \<Rightarrow> (case parse_segments (ix_Segments idx) of Inl err \<Rightarrow> Some err | Inr sets \<Rightarrow> check_pairs known sets))"

definition recorded_forks :: "ArchiveIndex \<Rightarrow> string list" where
  "recorded_forks idx =
     concat (map (\<lambda>seg. case sg_Fork seg of None \<Rightarrow> [] | Some f \<Rightarrow> if af_GTIDSet f \<noteq> [] then [af_GTIDSet f] else []) (ix_Segments idx)) @
     (case ix_Disowned idx of None \<Rightarrow> [] | Some d \<Rightarrow> if ad_GTIDSet d \<noteq> [] then [ad_GTIDSet d] else [])"

definition applyMySQLForks :: "ArchiveIndex \<Rightarrow> RecoveryTarget \<Rightarrow> ReplayPlan \<Rightarrow> ReplayPlan res" where
  "applyMySQLForks idx target plan0 =
     (case UnionGTIDStrings (recorded_forks idx) of
        Inl err \<Rightarrow> Inl (Wrapf ''binlog: parsing fork records: %w'' [] err)
      | Inr allForks \<Rightarrow>
          (let plan = plan0\<lparr>pl_DisownedGTIDs := allForks\<rparr> in
           if rt_GTID target \<noteq> []
           then (case IntersectsGTIDStrings (pl_IncludeGTIDs plan) allForks of
                   Inl err \<Rightarrow> Inl (Wrapf ''binlog: comparing target with fork records: %w'' [] err)
                 | Inr mixed \<Rightarrow>
                     Inr (if mixed
                          then plan\<lparr>pl_Warnings := pl_Warnings plan @ [Sprintf
                            (''recovery targetGTID includes transactions the surviving timeline disowned (%s); '' @
                             ''together with transactions written after the failover it recovers a state that never existed'') [allForks]]\<rparr>
                          else plan))
           else (case DifferenceGTIDStrings allForks (pl_ExcludeGTIDs plan) of
                   Inl err \<Rightarrow> Inl (Wrapf ''binlog: comparing anchor with fork records: %w'' [] err)
                 | Inr onDeadBranch \<Rightarrow>
                     if onDeadBranch \<noteq> allForks
                     then Inl (Wrapf ''%w: it holds the disowned transactions %s''
                            [case DifferenceGTIDStrings allForks onDeadBranch of Inl _ \<Rightarrow> [] | Inr held \<Rightarrow> held] ErrBackupOnDeadBranch)
                     else (case UnionGTIDStrings [pl_ExcludeGTIDs plan, allForks] of
                             Inl err \<Rightarrow> Inl (Wrapf ''binlog: merging fork records into the exclude set: %w'' [] err)
                           | Inr exclude \<Rightarrow> Inr (plan\<lparr>pl_ExcludeGTIDs := exclude\<rparr>)))))"

definition PlanReplay :: "ArchiveIndex option \<Rightarrow> string \<Rightarrow> RecoveryTarget \<Rightarrow> ReplayPlan res" where
  "PlanReplay index anchorGTID target =
     bind_res (planReplayWithOps mysqlGTIDSet index anchorGTID target) (\<lambda>plan0.
       case index of
         None \<Rightarrow> Inl (Errorf ''binlog: archive index is required'' [])
       | Some idx \<Rightarrow>
           bind_res (applyMySQLForks idx target plan0) (\<lambda>plan.
             case (if rt_GTID target = [] then checkUnrecordedForks idx (pl_DisownedGTIDs plan) else None) of
               Some err \<Rightarrow> Inl err
             | None \<Rightarrow>
                 if rt_GTID target = [] \<and> rt_Time target = None
                 then (case UnionGTIDStrings (anchorGTID # map rs_GTIDSet (pl_Segments plan)) of
                         Inl err \<Rightarrow> Inl (Wrapf ''binlog: merging planned coverage: %w'' [] err)
                       | Inr un \<Rightarrow>
                           (case checkMySQLGaps anchorGTID un (pl_DisownedGTIDs plan) of Some err \<Rightarrow> Inl err | None \<Rightarrow> Inr plan))
                 else Inr plan))"

section \<open>The frontier walk, for both engines\<close>

context ops_laws
begin

text \<open>A segment is skipped only when the anchor and the segments planned before it hold all of it.\<close>

lemma plan_segments_correct:
  assumes "\<forall>seg \<in> set segs. admits (sg_GTIDSet seg) \<and> reach (sg_GTIDSet seg) = Inr (T seg)" "ok frontier"
  shows "\<exists>chosen final. plan_segments ops frontier segs = Inr (map replaySegment chosen, final) \<and> subseq chosen segs \<and> ok final \<and>
    txns final = txns frontier \<union> (\<Union>seg \<in> set chosen. T seg) \<and> txns final = txns frontier \<union> (\<Union>seg \<in> set segs. T seg)"
  using assms
proof (induction segs arbitrary: frontier)
  case (Cons seg segs)
  obtain g where g: "op_Parse ops (sg_GTIDSet seg) = Inr g" "ok g" "txns g = T seg" using Parse_Inr Cons.prems(1) by (metis list.set_intros(1))
  show ?case
  proof (cases "\<not> op_IsEmpty ops g \<and> op_Contains ops frontier g")
    case True
    then have "T seg \<subseteq> txns frontier" using Contains_law [OF Cons.prems(2) g(2)] g(3) by simp
    with Cons.IH [OF _ Cons.prems(2)] Cons.prems(1) obtain chosen final where
      "plan_segments ops frontier segs = Inr (map replaySegment chosen, final)" "subseq chosen segs" "ok final"
      "txns final = txns frontier \<union> (\<Union>seg \<in> set chosen. T seg)" "txns final = txns frontier \<union> (\<Union>seg \<in> set (seg # segs). T seg)"
      by fastforce
    then show ?thesis using True g(1) by (intro exI [of _ chosen] exI [of _ final]) (auto simp: list_emb_Cons)
  next
    case False
    have u: "ok (op_Union ops frontier g)" "txns (op_Union ops frontier g) = txns frontier \<union> T seg"
      using Union_law [OF Cons.prems(2) g(2)] g(3) by auto
    from Cons.IH [OF _ u(1)] Cons.prems(1) obtain chosen final where
      "plan_segments ops (op_Union ops frontier g) segs = Inr (map replaySegment chosen, final)" "subseq chosen segs" "ok final"
      "txns final = txns frontier \<union> T seg \<union> (\<Union>seg \<in> set chosen. T seg)" "txns final = txns frontier \<union> T seg \<union> (\<Union>seg \<in> set segs. T seg)"
      using u(2) by auto
    then show ?thesis using False g(1)
      by (intro exI [of _ "seg # chosen"] exI [of _ final]) (auto simp: bind_res_def)
  qed
qed simp

lemma applyTargetWithOps_correct:
  assumes "op_Parse ops (rt_GTID target) = Inr w" "ok f" "ok a" "ok w"
  shows "applyTargetWithOps ops f a target plan =
    (if rt_GTID target \<noteq> []
     then if \<not> txns a \<subseteq> txns w then Inl ErrTargetBeforeBackup else if \<not> txns w \<subseteq> txns f then Inl ErrTargetBeyondArchive
       else Inr (plan\<lparr>pl_IncludeGTIDs := op_String ops w\<rparr>)
     else case rt_Time target of None \<Rightarrow> Inr plan | Some t \<Rightarrow> Inr (plan\<lparr>pl_StopDatetime := stop_datetime t, pl_TargetTime := t\<rparr>))"
  using assms by (simp add: applyTargetWithOps_def Contains_law)

text \<open>What the planner decides, over the sets the strings stand for.\<close>

lemma planReplayWithOps_correct:
  assumes segs: "\<forall>seg \<in> set (ix_Segments idx). admits (sg_GTIDSet seg) \<and> reach (sg_GTIDSet seg) = Inr (T seg)"
    and A: "admits anchorGTID" "reach anchorGTID = Inr A"
    and C: "admits (ix_CoveredGTIDSet idx)" "reach (ix_CoveredGTIDSet idx) = Inr C"
    and W: "admits (rt_GTID target)" "reach (rt_GTID target) = Inr W"
    and time: "checkTimeTarget idx target = None"
  shows "let S = A \<union> (\<Union>seg \<in> set (ix_Segments idx). T seg) in
    if \<not> C \<subseteq> S then planReplayWithOps ops (Some idx) anchorGTID target = Inl ErrForkedTimeline
    else if rt_GTID target \<noteq> [] \<and> \<not> A \<subseteq> W then planReplayWithOps ops (Some idx) anchorGTID target = Inl ErrTargetBeforeBackup
    else if rt_GTID target \<noteq> [] \<and> \<not> W \<subseteq> S then planReplayWithOps ops (Some idx) anchorGTID target = Inl ErrTargetBeyondArchive
    else \<exists>plan chosen. planReplayWithOps ops (Some idx) anchorGTID target = Inr plan \<and> subseq chosen (ix_Segments idx) \<and>
      pl_Segments plan = map replaySegment chosen \<and> A \<union> (\<Union>seg \<in> set chosen. T seg) = S \<and>
      admits (pl_ExcludeGTIDs plan) \<and> reach (pl_ExcludeGTIDs plan) = Inr A \<and>
      admits (pl_IncludeGTIDs plan) \<and> (if rt_GTID target \<noteq> [] then reach (pl_IncludeGTIDs plan) = Inr W else pl_IncludeGTIDs plan = [])"
proof -
  obtain a where a: "op_Parse ops anchorGTID = Inr a" "ok a" "txns a = A" using Parse_Inr [OF A] by blast
  obtain c where c: "op_Parse ops (ix_CoveredGTIDSet idx) = Inr c" "ok c" "txns c = C" using Parse_Inr [OF C] by blast
  obtain w where w: "op_Parse ops (rt_GTID target) = Inr w" "ok w" "txns w = W" using Parse_Inr [OF W] by blast
  obtain chosen f where f: "plan_segments ops a (ix_Segments idx) = Inr (map replaySegment chosen, f)" "subseq chosen (ix_Segments idx)" "ok f"
    "txns f = A \<union> (\<Union>seg \<in> set chosen. T seg)" "txns f = A \<union> (\<Union>seg \<in> set (ix_Segments idx). T seg)"
    using plan_segments_correct [OF segs a(2)] a(3) by auto
  have k: "op_Contains ops f c \<longleftrightarrow> C \<subseteq> txns f" using Contains_law c f(3) by auto
  note t = applyTargetWithOps_correct [OF w(1) f(3) a(2) w(2)]
  have e: "ix_CoveredGTIDSet idx = [] \<Longrightarrow> C = {}" using C admits_Nil by auto
  note s = String_law [OF a(2)] String_law [OF w(2)]
  show ?thesis
    using time a w f k c e s admits_Nil
    by (auto simp: planReplayWithOps_def t zero_plan_def Let_def bind_res_def split: option.splits)
qed

end

section \<open>Gaps and forks of a MySQL recovery\<close>

text \<open>A transaction that is missing between or before transactions of \<open>R\<close>: between two of its UUID, or before the first one of
  a UUID the base backup knows nothing of.\<close>

definition skipped :: "(string \<times> int) set \<Rightarrow> (string \<times> int) set \<Rightarrow> (string \<times> int) set" where
  "skipped A R = {(u, n). (u, n) \<notin> R \<and> (\<exists>b. (u, b) \<in> R \<and> n < b) \<and>
     ((\<exists>a. (u, a) \<in> R \<and> a < n) \<or> (1 \<le> n \<and> (\<forall>a. (u, a) \<notin> A)))}"

definition set_holes :: "(string \<times> int) set \<Rightarrow> (string \<times> int) set" where
  "set_holes R = {(u, n). (u, n) \<notin> R \<and> (\<exists>a. (u, a) \<in> R \<and> a < n) \<and> (\<exists>b. (u, b) \<in> R \<and> n < b)}"

lemma slice_empty_iff: "wf_set s \<Longrightarrow> slice_at s u = [] \<longleftrightarrow> (\<forall>n. (u, n) \<notin> gtids s)"
  using ivs_set_empty [of "slice_at s u"] by (auto simp: mem_gtids normal_list_all)

lemma normal_hd: "normal ivs \<Longrightarrow> ivs \<noteq> [] \<Longrightarrow> valid_iv (hd ivs) \<and> Start (hd ivs) \<in> ivs_set ivs \<and> (\<forall>n \<in> ivs_set ivs. Start (hd ivs) \<le> n)"
  using normal_Cons_set by (cases ivs) (auto simp: normal_Cons)

lemma head_gaps_correct:
  assumes "wf_set anchor" "wf_set got" "wf_set missing"
  shows "wf_set (head_gaps anchor got missing) \<and> gtids (head_gaps anchor got missing) = gtids missing \<union>
    {(u, n). 1 \<le> n \<and> (\<forall>a. (u, a) \<notin> gtids anchor) \<and> (\<exists>b. (u, b) \<in> gtids got) \<and> (\<forall>b. (u, b) \<in> gtids got \<longrightarrow> n < b)}"
  using assms(2,3)
proof (induction got arbitrary: missing)
  case (Cons x got)
  obtain u ivs where x: "x = (u, ivs)" by force
  have w: "u \<notin> fst ` set got" "uuid_ok u" "ivs \<noteq> []" "normal ivs" "wf_set got" using Cons.prems(1) x by (auto simp: wf_set_Cons)
  note h = normal_hd [OF w(4,3)]
  have g: "gtids (x # got) = Pair u ` ivs_set ivs \<union> gtids got" using gtids_Cons Cons.prems(1) x wf_set_keys by blast
  have no: "(u, n) \<notin> gtids got" for n using w(1) gtids_key by blast
  define m where "m = (if length (slice_at anchor u) > 0 \<or> ivs = [] \<or> Start (hd ivs) \<le> 1 then missing
    else AddInterval missing u (mk_iv 1 (i64 (Start (hd ivs) - 1))))"
  have e: "slice_at anchor u = [] \<longleftrightarrow> (\<forall>n. (u, n) \<notin> gtids anchor)" by (rule slice_empty_iff [OF assms(1)])
  have i: "valid_iv (mk_iv 1 (Start (hd ivs) - 1))" "i64 (Start (hd ivs) - 1) = Start (hd ivs) - 1" if "1 < Start (hd ivs)"
    using h that by (auto simp: valid_iv_def i64_pred)
  have m: "wf_set m \<and> gtids m = gtids missing \<union> {(v, n). v = u \<and> 1 \<le> n \<and> (\<forall>a. (u, a) \<notin> gtids anchor) \<and> n < Start (hd ivs)}"
    using AddInterval_correct [OF Cons.prems(2) w(2) i(1)] i(2) Cons.prems(2) w(3) e
    by (auto simp: m_def iv_set_def) 
  have mem: "(v, b) \<in> gtids (x # got) \<longleftrightarrow> (if v = u then b \<in> ivs_set ivs else (v, b) \<in> gtids got)" for v b
    using no by (auto simp: g)
  have lt: "n < Start (hd ivs) \<longleftrightarrow> (\<forall>b. b \<in> ivs_set ivs \<longrightarrow> n < b)" for n using h by (meson order.strict_trans2)
  have ex: "\<exists>b. b \<in> ivs_set ivs" using h by blast
  have L: "{(v, n). 1 \<le> n \<and> (\<forall>a. (v, a) \<notin> gtids anchor) \<and> (\<exists>b. (v, b) \<in> gtids (x # got)) \<and> (\<forall>b. (v, b) \<in> gtids (x # got) \<longrightarrow> n < b)} =
      {(v, n). v = u \<and> 1 \<le> n \<and> (\<forall>a. (u, a) \<notin> gtids anchor) \<and> n < Start (hd ivs)} \<union>
      {(v, n). 1 \<le> n \<and> (\<forall>a. (v, a) \<notin> gtids anchor) \<and> (\<exists>b. (v, b) \<in> gtids got) \<and> (\<forall>b. (v, b) \<in> gtids got \<longrightarrow> n < b)}"
    (is "?L = ?R")
  proof (rule set_eqI)
    fix t :: "string \<times> int"
    obtain v n where t: "t = (v, n)" by force
    show "t \<in> ?L \<longleftrightarrow> t \<in> ?R" unfolding t mem lt by (cases "v = u") (simp_all add: no ex)
  qed
  have hg: "head_gaps anchor (x # got) missing = head_gaps anchor got m" by (simp add: x m_def)
  note ih = Cons.IH [OF w(5) conjunct1 [OF m]]
  show ?case unfolding hg L conjunct2 [OF ih] conjunct2 [OF m] Un_assoc using conjunct1 [OF ih] by (rule conjI) (rule refl)
qed auto

lemma skipped_eq:
  "skipped A R = set_holes R \<union> {(u, n). 1 \<le> n \<and> (\<forall>a. (u, a) \<notin> A) \<and> (\<exists>b. (u, b) \<in> R) \<and> (\<forall>b. (u, b) \<in> R \<longrightarrow> n < b)}"
proof (rule set_eqI)
  fix t :: "string \<times> int"
  obtain u n where t: "t = (u, n)" by force
  show "t \<in> skipped A R \<longleftrightarrow> t \<in> set_holes R \<union> {(u, n). 1 \<le> n \<and> (\<forall>a. (u, a) \<notin> A) \<and> (\<exists>b. (u, b) \<in> R) \<and> (\<forall>b. (u, b) \<in> R \<longrightarrow> n < b)}"
    unfolding t skipped_def set_holes_def by simp (metis linorder_neqE order_less_irrefl)
qed

lemma checkMySQLGaps_iff:
  assumes "mysql_reach anchor = Inr A" "mysql_reach result = Inr R" "mysql_reach disowned = Inr D"
  shows "checkMySQLGaps anchor result disowned = None \<longleftrightarrow> skipped A R \<subseteq> D \<union> set_holes A"
proof -
  obtain a where a: "ParseGTIDSet anchor = Inr a" "wf_set a" "A = gtids a" using assms(1) by (rule mysql_reachE)
  obtain r where r: "ParseGTIDSet result = Inr r" "wf_set r" "R = gtids r" using assms(2) by (rule mysql_reachE)
  obtain d where d: "ParseGTIDSet disowned = Inr d" "wf_set d" "D = gtids d" using assms(3) by (rule mysql_reachE)
  note ha = Holes_correct [OF a(2)] and hr = Holes_correct [OF r(2)]
  note g = head_gaps_correct [OF a(2) r(2) hr(1)]
  note u = Union_correct [OF d(2) ha(1)]
  have "gtids (head_gaps a r (Holes r)) = skipped A R"
    unfolding skipped_eq a(3) r(3) conjunct2 [OF g] hr(2) set_holes_def ..
  moreover have "gtids (Union d (Holes a)) = D \<union> set_holes A" using u ha(2) d(3) a(3) by (simp add: set_holes_def)
  moreover note Difference_correct [OF conjunct1 [OF g] u(1)]
  ultimately show ?thesis using a(1) r(1) d(1) by (auto simp: checkMySQLGaps_def Let_def IsEmpty_iff)
qed

text \<open>The transactions an index records as disowned, on its segments or for the whole archive.\<close>

definition recorded :: "ArchiveIndex \<Rightarrow> (string \<times> int) set" where
  "recorded idx = (\<Union>seg \<in> set (ix_Segments idx). fork_txns seg) \<union> disowned_txns idx"

definition archived :: "ArchiveIndex \<Rightarrow> (string \<times> int) set" where
  "archived idx = (\<Union>seg \<in> set (ix_Segments idx). seg_txns seg)"

text \<open>What a replay of the plan leaves on the server: the base backup, and of the planned files what \<open>mysqlbinlog\<close> passes
  through the exclude and the include set.\<close>

definition recovered :: "ReplayPlan \<Rightarrow> string \<Rightarrow> (string \<times> int) set" where
  "recovered plan anchor = reached (mysql_reach anchor) \<union>
     {t \<in> (\<Union>seg \<in> set (pl_Segments plan). reached (mysql_reach (rs_GTIDSet seg))).
        t \<notin> reached (mysql_reach (pl_ExcludeGTIDs plan)) \<and> (pl_IncludeGTIDs plan \<noteq> [] \<longrightarrow> t \<in> reached (mysql_reach (pl_IncludeGTIDs plan)))}"

lemma UnionGTIDStrings_canonical:
  assumes "list_all2 (\<lambda>raw A. mysql_reach raw = Inr A) raws As"
  shows "\<exists>v. UnionGTIDStrings raws = Inr (GTIDSet_String v) \<and> wf_set v \<and> gtids v = \<Union> (set As)"
proof -
  obtain out where o: "UnionGTIDStrings raws = Inr out" using UnionGTIDStrings_total [OF assms] by blast
  have "\<exists>ss. list_all2 (\<lambda>raw s. ParseGTIDSet raw = Inr s) raws ss"
    using assms by (induction rule: list_all2_induct) (auto simp: mysql_reach_Inr)
  then obtain ss where ss: "list_all2 (\<lambda>raw s. ParseGTIDSet raw = Inr s) raws ss" by blast
  obtain v where v: "union_strings [] raws = Inr v" "wf_set v" using union_strings_correct [OF ss wf_set_Nil] by blast
  then have "out = GTIDSet_String v" using o by (simp add: UnionGTIDStrings_def bind_res_def)
  then show ?thesis using UnionGTIDStrings_reach [OF o assms] v o by auto
qed

lemma recorded_forks_reach:
  assumes "mysql_index idx"
  shows "\<exists>v. UnionGTIDStrings (recorded_forks idx) = Inr (GTIDSet_String v) \<and> wf_set v \<and> gtids v = recorded idx"
proof -
  let ?f = "\<lambda>seg. case sg_Fork seg of None \<Rightarrow> [] | Some f \<Rightarrow> if af_GTIDSet f \<noteq> [] then [af_GTIDSet f] else []"
  have fk: "\<exists>As. list_all2 (\<lambda>raw A. mysql_reach raw = Inr A) (concat (map ?f segs)) As \<and> \<Union> (set As) = (\<Union>seg \<in> set segs. fork_txns seg)"
    if "\<forall>seg \<in> set segs. mysql_fork (sg_Fork seg)" for segs
    using that
  proof (induction segs)
    case (Cons seg segs)
    then obtain As where As: "list_all2 (\<lambda>raw A. mysql_reach raw = Inr A) (concat (map ?f segs)) As" "\<Union> (set As) = (\<Union>seg \<in> set segs. fork_txns seg)"
      by auto
    have F: "fork_reach (sg_Fork seg) = Inr (fork_txns seg)" using Cons.prems by (simp add: fork_txns_def mysql_fork_def)
    show ?case
    proof (cases "?f seg = []")
      case True
      then have "fork_txns seg = {}" using F by (auto simp: fork_txns_def fork_reach_def split: option.splits if_splits)
      then show ?thesis using True As by (intro exI [of _ As]) auto
    next
      case False
      then obtain f where "sg_Fork seg = Some f" "?f seg = [af_GTIDSet f]" by (auto split: option.splits if_splits)
      then show ?thesis using As F by (intro exI [of _ "fork_txns seg # As"]) (auto simp: fork_reach_def)
    qed
  qed simp
  obtain As where As: "list_all2 (\<lambda>raw A. mysql_reach raw = Inr A) (concat (map ?f (ix_Segments idx))) As"
    "\<Union> (set As) = (\<Union>seg \<in> set (ix_Segments idx). fork_txns seg)"
    using fk [of "ix_Segments idx"] assms by (auto simp: mysql_index_def)
  have D: "disowned_reach (ix_Disowned idx) = Inr (disowned_txns idx)" using assms by (simp add: mysql_index_def disowned_txns_def)
  define ds where "ds = (case ix_Disowned idx of None \<Rightarrow> [] | Some d \<Rightarrow> if ad_GTIDSet d \<noteq> [] then [ad_GTIDSet d] else [])"
  define Ds where "Ds = (if ds = [] then [] else [disowned_txns idx])"
  have "list_all2 (\<lambda>raw A. mysql_reach raw = Inr A) ds Ds" "\<Union> (set Ds) = disowned_txns idx"
    using D by (auto simp: ds_def Ds_def disowned_reach_def disowned_txns_def split: option.splits if_splits)
  then have "list_all2 (\<lambda>raw A. mysql_reach raw = Inr A) (recorded_forks idx) (As @ Ds)" "\<Union> (set (As @ Ds)) = recorded idx"
    using As by (auto simp: recorded_forks_def ds_def recorded_def intro: list_all2_appendI)
  then show ?thesis using UnionGTIDStrings_canonical by metis
qed

lemma applyMySQLForks_timeline:
  assumes "mysql_index idx" "mysql_reach (pl_ExcludeGTIDs plan) = Inr A" "rt_GTID target = []"
  shows "if A \<inter> recorded idx = {} then \<exists>plan'. applyMySQLForks idx target plan = Inr plan' \<and> pl_Segments plan' = pl_Segments plan \<and>
      pl_IncludeGTIDs plan' = pl_IncludeGTIDs plan \<and> mysql_reach (pl_ExcludeGTIDs plan') = Inr (A \<union> recorded idx) \<and>
      mysql_reach (pl_DisownedGTIDs plan') = Inr (recorded idx)
    else \<exists>err. applyMySQLForks idx target plan = Inl err \<and> errors_Is err ErrBackupOnDeadBranch"
proof -
  obtain v where v: "UnionGTIDStrings (recorded_forks idx) = Inr (GTIDSet_String v)" "wf_set v" "gtids v = recorded idx"
    using recorded_forks_reach [OF assms(1)] by blast
  obtain v' where v': "ParseGTIDSet (GTIDSet_String v) = Inr v'" "wf_set v'" "gtids v' = recorded idx" using parse_print [OF v(2)] v(3) by auto
  obtain a where a: "ParseGTIDSet (pl_ExcludeGTIDs plan) = Inr a" "wf_set a" "A = gtids a" using assms(2) by (rule mysql_reachE)
  have d: "DifferenceGTIDStrings (GTIDSet_String v) (pl_ExcludeGTIDs plan) = Inr (GTIDSet_String (Difference v' a))"
    using v'(1) a(1) by (simp add: DifferenceGTIDStrings_def)
  have e: "GTIDSet_String (Difference v' a) \<noteq> GTIDSet_String v \<longleftrightarrow> A \<inter> recorded idx \<noteq> {}"
    using GTIDSet_String_eq_iff [OF Difference_correct(1) [OF v'(2) a(2)] v(2)] Difference_correct(2) [OF v'(2) a(2)] v(3) v'(3) a(3) by auto
  obtain x where x: "UnionGTIDStrings [pl_ExcludeGTIDs plan, GTIDSet_String v] = Inr x" "mysql_reach x = Inr (A \<union> recorded idx)"
    using UnionGTIDStrings_total [of "[pl_ExcludeGTIDs plan, GTIDSet_String v]" "[A, recorded idx]"]
      UnionGTIDStrings_reach [of "[pl_ExcludeGTIDs plan, GTIDSet_String v]" _ "[A, recorded idx]"] assms(2) v(2,3) by auto
  show ?thesis
    using v d e x assms(3) by (auto simp: applyMySQLForks_def Let_def)
qed

lemma mysql_index_segs: "mysql_index idx \<Longrightarrow> \<forall>seg \<in> set (ix_Segments idx). True \<and> mysql_reach (sg_GTIDSet seg) = Inr (seg_txns seg)"
  by (simp add: mysql_index_def seg_txns_def)

lemma planned_txns:
  assumes "mysql_index idx" "subseq chosen (ix_Segments idx)" "pl_Segments plan = map replaySegment chosen"
  shows "(\<Union>seg \<in> set (pl_Segments plan). reached (mysql_reach (rs_GTIDSet seg))) = (\<Union>seg \<in> set chosen. seg_txns seg)"
    "list_all2 (\<lambda>raw A. mysql_reach raw = Inr A) (map rs_GTIDSet (pl_Segments plan)) (map seg_txns chosen)"
proof -
  have "set chosen \<subseteq> set (ix_Segments idx)" using assms(2) by (auto simp: subset_iff dest: list_emb_set)
  then have "\<forall>seg \<in> set chosen. mysql_reach (sg_GTIDSet seg) = Inr (seg_txns seg)" using mysql_index_segs [OF assms(1)] by blast
  then show "list_all2 (\<lambda>raw A. mysql_reach raw = Inr A) (map rs_GTIDSet (pl_Segments plan)) (map seg_txns chosen)"
    using assms(3) by (auto simp: replaySegment_def list_all2_conv_all_nth)
qed (simp add: assms(3) replaySegment_def seg_txns_def)

text \<open>C1. A recovery of a MySQL cluster to a time or to the latest point replays the surviving timeline and nothing else.
  Whenever \<open>PlanReplay\<close> returns a plan, the base backup holds no transaction the archive records as disowned, and what the
  plan lets through on top of the backup is everything archived that is not recorded as disowned. A plan for the latest point
  crosses no gap either: a transaction missing below one it covers is disowned or was missing from the backup itself.\<close>

theorem replay_recovers_timeline:
  assumes "mysql_index idx" "mysql_reach anchor = Inr A" "mysql_reach (ix_CoveredGTIDSet idx) = Inr C"
    "rt_GTID target = []" "PlanReplay (Some idx) anchor target = Inr plan"
  shows "A \<inter> recorded idx = {} \<and> recovered plan anchor = (A \<union> archived idx) - recorded idx \<and> C \<subseteq> A \<union> archived idx \<and>
    (rt_Time target = None \<longrightarrow> skipped A (A \<union> archived idx) \<subseteq> recorded idx \<union> set_holes A)"
proof -
  obtain plan0 where p0: "planReplayWithOps mysqlGTIDSet (Some idx) anchor target = Inr plan0"
    using assms(5) by (auto simp: PlanReplay_def go_simps)
  then have t: "checkTimeTarget idx target = None" by (auto simp: planReplayWithOps_def split: option.splits)
  obtain chosen where c: "C \<subseteq> A \<union> archived idx" "subseq chosen (ix_Segments idx)" "pl_Segments plan0 = map replaySegment chosen"
    "A \<union> (\<Union>seg \<in> set chosen. seg_txns seg) = A \<union> archived idx" "mysql_reach (pl_ExcludeGTIDs plan0) = Inr A" "pl_IncludeGTIDs plan0 = []"
    using mysql_ops.planReplayWithOps_correct [OF mysql_index_segs [OF assms(1)] TrueI assms(2) TrueI assms(3) TrueI _ t, of "{}"]
      p0 assms(4) by (auto simp: archived_def Let_def split: if_splits)
  obtain plan1 where p1: "applyMySQLForks idx target plan0 = Inr plan1" and p: "plan = plan1"
    using assms(5) p0 by (auto simp: PlanReplay_def bind_res_def split: sum.splits option.splits if_splits)
  have f: "A \<inter> recorded idx = {}" "pl_Segments plan = pl_Segments plan0" "pl_IncludeGTIDs plan = []"
    "mysql_reach (pl_ExcludeGTIDs plan) = Inr (A \<union> recorded idx)" "mysql_reach (pl_DisownedGTIDs plan) = Inr (recorded idx)"
    using applyMySQLForks_timeline [OF assms(1) c(5) assms(4)] p1 p c(6) by (auto split: if_splits)
  note pt = planned_txns [OF assms(1) c(2), of plan] 
  have "recovered plan anchor = (A \<union> archived idx) - recorded idx"
    unfolding recovered_def using pt(1) f c(3,4) assms(2) by auto
  moreover have "skipped A (A \<union> archived idx) \<subseteq> recorded idx \<union> set_holes A" if "rt_Time target = None"
  proof -
    have l: "list_all2 (\<lambda>raw A. mysql_reach raw = Inr A) (anchor # map rs_GTIDSet (pl_Segments plan)) (A # map seg_txns chosen)"
      using pt(2) f(2) c(3) assms(2) by simp
    obtain un where u: "UnionGTIDStrings (anchor # map rs_GTIDSet (pl_Segments plan)) = Inr un" using UnionGTIDStrings_total [OF l] by blast
    have "mysql_reach un = Inr (A \<union> archived idx)" using UnionGTIDStrings_reach [OF u l] c(4) by simp
    moreover have "checkMySQLGaps anchor un (pl_DisownedGTIDs plan) = None"
      using assms(4,5) p0 p1 p u that by (auto simp: PlanReplay_def bind_res_def split: option.splits)
    ultimately show ?thesis using checkMySQLGaps_iff [OF assms(2) _ f(5)] by blast
  qed
  ultimately show ?thesis using f(1) c(1) by blast
qed

lemma IntersectsGTIDStrings_reach:
  "mysql_reach a = Inr A \<Longrightarrow> mysql_reach b = Inr B \<Longrightarrow> IntersectsGTIDStrings a b = Inr (A \<inter> B \<noteq> {})"
  by (auto simp: IntersectsGTIDStrings_def Equal_iff Difference_correct elim!: mysql_reachE)

text \<open>C2. A recovery of a MySQL cluster to a GTID set reaches exactly that set. On a readable, coherent archive \<open>PlanReplay\<close>
  refuses a target that lacks a transaction of the base backup as older than the backup and one that names a transaction
  neither the backup nor the archive holds as beyond the archive; otherwise it returns a plan whose replay leaves exactly the
  target, and the plan warns exactly when the target names a disowned transaction.\<close>

theorem replay_target_exact:
  assumes "mysql_index idx" "mysql_reach anchor = Inr A" "mysql_reach (ix_CoveredGTIDSet idx) = Inr C" "C \<subseteq> A \<union> archived idx"
    "rt_GTID target \<noteq> []" "mysql_reach (rt_GTID target) = Inr W" "W \<noteq> {}" "rt_Time target = None"
  shows "if \<not> A \<subseteq> W then PlanReplay (Some idx) anchor target = Inl ErrTargetBeforeBackup
    else if \<not> W \<subseteq> A \<union> archived idx then PlanReplay (Some idx) anchor target = Inl ErrTargetBeyondArchive
    else \<exists>plan. PlanReplay (Some idx) anchor target = Inr plan \<and> recovered plan anchor = W \<and>
      (pl_Warnings plan \<noteq> [] \<longleftrightarrow> W \<inter> recorded idx \<noteq> {})"
proof (cases "A \<subseteq> W \<and> W \<subseteq> A \<union> archived idx")
  case False
  have t: "checkTimeTarget idx target = None" using assms(8) by (simp add: checkTimeTarget_def)
  show ?thesis
    using False mysql_ops.planReplayWithOps_correct [OF mysql_index_segs [OF assms(1)] TrueI assms(2) TrueI assms(3) TrueI assms(6) t] assms(4,5)
    by (auto simp: archived_def PlanReplay_def bind_res_def Let_def split: if_splits)
next
  case True
  have t: "checkTimeTarget idx target = None" using assms(8) by (simp add: checkTimeTarget_def)
  obtain plan0 chosen where p0: "planReplayWithOps mysqlGTIDSet (Some idx) anchor target = Inr plan0"
    and c: "subseq chosen (ix_Segments idx)" "pl_Segments plan0 = map replaySegment chosen"
    "A \<union> (\<Union>seg \<in> set chosen. seg_txns seg) = A \<union> archived idx" "mysql_reach (pl_ExcludeGTIDs plan0) = Inr A" "mysql_reach (pl_IncludeGTIDs plan0) = Inr W"
    using True mysql_ops.planReplayWithOps_correct [OF mysql_index_segs [OF assms(1)] TrueI assms(2) TrueI assms(3) TrueI assms(6) t] assms(4,5)
    by (auto simp: archived_def Let_def split: if_splits)
  have w: "pl_Warnings plan0 = []" using p0 assms(5)
    by (auto simp: planReplayWithOps_def applyTargetWithOps_def zero_plan_def Let_def bind_res_def split: option.splits sum.splits if_splits)
  obtain v where v: "UnionGTIDStrings (recorded_forks idx) = Inr (GTIDSet_String v)" "wf_set v" "gtids v = recorded idx"
    using recorded_forks_reach [OF assms(1)] by blast
  have i: "IntersectsGTIDStrings (pl_IncludeGTIDs plan0) (GTIDSet_String v) = Inr (W \<inter> recorded idx \<noteq> {})"
    using IntersectsGTIDStrings_reach [OF c(5)] v by simp
  obtain plan where p: "PlanReplay (Some idx) anchor target = Inr plan" "pl_Segments plan = pl_Segments plan0" "pl_ExcludeGTIDs plan = pl_ExcludeGTIDs plan0"
    "pl_IncludeGTIDs plan = pl_IncludeGTIDs plan0" "pl_Warnings plan \<noteq> [] \<longleftrightarrow> W \<inter> recorded idx \<noteq> {}"
    using p0 v(1) i assms(5) w by (simp add: PlanReplay_def bind_res_def applyMySQLForks_def Let_def split: if_splits)
  have "pl_IncludeGTIDs plan \<noteq> []" using c(5) p(4) assms(7) by auto
  then have "recovered plan anchor = W"
    unfolding recovered_def using planned_txns(1) [OF assms(1) c(1), of plan] p c assms(2) True by auto
  then show ?thesis using True p by auto
qed

section \<open>Witnesses\<close>

definition wit_replay_segment :: "string \<Rightarrow> string \<Rightarrow> ArchiveFork option \<Rightarrow> ArchiveSegment" where
  "wit_replay_segment uuid gset fork = \<lparr>sg_ServerUUID = uuid, sg_InstanceName = ''db'', sg_Binlogs = [''bin.1''], sg_GTIDSet = gset,
     sg_StartGTIDSet = [], sg_Fork = fork, sg_StartedAt = 1, sg_EndedAt = 2\<rparr>"

text \<open>Server \<open>cd\<close> took over after \<open>ab:4\<close>; the archive records \<open>ab:5\<close> as disowned.\<close>

definition wit_replay_index :: ArchiveIndex where
  "wit_replay_index = zero_index\<lparr>ix_Segments := [wit_replay_segment ''ab'' ''ab:1-5'' (Some (new_fork\<lparr>af_GTIDSet := ''ab:5''\<rparr>)),
     wit_replay_segment ''cd'' ''ab:1-4,cd:1-3'' None], ix_CoveredGTIDSet := ''ab:1-5,cd:1-3''\<rparr>"

definition latest :: RecoveryTarget where
  "latest = \<lparr>rt_Time = None, rt_GTID = [], rt_Immediate = False\<rparr>"

lemma wit_replay_sets:
  "ParseGTIDSet ''ab:1-5'' = Inr [(''ab'', [mk_iv 1 5])]" "ParseGTIDSet ''ab:5'' = Inr [(''ab'', [mk_iv 5 5])]"
  "ParseGTIDSet ''ab:1-4,cd:1-3'' = Inr [(''ab'', [mk_iv 1 4]), (''cd'', [mk_iv 1 3])]"
  "ParseGTIDSet ''ab:1-5,cd:1-3'' = Inr [(''ab'', [mk_iv 1 5]), (''cd'', [mk_iv 1 3])]"
  "ParseGTIDSet ''ab:1-2'' = Inr [(''ab'', [mk_iv 1 2])]" "ParseGTIDSet ''ab:1-4,cd:1-2'' = Inr [(''ab'', [mk_iv 1 4]), (''cd'', [mk_iv 1 2])]"
  by code_simp+

lemma wit_replay_index_ok: "mysql_index wit_replay_index"
  by (simp add: mysql_index_def wit_replay_index_def wit_replay_segment_def zero_index_def mysql_fork_def fork_reach_def disowned_reach_def
      mysql_reach_def wit_replay_sets new_fork_def)

lemma replay_recovers_timeline_witness:
  "\<exists>plan. PlanReplay (Some wit_replay_index) ''ab:1-2'' latest = Inr plan \<and>
     recovered plan ''ab:1-2'' = (gtids [(''ab'', [mk_iv 1 2])] \<union> archived wit_replay_index) - recorded wit_replay_index \<and>
     (''ab'', 5) \<in> recorded wit_replay_index"
proof -
  have "is_ok (PlanReplay (Some wit_replay_index) ''ab:1-2'' latest)" by code_simp
  then obtain plan where p: "PlanReplay (Some wit_replay_index) ''ab:1-2'' latest = Inr plan" by (rule is_okE)
  have r: "mysql_reach ''ab:1-2'' = Inr (gtids [(''ab'', [mk_iv 1 2])])"
    "mysql_reach (ix_CoveredGTIDSet wit_replay_index) = Inr (gtids [(''ab'', [mk_iv 1 5]), (''cd'', [mk_iv 1 3])])"
    by (simp_all add: mysql_reach_def wit_replay_sets wit_replay_index_def)
  have "rt_GTID latest = []" by (simp add: latest_def)
  from replay_recovers_timeline [OF wit_replay_index_ok r this p]
  show ?thesis using p by (auto simp: recorded_def fork_txns_def wit_replay_index_def wit_replay_segment_def fork_reach_def mysql_reach_def
    wit_replay_sets new_fork_def gtids_def slice_at_def iv_set_def)
qed

lemma replay_target_exact_witness:
  "\<exists>plan. PlanReplay (Some wit_replay_index) ''ab:1-2'' (latest\<lparr>rt_GTID := ''ab:1-4,cd:1-2''\<rparr>) = Inr plan \<and>
     recovered plan ''ab:1-2'' = gtids [(''ab'', [mk_iv 1 4]), (''cd'', [mk_iv 1 2])]"
proof -
  let ?W = "gtids [(''ab'', [mk_iv 1 4]), (''cd'', [mk_iv 1 2])]" and ?A = "gtids [(''ab'', [mk_iv 1 2])]"
  have r: "mysql_reach ''ab:1-2'' = Inr ?A"
    "mysql_reach (ix_CoveredGTIDSet wit_replay_index) = Inr (gtids [(''ab'', [mk_iv 1 5]), (''cd'', [mk_iv 1 3])])"
    "mysql_reach (rt_GTID (latest\<lparr>rt_GTID := ''ab:1-4,cd:1-2''\<rparr>)) = Inr ?W"
    by (simp_all add: mysql_reach_def wit_replay_sets wit_replay_index_def)
  have a: "archived wit_replay_index = gtids [(''ab'', [mk_iv 1 5])] \<union> gtids [(''ab'', [mk_iv 1 4]), (''cd'', [mk_iv 1 3])]"
    by (simp add: archived_def seg_txns_def wit_replay_index_def wit_replay_segment_def mysql_reach_def wit_replay_sets)
  have g: "gtids [(''ab'', [mk_iv a b]), (''cd'', [mk_iv c d])] = {(u, n). u = ''ab'' \<and> a \<le> n \<and> n \<le> b \<or> u = ''cd'' \<and> c \<le> n \<and> n \<le> d}"
    "gtids [(''ab'', [mk_iv a b])] = {(u, n). u = ''ab'' \<and> a \<le> n \<and> n \<le> b}" for a b c d
    by (auto simp: gtids_def slice_at_def iv_set_def split: if_splits)
  have "(''ab'', 1) \<in> ?W" unfolding g by simp
  then have "?W \<noteq> {}" by blast
  moreover have "?A \<subseteq> ?W" "?W \<subseteq> ?A \<union> archived wit_replay_index"
    "gtids [(''ab'', [mk_iv 1 5]), (''cd'', [mk_iv 1 3])] \<subseteq> ?A \<union> archived wit_replay_index"
    unfolding a g by auto
  ultimately show ?thesis
    using replay_target_exact [OF wit_replay_index_ok r(1,2) _ _ r(3)] by (auto simp: latest_def)
qed

end
