(* ===== verification/Mariadb_Replay.thy ===== *)
theory Mariadb_Replay
  imports Archive_Replay
begin

text \<open>
  The positional replay of a MariaDB recovery (\<open>pkg/management/mysql/binlog/replay_mariadb_forks.go\<close> and the end of
  \<open>replay.go\<close>). \<open>mariadb-binlog\<close> cannot filter by GTID, so the replay is bounded by byte offsets: segments are selected
  by a greedy cover of the sequences, the downloaded files are cut at the recorded forks, and the transactions of one domain
  are replayed in chunks of files with a start and a stop offset. The theorems show that the chunks replay the sequences
  exactly once and in order, that the selection covers what it has to, and that the cuts leave no disowned transaction.
\<close>

section \<open>Positions\<close>

definition SingleDomainMariaGTID :: "string \<Rightarrow> (nat \<times> nat) option res" where
  "SingleDomainMariaGTID pos =
     (let cleaned = filter (\<lambda>r. r \<notin> {CHR '' '', CHR 0x0A, CHR 0x0D, CHR 0x09}) pos in
      if cleaned = [] then Inr None
      else let triples = split_on CHR '','' cleaned in
        if length triples \<noteq> 1
        then Inl (Errorf ''binlog: multi-domain MariaDB GTID %q is not supported for positional recovery'' [pos])
        else let parts = split_on CHR ''-'' (hd triples) in
          if length parts \<noteq> 3 then Inl (Errorf ''binlog: invalid MariaDB GTID %q: want domain-server-seq'' [pos])
          else (case ParseUint (parts ! 0) 32 of
                  Inl err \<Rightarrow> Inl (Wrapf ''binlog: invalid MariaDB GTID domain in %q: %w'' [pos] err)
                | Inr d \<Rightarrow>
                    (case ParseUint (parts ! 2) 64 of
                       Inl err \<Rightarrow> Inl (Wrapf ''binlog: invalid MariaDB GTID sequence in %q: %w'' [pos] err)
                     | Inr s \<Rightarrow> Inr (Some (d, s)))))"

record TxnBoundary =
  tb_Domain :: nat
  tb_Server :: nat
  tb_Seq :: nat
  tb_StartPos :: int
  tb_Time :: gotime

fun anchor_seq :: "TxnBoundary list \<Rightarrow> nat \<Rightarrow> int \<Rightarrow> nat \<Rightarrow> nat" where
  "anchor_seq [] domain pos seq = seq"
| "anchor_seq (b # bs) domain pos seq =
     anchor_seq bs domain pos (if tb_Domain b = domain \<and> tb_StartPos b < pos \<and> tb_Seq b > seq then tb_Seq b else seq)"

definition AnchorSeqFromBoundaries :: "TxnBoundary list \<Rightarrow> nat \<Rightarrow> int \<Rightarrow> nat" where
  "AnchorSeqFromBoundaries boundaries domain pos = anchor_seq boundaries domain pos 0"

section \<open>Selecting segments\<close>

record seg_interval =
  iv_seg :: ArchiveSegment
  iv_start :: nat
  iv_end :: nat

definition seg_intervals :: "ArchiveSegment list \<Rightarrow> nat \<Rightarrow> seg_interval list" where
  "seg_intervals segs domain =
     concat (map (\<lambda>seg. let stop = MariaSeqForDomain (sg_GTIDSet seg) domain; s = MariaSeqForDomain (sg_StartGTIDSet seg) domain in
       if stop = 0 then [] else [\<lparr>iv_seg = seg, iv_start = (if s = 0 then 1 else s), iv_end = stop\<rparr>]) segs)"

text \<open>The two scans for the next segment, over the intervals not yet used: the one that reaches furthest among those that continue
  what is covered, and at the leading edge the one that starts first. The first of equals wins.\<close>

fun best_reach :: "nat \<Rightarrow> seg_interval option \<Rightarrow> seg_interval list \<Rightarrow> seg_interval option" where
  "best_reach current best [] = best"
| "best_reach current best (v # ivs) =
     best_reach current
       (if iv_end v \<le> current \<or> iv_start v > u64 (int current + 1) then best
        else case best of None \<Rightarrow> Some v | Some b \<Rightarrow> if iv_end v > iv_end b then Some v else best) ivs"

fun best_start :: "nat \<Rightarrow> seg_interval option \<Rightarrow> seg_interval list \<Rightarrow> seg_interval option" where
  "best_start current best [] = best"
| "best_start current best (v # ivs) =
     best_start current
       (if iv_end v \<le> current then best
        else case best of None \<Rightarrow> Some v | Some b \<Rightarrow> if iv_start v < iv_start b then Some v else best) ivs"

text \<open>The loop, with the unused intervals: an interval once taken ends at or below what is covered, so it is never taken again
  and the source's flags are the removal of the taken one. Each round uses one interval, so as many rounds as intervals and
  one more are enough.\<close>

fun select_loop :: "nat \<Rightarrow> seg_interval list \<Rightarrow> nat \<Rightarrow> nat \<Rightarrow> bool \<Rightarrow> ReplaySegment list option res" where
  "select_loop 0 ivs current targetSeq first = Inr None"
| "select_loop (Suc fuel) ivs current targetSeq first =
     (if \<not> current < targetSeq then Inr (Some [])
      else case (case best_reach current None ivs of
                   None \<Rightarrow> if first then best_start current None ivs else None
                 | Some v \<Rightarrow> Some v) of
             None \<Rightarrow> Inl ErrForkedTimeline
           | Some v \<Rightarrow>
               bind_res (select_loop fuel (remove1 v ivs) (iv_end v) targetSeq False) (\<lambda>rest.
                 Inr (map_option (\<lambda>rs. replaySegment (iv_seg v) # rs) rest)))"

definition SelectMariadbSegments :: "ArchiveSegment list \<Rightarrow> nat \<Rightarrow> nat \<Rightarrow> nat \<Rightarrow> ReplaySegment list option res" where
  "SelectMariadbSegments segments domain anchorSeq targetSeq =
     (if targetSeq \<le> anchorSeq then Inr (Some [])
      else let ivs = seg_intervals segments domain in
        if fold max (map iv_end ivs) 0 < targetSeq then Inl ErrTargetBeyondArchive
        else select_loop (Suc (length ivs)) ivs anchorSeq targetSeq True)"

section \<open>Files and forks\<close>

record PositionalFile =
  pf_Path :: string
  pf_Segment :: string
  pf_Boundaries :: "TxnBoundary list"
  pf_EndPos :: int

record ReplayChunk =
  ch_Files :: "string list"
  ch_StartPosition :: int
  ch_StopPosition :: int

fun file_stats :: "TxnBoundary list \<Rightarrow> nat \<Rightarrow> (nat \<times> nat) option \<Rightarrow> (nat \<times> nat) option" where
  "file_stats [] domain stats = stats"
| "file_stats (b # bs) domain stats =
     file_stats bs domain
       (if tb_Domain b \<noteq> domain then stats
        else case stats of
               None \<Rightarrow> Some (tb_Seq b, tb_Seq b)
             | Some (minSeq, maxSeq) \<Rightarrow>
                 Some (if tb_Seq b < minSeq then tb_Seq b else minSeq, if tb_Seq b > maxSeq then tb_Seq b else maxSeq))"

text \<open>The minimum and maximum, if the file carries the domain at all.\<close>

definition domainFileStats :: "TxnBoundary list \<Rightarrow> nat \<Rightarrow> (nat \<times> nat) option" where
  "domainFileStats bs domain = file_stats bs domain None"

fun firstAfterInFile :: "TxnBoundary list \<Rightarrow> nat \<Rightarrow> nat \<Rightarrow> int option" where
  "firstAfterInFile [] domain seq = None"
| "firstAfterInFile (b # bs) domain seq =
     (if tb_Domain b = domain \<and> tb_Seq b > seq then Some (tb_StartPos b) else firstAfterInFile bs domain seq)"

definition segmentAuthor :: "ReplaySegment \<Rightarrow> nat \<Rightarrow> (nat \<times> nat) option" where
  "segmentAuthor seg domain =
     (case ParseMariaDBPosition (rs_GTIDSet seg) of
        Inl err \<Rightarrow> None
      | Inr gs \<Rightarrow> map_option (\<lambda>g. (mg_Server g, mg_Seq g)) (find (\<lambda>g. mg_Domain g = domain) gs))"

definition forkCut :: "ReplaySegment \<Rightarrow> nat \<Rightarrow> nat option" where
  "forkCut seg domain = (case rs_Fork seg of None \<Rightarrow> None | Some fork \<Rightarrow> map_of (af_AfterSeq fork) domain)"

fun holder_loop :: "ReplaySegment list \<Rightarrow> nat \<Rightarrow> MariaDBGTID \<Rightarrow> string \<times> nat" where
  "holder_loop [] domain target = ([], 0)"
| "holder_loop (seg # segs) domain target =
     (case forkCut seg domain of
        None \<Rightarrow> holder_loop segs domain target
      | Some c \<Rightarrow>
          (case segmentAuthor seg domain of
             None \<Rightarrow> holder_loop segs domain target
           | Some (server, stop) \<Rightarrow>
               if server = mg_Server target \<and> mg_Seq target > c \<and> mg_Seq target \<le> stop then (rs_ServerUUID seg, c)
               else holder_loop segs domain target))"

definition branchHolder :: "ReplaySegment list \<Rightarrow> nat \<Rightarrow> MariaDBGTID option \<Rightarrow> string \<times> nat" where
  "branchHolder segs domain target = (case target of None \<Rightarrow> ([], 0) | Some g \<Rightarrow> holder_loop segs domain g)"

fun fork_cuts :: "ReplaySegment list \<Rightarrow> nat \<Rightarrow> string \<Rightarrow> nat \<Rightarrow> (string, nat) gomap \<Rightarrow> (string, nat) gomap" where
  "fork_cuts [] domain holder branchCut cuts = cuts"
| "fork_cuts (seg # segs) domain holder branchCut cuts =
     fork_cuts segs domain holder branchCut
       (if holder \<noteq> []
        then (if rs_ServerUUID seg \<noteq> holder
              then AList.update (rs_ServerUUID seg)
                     (case forkCut seg domain of Some own \<Rightarrow> if own < branchCut then own else branchCut | None \<Rightarrow> branchCut) cuts
              else cuts)
        else case forkCut seg domain of Some c \<Rightarrow> AList.update (rs_ServerUUID seg) c cuts | None \<Rightarrow> cuts)"

definition disowned_at :: "nat \<Rightarrow> nat \<Rightarrow> TxnBoundary \<Rightarrow> bool" where
  "disowned_at domain c b \<longleftrightarrow> tb_Domain b = domain \<and> tb_Seq b > c"

fun cut_files :: "(string, nat) gomap \<Rightarrow> nat \<Rightarrow> PositionalFile list \<Rightarrow> string list \<Rightarrow> PositionalFile list" where
  "cut_files cuts domain [] exhausted = []"
| "cut_files cuts domain (f # files) exhausted =
     (case map_of cuts (pf_Segment f) of
        None \<Rightarrow> f # cut_files cuts domain files exhausted
      | Some c \<Rightarrow>
          if pf_Segment f \<in> set exhausted then cut_files cuts domain files exhausted
          else (case dropWhile (\<lambda>b. \<not> disowned_at domain c b) (pf_Boundaries f) of
                  [] \<Rightarrow> f # cut_files cuts domain files exhausted
                | first # _ \<Rightarrow>
                    (let kept = takeWhile (\<lambda>b. \<not> disowned_at domain c b) (pf_Boundaries f);
                         rest = cut_files cuts domain files (pf_Segment f # exhausted)
                     in if domainFileStats kept domain = None then rest
                        else f\<lparr>pf_EndPos := tb_StartPos first, pf_Boundaries := kept\<rparr> # rest)))"

definition ApplyMariadbForks :: "PositionalFile list \<Rightarrow> ReplaySegment list \<Rightarrow> nat \<Rightarrow> MariaDBGTID option \<Rightarrow> PositionalFile list res" where
  "ApplyMariadbForks files segs domain target =
     (case branchHolder segs domain target of (holder, branchCut) \<Rightarrow>
        Inr (cut_files (fork_cuts segs domain holder branchCut []) domain files []))"

fun check_authors :: "TxnBoundary list \<Rightarrow> nat \<Rightarrow> nat \<Rightarrow> (nat, nat) gomap \<Rightarrow> (nat, nat) gomap res" where
  "check_authors [] domain anchorSeq authors = Inr authors"
| "check_authors (b # bs) domain anchorSeq authors =
     (if tb_Domain b \<noteq> domain \<or> tb_Seq b \<le> anchorSeq then check_authors bs domain anchorSeq authors
      else case map_of authors (tb_Seq b) of
             Some server \<Rightarrow>
               if server \<noteq> tb_Server b
               then Inl (Wrapf ''%w: servers %d and %d both wrote %d-*-%d and no fork record explains it''
                      [FormatUint server, FormatUint (tb_Server b), FormatUint domain, FormatUint (tb_Seq b)] ErrForkedTimeline)
               else check_authors bs domain anchorSeq (AList.update (tb_Seq b) (tb_Server b) authors)
           | None \<Rightarrow> check_authors bs domain anchorSeq (AList.update (tb_Seq b) (tb_Server b) authors))"

definition CheckMariadbAuthors :: "PositionalFile list \<Rightarrow> nat \<Rightarrow> nat \<Rightarrow> go_error option" where
  "CheckMariadbAuthors files domain anchorSeq =
     (case check_authors (concat (map pf_Boundaries files)) domain anchorSeq [] of Inl err \<Rightarrow> Some err | Inr _ \<Rightarrow> None)"

section \<open>Time and latest targets\<close>

fun first_stamped :: "TxnBoundary list \<Rightarrow> nat \<Rightarrow> nat \<Rightarrow> gotime \<Rightarrow> nat \<Rightarrow> nat" where
  "first_stamped [] domain anchorSeq target first = first"
| "first_stamped (b # bs) domain anchorSeq target first =
     first_stamped bs domain anchorSeq target
       (if tb_Domain b = domain \<and> tb_Seq b > anchorSeq \<and> tb_Time b \<noteq> zero_time \<and> \<not> tb_Time b < target \<and> tb_Seq b < first
        then tb_Seq b else first)"

fun last_before :: "TxnBoundary list \<Rightarrow> nat \<Rightarrow> nat \<Rightarrow> nat \<Rightarrow> nat" where
  "last_before [] domain first before = before"
| "last_before (b # bs) domain first before =
     last_before bs domain first (if tb_Domain b = domain \<and> tb_Seq b > before \<and> tb_Seq b < first then tb_Seq b else before)"

definition seqBeforeTime :: "PositionalFile list \<Rightarrow> nat \<Rightarrow> nat \<Rightarrow> nat \<Rightarrow> gotime \<Rightarrow> nat" where
  "seqBeforeTime files domain anchorSeq highest target =
     (let bs = concat (map pf_Boundaries files)
      in last_before bs domain (first_stamped bs domain anchorSeq target (u64 (int highest + 1))) anchorSeq)"

fun highest_loop :: "PositionalFile list \<Rightarrow> nat \<Rightarrow> nat option \<Rightarrow> nat option" where
  "highest_loop [] domain highest = highest"
| "highest_loop (f # files) domain highest =
     highest_loop files domain
       (case domainFileStats (pf_Boundaries f) domain of
          None \<Rightarrow> highest
        | Some (_, maxSeq) \<Rightarrow> (case highest of None \<Rightarrow> Some maxSeq | Some h \<Rightarrow> if maxSeq > h then Some maxSeq else highest))"

definition HighestMariadbSeq :: "PositionalFile list \<Rightarrow> nat \<Rightarrow> nat option" where
  "HighestMariadbSeq files domain = highest_loop files domain None"

section \<open>Chunks\<close>

definition file_key :: "nat \<Rightarrow> PositionalFile \<Rightarrow> nat \<times> nat" where
  "file_key domain f = (case domainFileStats (pf_Boundaries f) domain of Some (minSeq, _) \<Rightarrow> (0, minSeq) | None \<Rightarrow> (1, 0))"

definition sortFilesByDomainSeq :: "PositionalFile list \<Rightarrow> nat \<Rightarrow> PositionalFile list" where
  "sortFilesByDomainSeq files domain = sort_key (snd \<circ> file_key domain) (filter (\<lambda>f. fst (file_key domain f) = 0) files) @
     filter (\<lambda>f. fst (file_key domain f) = 1) files"

definition flush :: "ReplayChunk list \<Rightarrow> ReplayChunk option \<Rightarrow> ReplayChunk list" where
  "flush chunks cur = (case cur of None \<Rightarrow> chunks | Some c \<Rightarrow> chunks @ [c])"

definition start_after :: "PositionalFile \<Rightarrow> nat \<Rightarrow> nat \<Rightarrow> int" where
  "start_after f domain seq = (case firstAfterInFile (pf_Boundaries f) domain seq of Some p \<Rightarrow> p | None \<Rightarrow> 0)"

definition target_chunk :: "PositionalFile \<Rightarrow> nat \<Rightarrow> nat \<Rightarrow> nat \<Rightarrow> bool \<Rightarrow> bool \<Rightarrow> ReplayChunk list \<Rightarrow> ReplayChunk option \<Rightarrow> ReplayChunk list" where
  "target_chunk f domain targetSeq applied overlap firstReplayed chunks cur =
     (let stop = (case firstAfterInFile (pf_Boundaries f) domain targetSeq of
                    Some p \<Rightarrow> Some p
                  | None \<Rightarrow> if pf_EndPos f > 0 then Some (pf_EndPos f) else None)
      in case (stop, cur, overlap) of
           (None, Some c, False) \<Rightarrow> flush chunks (Some (c\<lparr>ch_Files := ch_Files c @ [pf_Path f]\<rparr>))
         | _ \<Rightarrow> flush chunks cur @ [\<lparr>ch_Files = [pf_Path f],
                  ch_StartPosition = (if overlap \<or> firstReplayed then start_after f domain applied else 0),
                  ch_StopPosition = (case stop of Some p \<Rightarrow> p | None \<Rightarrow> 0)\<rparr>])"

fun positional_loop ::
  "nat \<Rightarrow> nat \<Rightarrow> PositionalFile list \<Rightarrow> nat \<Rightarrow> bool \<Rightarrow> ReplayChunk list \<Rightarrow> ReplayChunk option \<Rightarrow> ReplayChunk list res" where
  "positional_loop domain targetSeq [] applied firstReplayed chunks cur = Inr (flush chunks cur)"
| "positional_loop domain targetSeq (f # files) applied firstReplayed chunks cur =
     (case domainFileStats (pf_Boundaries f) domain of
        None \<Rightarrow> positional_loop domain targetSeq files applied firstReplayed chunks cur
      | Some (minSeq, fileMax) \<Rightarrow>
          if fileMax \<le> applied then positional_loop domain targetSeq files applied firstReplayed chunks cur
          else let overlap = minSeq \<le> applied in
            if \<not> firstReplayed \<and> \<not> overlap \<and> minSeq > u64 (int applied + 1) then Inl ErrForkedTimeline
            else if fileMax \<ge> targetSeq then Inr (target_chunk f domain targetSeq applied overlap firstReplayed chunks cur)
            else if pf_EndPos f > 0
            then positional_loop domain targetSeq files fileMax False
                   (flush chunks cur @ [\<lparr>ch_Files = [pf_Path f], ch_StartPosition = start_after f domain applied, ch_StopPosition = pf_EndPos f\<rparr>]) None
            else (case (cur, overlap) of
                    (Some c, False) \<Rightarrow>
                      positional_loop domain targetSeq files fileMax False chunks (Some (c\<lparr>ch_Files := ch_Files c @ [pf_Path f]\<rparr>))
                  | _ \<Rightarrow>
                      positional_loop domain targetSeq files fileMax False (flush chunks cur)
                        (Some \<lparr>ch_Files = [pf_Path f], ch_StartPosition = start_after f domain applied, ch_StopPosition = 0\<rparr>)))"

definition PlanMariadbPositionalFiles :: "PositionalFile list \<Rightarrow> nat \<Rightarrow> nat \<Rightarrow> nat \<Rightarrow> ReplayChunk list res" where
  "PlanMariadbPositionalFiles files domain anchorSeq targetSeq =
     (case HighestMariadbSeq files domain of
        None \<Rightarrow> Inl ErrTargetBeyondArchive
      | Some maxSeq \<Rightarrow>
          if maxSeq < targetSeq then Inl ErrTargetBeyondArchive
          else if targetSeq < anchorSeq then Inl ErrTargetBeforeBackup
          else positional_loop domain targetSeq (sortFilesByDomainSeq files domain) anchorSeq True [] None)"

definition PlanMariadbPositional :: "string list \<Rightarrow> TxnBoundary list list \<Rightarrow> nat \<Rightarrow> nat \<Rightarrow> nat \<Rightarrow> ReplayChunk list res" where
  "PlanMariadbPositional files boundaries domain anchorSeq targetSeq =
     (if length files \<noteq> length boundaries
      then Inl (Errorf ''binlog: files/boundaries length mismatch (%d vs %d)'' [FormatUint (length files), FormatUint (length boundaries)])
      else PlanMariadbPositionalFiles
             (map2 (\<lambda>f bs. \<lparr>pf_Path = f, pf_Segment = [], pf_Boundaries = bs, pf_EndPos = 0\<rparr>) files boundaries) domain anchorSeq targetSeq)"

definition PlanMariadbReplay :: "ReplayPlan \<Rightarrow> PositionalFile list \<Rightarrow> nat \<Rightarrow> ReplayChunk list res" where
  "PlanMariadbReplay plan files anchorSeq =
     bind_res (ApplyMariadbForks files (pl_Segments plan) (pl_MariaDBDomain plan) (pl_MariaDBTarget plan)) (\<lambda>cut.
       case CheckMariadbAuthors cut (pl_MariaDBDomain plan) anchorSeq of
         Some err \<Rightarrow> Inl err
       | None \<Rightarrow>
           if pl_MariaDBTargetSeq plan \<noteq> 0
           then PlanMariadbPositionalFiles cut (pl_MariaDBDomain plan) anchorSeq (pl_MariaDBTargetSeq plan)
           else (case HighestMariadbSeq cut (pl_MariaDBDomain plan) of
                   None \<Rightarrow> Inr []
                 | Some highest \<Rightarrow>
                     if highest \<le> anchorSeq then Inr []
                     else if pl_TargetTime plan \<noteq> zero_time
                     then (let target = seqBeforeTime cut (pl_MariaDBDomain plan) anchorSeq highest (pl_TargetTime plan) in
                           if target \<le> anchorSeq then Inr []
                           else PlanMariadbPositionalFiles cut (pl_MariaDBDomain plan) anchorSeq target)
                     else PlanMariadbPositionalFiles cut (pl_MariaDBDomain plan) anchorSeq highest))"

section \<open>Deciding how to replay\<close>

record MariadbPositional =
  mp_Enabled :: bool
  mp_Domain :: nat
  mp_AnchorSeq :: nat
  mp_TargetSeq :: nat
  mp_Target :: "MariaDBGTID option"
  mp_Selected :: bool
  mp_Segments :: "ReplaySegment list"

definition zero_positional :: MariadbPositional where
  "zero_positional = \<lparr>mp_Enabled = False, mp_Domain = 0, mp_AnchorSeq = 0, mp_TargetSeq = 0, mp_Target = None, mp_Selected = False, mp_Segments = []\<rparr>"

definition archiveDomains :: "ArchiveIndex \<Rightarrow> nat list" where
  "archiveDomains idx =
     sort (remdups (concat (map (\<lambda>seg. case ParseMariaDBPosition (sg_GTIDSet seg) of Inl err \<Rightarrow> [] | Inr gs \<Rightarrow> map mg_Domain gs) (ix_Segments idx))))"

definition segmentsHaveRanges :: "ArchiveSegment list \<Rightarrow> bool" where
  "segmentsHaveRanges segments \<longleftrightarrow> (\<exists>seg \<in> set segments. sg_GTIDSet seg \<noteq> [])"

fun anchor_in_forks :: "ReplaySegment list \<Rightarrow> nat \<Rightarrow> MariaDBGTID \<Rightarrow> go_error option" where
  "anchor_in_forks [] domain a = None"
| "anchor_in_forks (seg # segs) domain a =
     (case forkCut seg domain of
        None \<Rightarrow> anchor_in_forks segs domain a
      | Some c \<Rightarrow>
          (case segmentAuthor seg domain of
             None \<Rightarrow> anchor_in_forks segs domain a
           | Some (server, _) \<Rightarrow>
               if server = mg_Server a \<and> mg_Seq a > c
               then Some (Wrapf ''%w: its position %s is past the fork recorded on segment %s (after %d-%d-%d)''
                      [MariaDBGTID_String a, rs_ServerUUID seg, FormatUint domain, FormatUint server, FormatUint c] ErrBackupOnDeadBranch)
               else anchor_in_forks segs domain a))"

fun check_anchor :: "ReplaySegment list \<Rightarrow> ArchiveDisowned option \<Rightarrow> nat \<Rightarrow> MariaDBGTID list \<Rightarrow> go_error option" where
  "check_anchor segs disowned domain [] = None"
| "check_anchor segs disowned domain (a # gs) =
     (if mg_Domain a \<noteq> domain then check_anchor segs disowned domain gs
      else case (case disowned of None \<Rightarrow> None | Some d \<Rightarrow> find (\<lambda>r. Holds r (mg_Domain a) (mg_Server a) (mg_Seq a)) (ad_Ranges d)) of
             Some r \<Rightarrow> Some (Wrapf ''%w: its position %s is on a dead branch the archive recorded (%d-%d-%d..%d)''
                 [MariaDBGTID_String a, FormatUint (dr_Domain r), FormatUint (dr_Server r), FormatUint (u64 (int (dr_After r) + 1)), FormatUint (dr_Through r)]
                 ErrBackupOnDeadBranch)
           | None \<Rightarrow> (case anchor_in_forks segs domain a of Some err \<Rightarrow> Some err | None \<Rightarrow> check_anchor segs disowned domain gs))"

definition checkMariadbAnchor :: "ReplaySegment list \<Rightarrow> ArchiveDisowned option \<Rightarrow> string \<Rightarrow> nat \<Rightarrow> go_error option" where
  "checkMariadbAnchor segs disowned anchorGTID domain =
     (case ParseMariaDBPosition anchorGTID of Inl err \<Rightarrow> None | Inr gs \<Rightarrow> check_anchor segs disowned domain gs)"

fun cap_loop :: "ArchiveSegment list \<Rightarrow> nat \<Rightarrow> string \<Rightarrow> nat \<Rightarrow> nat \<Rightarrow> ArchiveSegment list \<times> nat" where
  "cap_loop [] domain holder branchCut highest = ([], highest)"
| "cap_loop (seg # segs) domain holder branchCut highest =
     (case segmentAuthor (replaySegment seg) domain of
        None \<Rightarrow> (case cap_loop segs domain holder branchCut highest of (capped, h) \<Rightarrow> (seg # capped, h))
      | Some (server, stop) \<Rightarrow>
          (let limit = (if holder \<noteq> [] then (if sg_ServerUUID seg \<noteq> holder then Some branchCut else None) else forkCut (replaySegment seg) domain);
               (seg', stop') = (case limit of
                  Some l \<Rightarrow> if l < stop
                    then (seg\<lparr>sg_GTIDSet := MariaDBGTID_String \<lparr>mg_Domain = domain, mg_Server = server, mg_Seq = l\<rparr>\<rparr>, l) else (seg, stop)
                | None \<Rightarrow> (seg, stop))
           in case cap_loop segs domain holder branchCut (if stop' > highest then stop' else highest) of (capped, h) \<Rightarrow> (seg' # capped, h)))"

definition capSegments :: "ArchiveSegment list \<Rightarrow> ReplaySegment list \<Rightarrow> MariadbPositional \<Rightarrow> ArchiveSegment list \<times> nat" where
  "capSegments index segs p =
     (case branchHolder segs (mp_Domain p) (mp_Target p) of (holder, branchCut) \<Rightarrow>
      case cap_loop index (mp_Domain p) holder branchCut 0 of (capped, highest) \<Rightarrow>
        (capped, if mp_TargetSeq p \<noteq> 0 then mp_TargetSeq p else highest))"

text \<open>The mode of the replay: either a final answer (no positional replay) or the positional one to select segments for.\<close>

definition positional_mode :: "ArchiveIndex \<Rightarrow> string \<Rightarrow> RecoveryTarget \<Rightarrow> MariadbPositional res" where
  "positional_mode idx anchorGTID target =
     (let segs = map replaySegment (ix_Segments idx); domains = archiveDomains idx in
      if rt_GTID target \<noteq> []
      then bind_res (SingleDomainMariaGTID (rt_GTID target)) (\<lambda>single.
             case single of
               None \<Rightarrow> Inr zero_positional
             | Some (domain, seq) \<Rightarrow>
                 bind_res (ParseMariaDBGTID (rt_GTID target)) (\<lambda>g.
                   Inr (zero_positional\<lparr>mp_Enabled := True, mp_Domain := domain, mp_TargetSeq := seq, mp_Target := Some g,
                     mp_AnchorSeq := MariaSeqForDomain anchorGTID domain\<rparr>)))
      else (case domains of
              [] \<Rightarrow> Inr zero_positional
            | [d] \<Rightarrow>
                (case checkMariadbAnchor segs (ix_Disowned idx) anchorGTID d of
                   Some err \<Rightarrow> Inl err
                 | None \<Rightarrow> Inr (zero_positional\<lparr>mp_Enabled := True, mp_Domain := d, mp_AnchorSeq := MariaSeqForDomain anchorGTID d\<rparr>))
            | _ \<Rightarrow>
                (case find (\<lambda>seg. rs_Fork seg \<noteq> None) segs of
                   Some seg \<Rightarrow> Inl (Wrapf (''%w: segment %s of a multi-domain archive holds a recorded fork, which positional replay '' @
                       ''cannot leave out across domains'') [rs_ServerUUID seg] ErrForkedTimeline)
                 | None \<Rightarrow> Inr zero_positional)))"

text \<open>The selection; in the map by UUID the last segment of a UUID wins.\<close>

definition by_uuid :: "ReplaySegment list \<Rightarrow> string \<Rightarrow> ReplaySegment" where
  "by_uuid segs uuid =
     (case find (\<lambda>seg. rs_ServerUUID seg = uuid) (rev segs) of
        Some seg \<Rightarrow> seg
      | None \<Rightarrow> \<lparr>rs_ServerUUID = [], rs_Files = [], rs_GTIDSet = [], rs_Fork = None\<rparr>)"

definition PrepareMariadbPositional :: "ArchiveIndex \<Rightarrow> string \<Rightarrow> RecoveryTarget \<Rightarrow> MariadbPositional option res" where
  "PrepareMariadbPositional idx anchorGTID target =
     bind_res (positional_mode idx anchorGTID target) (\<lambda>p.
       if \<not> mp_Enabled p \<or> \<not> segmentsHaveRanges (ix_Segments idx) then Inr (Some p)
       else let segs = map replaySegment (ix_Segments idx) in
         case capSegments (ix_Segments idx) segs p of
           (capped, selectTarget) \<Rightarrow>
             if selectTarget \<le> mp_AnchorSeq p then Inr (Some (p\<lparr>mp_Selected := True\<rparr>))
             else (case SelectMariadbSegments capped (mp_Domain p) (mp_AnchorSeq p) selectTarget of
                     Inl err \<Rightarrow> if errors_Is err ErrForkedTimeline \<and> rt_Time target \<noteq> None then Inr (Some p) else Inl err
                   | Inr None \<Rightarrow> Inr None
                   | Inr (Some selected) \<Rightarrow>
                       Inr (Some (p\<lparr>mp_Segments := map (\<lambda>s. by_uuid segs (rs_ServerUUID s)) selected, mp_Selected := True\<rparr>))))"

section \<open>What one file contributes\<close>

definition dom_seqs :: "nat \<Rightarrow> TxnBoundary list \<Rightarrow> nat list" where
  "dom_seqs domain bs = map tb_Seq (filter (\<lambda>b. tb_Domain b = domain) bs)"

lemma dom_seqs_simps [simp]:
  "dom_seqs domain [] = []" "dom_seqs domain (b # bs) = (if tb_Domain b = domain then tb_Seq b # dom_seqs domain bs else dom_seqs domain bs)"
  "dom_seqs domain (bs @ bs') = dom_seqs domain bs @ dom_seqs domain bs'"
  by (simp_all add: dom_seqs_def)

lemma mem_dom_seqs: "s \<in> set (dom_seqs domain bs) \<longleftrightarrow> (\<exists>b \<in> set bs. tb_Domain b = domain \<and> tb_Seq b = s)"
  by (auto simp: dom_seqs_def)

text \<open>Transactions stand in a file in the order of their offsets, and in a domain in the order of their sequences.\<close>

definition in_order :: "nat \<Rightarrow> TxnBoundary list \<Rightarrow> bool" where
  "in_order domain bs \<longleftrightarrow> sorted_wrt (\<lambda>a b. tb_StartPos a < tb_StartPos b) bs \<and> sorted_wrt (<) (dom_seqs domain bs)"

lemma in_order_Cons: "in_order domain (b # bs) \<Longrightarrow> in_order domain bs"
  by (auto simp: in_order_def split: if_splits)

lemma firstAfter_mem: "firstAfterInFile bs domain s = Some p \<Longrightarrow> \<exists>b \<in> set bs. tb_StartPos b = p"
  by (induction bs domain s rule: firstAfterInFile.induct) (auto split: if_splits)

lemma firstAfter_None: "firstAfterInFile bs domain s = None \<longleftrightarrow> (\<forall>q \<in> set (dom_seqs domain bs). q \<le> s)"
  by (induction bs domain s rule: firstAfterInFile.induct) (auto simp: not_less)

text \<open>Before the offset of the first transaction past a sequence stand exactly the transactions up to it.\<close>

lemma firstAfter_iff:
  "firstAfterInFile bs domain s = Some p \<Longrightarrow> in_order domain bs \<Longrightarrow> b \<in> set bs \<Longrightarrow> tb_Domain b = domain \<Longrightarrow>
   p \<le> tb_StartPos b \<longleftrightarrow> s < tb_Seq b"
proof (induction bs domain s rule: firstAfterInFile.induct)
  case (2 c bs domain s)
  note io = in_order_Cons [OF "2.prems"(2)]
  have pos: "\<forall>d \<in> set bs. tb_StartPos c < tb_StartPos d" using "2.prems"(2) by (simp add: in_order_def)
  show ?case
  proof (cases "tb_Domain c = domain \<and> s < tb_Seq c")
    case True
    have "s < tb_Seq b" if "b \<in> set bs"
    proof -
      have "tb_Seq b \<in> set (dom_seqs domain bs)" using that "2.prems"(4) by (auto simp: mem_dom_seqs)
      then show ?thesis using "2.prems"(2) True by (auto simp: in_order_def)
    qed
    then show ?thesis using True "2.prems"(1,3) pos by (auto intro: less_imp_le)
  next
    case False
    then have f: "firstAfterInFile bs domain s = Some p" using "2.prems"(1) by auto
    have "tb_StartPos c < p" using firstAfter_mem [OF f] pos by blast
    then show ?thesis using "2.IH" [OF False f io _ "2.prems"(4)] False "2.prems"(3,4) by auto
  qed
qed simp

lemma dom_seqs_filter:
  "(\<And>b. b \<in> set bs \<Longrightarrow> tb_Domain b = domain \<Longrightarrow> P b \<longleftrightarrow> Q (tb_Seq b)) \<Longrightarrow>
   dom_seqs domain (filter P bs) = filter Q (dom_seqs domain bs)"
  by (induction bs) auto

lemma in_order_filter: "in_order domain bs \<Longrightarrow> in_order domain (filter P bs)"
proof -
  assume a: "in_order domain bs"
  then have "sorted_wrt (\<lambda>x y. tb_Seq x < tb_Seq y) (filter (\<lambda>b. tb_Domain b = domain) bs)"
    by (simp add: in_order_def dom_seqs_def sorted_wrt_map)
  then have "sorted_wrt (\<lambda>x y. tb_Seq x < tb_Seq y) (filter P (filter (\<lambda>b. tb_Domain b = domain) bs))"
    by (rule sorted_wrt_filter)
  then show "in_order domain (filter P bs)"
    using a by (simp add: in_order_def dom_seqs_def sorted_wrt_filter sorted_wrt_map conj_commute)
qed

text \<open>A file's stretch of a domain is contiguous: one server's log has no gap.\<close>

definition contiguous :: "nat \<Rightarrow> TxnBoundary list \<Rightarrow> bool" where
  "contiguous domain bs \<longleftrightarrow> (\<exists>lo hi. dom_seqs domain bs = [lo..<hi])"

lemma if_min_max: "(if a < m then a else m) = min a (m::nat)" "(if m < a then a else m) = max a (m::nat)"
  by (simp_all add: min_def max_def)

lemma file_stats_list: "file_stats bs domain stats =
    (case stats of
       None \<Rightarrow> (case dom_seqs domain bs of [] \<Rightarrow> None | s # ss \<Rightarrow> Some (fold min ss s, fold max ss s))
     | Some (mn, mx) \<Rightarrow> Some (fold min (dom_seqs domain bs) mn, fold max (dom_seqs domain bs) mx))"
  by (induction bs domain stats rule: file_stats.induct) (auto split: option.splits simp: if_min_max)

lemma fold_upt: "fold min [lo..<hi] m = (if lo < hi then min m lo else (m::nat))" "fold max [lo..<hi] m = (if lo < hi then max m (hi - 1) else (m::nat))"
  by (induction hi) (auto simp: min_def max_def)

lemma stats_contiguous:
  assumes "contiguous domain bs"
  shows "domainFileStats bs domain = (if dom_seqs domain bs = [] then None else Some (hd (dom_seqs domain bs), last (dom_seqs domain bs)))"
    and "dom_seqs domain bs \<noteq> [] \<Longrightarrow> dom_seqs domain bs = [hd (dom_seqs domain bs)..<Suc (last (dom_seqs domain bs))]"
proof -
  obtain lo hi where l: "dom_seqs domain bs = [lo..<hi]" using assms by (auto simp: contiguous_def)
  show "domainFileStats bs domain = (if dom_seqs domain bs = [] then None else Some (hd (dom_seqs domain bs), last (dom_seqs domain bs)))"
  proof (cases "lo < hi")
    case True
    then have "[lo..<hi] = lo # [Suc lo..<hi]" by (simp add: upt_conv_Cons)
    then show ?thesis using True l by (auto simp: domainFileStats_def file_stats_list fold_upt)
  qed (use l in \<open>simp add: domainFileStats_def file_stats_list\<close>)
  assume "dom_seqs domain bs \<noteq> []"
  then have "lo < hi" using l by auto
  then have "hd (dom_seqs domain bs) = lo" "last (dom_seqs domain bs) = hi - 1" using l by (simp_all add: last_upt)
  then show "dom_seqs domain bs = [hd (dom_seqs domain bs)..<Suc (last (dom_seqs domain bs))]" using l \<open>lo < hi\<close> by simp
qed

section \<open>What the chunks replay\<close>

text \<open>What \<open>mariadb-binlog\<close> replays of a chunk, given the content of the files: the start offset applies to the first file, the
  stop offset to the only one; an offset that is not positive is not passed.\<close>

definition within :: "int \<Rightarrow> int \<Rightarrow> TxnBoundary \<Rightarrow> bool" where
  "within start stop b \<longleftrightarrow> (start > 0 \<longrightarrow> start \<le> tb_StartPos b) \<and> (stop > 0 \<longrightarrow> tb_StartPos b < stop)"

definition chunk_txns :: "(string \<Rightarrow> TxnBoundary list) \<Rightarrow> ReplayChunk \<Rightarrow> TxnBoundary list" where
  "chunk_txns content ch =
     (case ch_Files ch of
        [] \<Rightarrow> []
      | f # fs \<Rightarrow> filter (within (ch_StartPosition ch) (ch_StopPosition ch)) (content f) @
                  concat (map (\<lambda>f. filter (within 0 (ch_StopPosition ch)) (content f)) fs))"

definition replayed :: "(string \<Rightarrow> TxnBoundary list) \<Rightarrow> nat \<Rightarrow> ReplayChunk list \<Rightarrow> nat list" where
  "replayed content domain chunks = dom_seqs domain (concat (map (chunk_txns content) chunks))"

text \<open>A downloaded file: its boundaries are those of its content, up to the cut if it has one, in order and contiguous.\<close>

definition good_file :: "(string \<Rightarrow> TxnBoundary list) \<Rightarrow> nat \<Rightarrow> PositionalFile \<Rightarrow> bool" where
  "good_file content domain f \<longleftrightarrow>
     in_order domain (content (pf_Path f)) \<and> (\<forall>b \<in> set (content (pf_Path f)). 0 < tb_StartPos b \<and> tb_Seq b < 18446744073709551615) \<and>
     contiguous domain (pf_Boundaries f) \<and>
     pf_Boundaries f = (if pf_EndPos f > 0 then filter (\<lambda>b. tb_StartPos b < pf_EndPos f) (content (pf_Path f)) else content (pf_Path f))"

abbreviation file_seqs :: "nat \<Rightarrow> PositionalFile \<Rightarrow> nat list" where
  "file_seqs domain f \<equiv> dom_seqs domain (pf_Boundaries f)"

lemma within_00 [simp]: "within 0 0 b"
  by (simp add: within_def)

text \<open>The stop offset of a file: its own cut, or the first transaction past the target.\<close>

definition stop_at :: "nat \<Rightarrow> PositionalFile \<Rightarrow> int \<Rightarrow> (nat \<Rightarrow> bool) \<Rightarrow> bool" where
  "stop_at domain f stop until \<longleftrightarrow>
     (stop = (if pf_EndPos f > 0 then pf_EndPos f else 0) \<and> until = (\<lambda>_. True)) \<or>
     (\<exists>t. firstAfterInFile (pf_Boundaries f) domain t = Some stop \<and> until = (\<lambda>q. q \<le> t))"

definition start_at :: "nat \<Rightarrow> PositionalFile \<Rightarrow> int \<Rightarrow> (nat \<Rightarrow> bool) \<Rightarrow> bool" where
  "start_at domain f start past \<longleftrightarrow>
     (start = 0 \<and> past = (\<lambda>_. True)) \<or> (\<exists>a. start = start_after f domain a \<and> (\<exists>q \<in> set (file_seqs domain f). a < q) \<and> past = (\<lambda>q. a < q))"

lemma file_slice:
  assumes "good_file content domain f" "start_at domain f start past" "stop_at domain f stop until"
  shows "dom_seqs domain (filter (within start stop) (content (pf_Path f))) = filter (\<lambda>q. past q \<and> until q) (file_seqs domain f)"
proof -
  let ?C = "content (pf_Path f)" and ?B = "pf_Boundaries f"
  have B: "?B = (if pf_EndPos f > 0 then filter (\<lambda>b. tb_StartPos b < pf_EndPos f) ?C else ?C)" and io: "in_order domain ?C"
    and pos: "\<And>b. b \<in> set ?C \<Longrightarrow> 0 < tb_StartPos b" using assms(1) by (auto simp: good_file_def)
  then have iB: "in_order domain ?B" by (simp add: in_order_filter)
  have sB: "set ?B \<subseteq> set ?C" using B by auto
  have st: "(start > 0 \<longrightarrow> start \<le> tb_StartPos b) \<longleftrightarrow> past (tb_Seq b)" if "b \<in> set ?B" "tb_Domain b = domain" for b
  proof (cases "start = 0 \<and> past = (\<lambda>_. True)")
    case False
    then obtain a where a: "start = start_after f domain a" "\<exists>q \<in> set (file_seqs domain f). a < q" "past = (\<lambda>q. a < q)"
      using assms(2) by (auto simp: start_at_def)
    then obtain p where p: "firstAfterInFile ?B domain a = Some p"
      using firstAfter_None [of ?B domain a] by (cases "firstAfterInFile ?B domain a") (auto simp: not_less)
    have "0 < p" using firstAfter_mem [OF p] sB pos by auto
    then show ?thesis using firstAfter_iff [OF p iB that] a(1,3) p by (simp add: start_after_def)
  qed simp
  have sp: "(stop > 0 \<longrightarrow> tb_StartPos b < stop) \<longleftrightarrow> b \<in> set ?B \<and> until (tb_Seq b)" if "b \<in> set ?C" "tb_Domain b = domain" for b
  proof (cases "stop = (if pf_EndPos f > 0 then pf_EndPos f else 0) \<and> until = (\<lambda>_. True)")
    case True
    then show ?thesis using B that by auto
  next
    case False
    then obtain t where t: "firstAfterInFile ?B domain t = Some stop" "until = (\<lambda>q. q \<le> t)" using assms(3) by (auto simp: stop_at_def)
    obtain c where c: "c \<in> set ?B" "tb_StartPos c = stop" using firstAfter_mem [OF t(1)] by blast
    then have "0 < stop" "pf_EndPos f > 0 \<Longrightarrow> stop < pf_EndPos f" using sB pos B by (auto split: if_splits)
    moreover have "b \<in> set ?B \<Longrightarrow> stop \<le> tb_StartPos b \<longleftrightarrow> t < tb_Seq b" using firstAfter_iff [OF t(1) iB _ that(2)] .
    moreover have "tb_StartPos b < stop \<Longrightarrow> b \<in> set ?B" using calculation(1,2) B that(1) by auto
    ultimately show ?thesis using t(2) by auto
  qed
  have "filter (within start stop) ?C = filter (\<lambda>b. within start stop b) ?C" ..
  have "dom_seqs domain (filter (within start stop) ?C) = dom_seqs domain (filter (within start stop) (filter (\<lambda>b. b \<in> set ?B) ?C))"
    unfolding dom_seqs_def filter_filter using sp by (intro arg_cong [of _ _ "map tb_Seq"] filter_cong) (auto simp: within_def)
  also have "filter (\<lambda>b. b \<in> set ?B) ?C = ?B" using B by (auto intro: filter_cong simp: filter_id_conv)
  also have "dom_seqs domain (filter (within start stop) ?B) = filter (\<lambda>q. past q \<and> until q) (dom_seqs domain ?B)"
    using st sp sB by (intro dom_seqs_filter) (auto simp: within_def)
  finally show ?thesis .
qed

lemma filter_upt_past: "filter (\<lambda>q. a < q) [m..<n] = [max m (Suc a)..<n]"
  by (induction n) (auto simp: max_def)

lemma filter_upt_until: "filter (\<lambda>q. q \<le> t) [m..<n] = [m..<min n (Suc t)]"
  by (induction n) (auto simp: min_def le_Suc_eq)

lemma filter_upt_both: "filter (\<lambda>q. a < q \<and> q \<le> t) [m..<n] = [max m (Suc a)..<min n (Suc t)]"
  using filter_upt_until [of t "max m (Suc a)" n] filter_upt_past [of a m n] by (metis (no_types, lifting) filter_cong filter_filter)

lemma replayed_snoc: "replayed content domain (chunks @ [c]) = replayed content domain chunks @ dom_seqs domain (chunk_txns content c)"
  by (simp add: replayed_def)

lemma flush_Some [simp]: "flush chunks (Some c) = chunks @ [c]" "flush chunks None = chunks"
  by (simp_all add: flush_def)

lemma chunk_single: "chunk_txns content \<lparr>ch_Files = [p], ch_StartPosition = start, ch_StopPosition = stop\<rparr> = filter (within start stop) (content p)"
  by (simp add: chunk_txns_def)

lemma chunk_append:
  "ch_Files c \<noteq> [] \<Longrightarrow> ch_StopPosition c = 0 \<Longrightarrow>
   chunk_txns content (c\<lparr>ch_Files := ch_Files c @ [p]\<rparr>) = chunk_txns content c @ content p"
  by (auto simp: chunk_txns_def neq_Nil_conv)

definition cur_ok :: "ReplayChunk option \<Rightarrow> bool" where
  "cur_ok cur \<longleftrightarrow> (case cur of None \<Rightarrow> True | Some c \<Rightarrow> ch_Files c \<noteq> [] \<and> ch_StopPosition c = 0)"

lemma good_stats:
  assumes "good_file content domain f"
  shows "file_seqs domain f = [] \<Longrightarrow> domainFileStats (pf_Boundaries f) domain = None"
    "file_seqs domain f \<noteq> [] \<Longrightarrow> \<exists>mn mx. domainFileStats (pf_Boundaries f) domain = Some (mn, mx) \<and> mn \<le> mx \<and>
       file_seqs domain f = [mn..<Suc mx] \<and> mx < 18446744073709551615"
proof -
  have c: "contiguous domain (pf_Boundaries f)" using assms unfolding good_file_def by blast
  show "file_seqs domain f = [] \<Longrightarrow> domainFileStats (pf_Boundaries f) domain = None" using stats_contiguous(1) [OF c] by simp
  assume ne: "file_seqs domain f \<noteq> []"
  let ?l = "hd (file_seqs domain f)" and ?h = "last (file_seqs domain f)"
  note u = stats_contiguous(2) [OF c ne]
  have "?h \<in> set (file_seqs domain f)" using ne by simp
  then obtain b where "b \<in> set (pf_Boundaries f)" "tb_Seq b = ?h" by (auto simp: mem_dom_seqs)
  then have "?h < 18446744073709551615" using assms by (auto simp: good_file_def split: if_splits)
  moreover have "?l \<le> ?h" using u ne by (metis less_Suc_eq_le upt_eq_Nil_conv not_less)
  ultimately show "\<exists>mn mx. domainFileStats (pf_Boundaries f) domain = Some (mn, mx) \<and> mn \<le> mx \<and>
       file_seqs domain f = [mn..<Suc mx] \<and> mx < 18446744073709551615"
    using stats_contiguous(1) [OF c] u ne by auto
qed

text \<open>One file replayed from the first transaction past \<open>a\<close> to its end, or to its cut.\<close>

lemma file_rest:
  assumes "good_file content domain f" "file_seqs domain f = [mn..<Suc mx]" "a < mx"
    "stop = (if pf_EndPos f > 0 then pf_EndPos f else 0)" "mn \<le> mx"
  shows "dom_seqs domain (filter (within (start_after f domain a) stop) (content (pf_Path f))) = [max mn (Suc a)..<Suc mx]"
proof -
  have "start_at domain f (start_after f domain a) (\<lambda>q. a < q)" using assms(2,3,5) by (auto simp: start_at_def intro!: bexI [of _ mx])
  moreover have "stop_at domain f stop (\<lambda>_. True)" using assms(4) by (simp add: stop_at_def)
  ultimately have "dom_seqs domain (filter (within (start_after f domain a) stop) (content (pf_Path f))) = filter (\<lambda>q. a < q \<and> True) (file_seqs domain f)"
    by (rule file_slice [OF assms(1)])
  then show ?thesis using assms(2) by (simp only: simp_thms filter_upt_past)
qed

lemma file_whole:
  "good_file content domain f \<Longrightarrow> \<not> pf_EndPos f > 0 \<Longrightarrow> dom_seqs domain (content (pf_Path f)) = file_seqs domain f"
  by (simp add: good_file_def)

text \<open>The file that holds the target, replayed up to it.\<close>

lemma target_chunk_replays:
  assumes "good_file content domain f" "file_seqs domain f = [mn..<Suc mx]" "mn \<le> mx" "a < mx" "t \<le> mx" "cur_ok cur"
    and first: "firstReplayed \<Longrightarrow> cur = None"
    and next_: "\<not> firstReplayed \<Longrightarrow> mn \<le> Suc a"
  shows "replayed content domain (target_chunk f domain t a (mn \<le> a) firstReplayed chunks cur) =
    replayed content domain (flush chunks cur) @ [max mn (Suc a)..<Suc t]"
proof -
  define stop where "stop = (case firstAfterInFile (pf_Boundaries f) domain t of Some p \<Rightarrow> Some p | None \<Rightarrow> if pf_EndPos f > 0 then Some (pf_EndPos f) else None)"
  define sp where "sp = (case stop of Some p \<Rightarrow> p | None \<Rightarrow> 0)"
  define st where "st = (if mn \<le> a \<or> firstReplayed then start_after f domain a else 0)"
  have fa: "firstAfterInFile (pf_Boundaries f) domain t = None \<longleftrightarrow> mx \<le> t" unfolding firstAfter_None using assms(2,3) by auto
  have sl: "dom_seqs domain (filter (within st sp) (content (pf_Path f))) = [max mn (Suc a)..<Suc t]"
  proof -
    have past: "start_at domain f st (if mn \<le> a \<or> firstReplayed then (\<lambda>q. a < q) else (\<lambda>_. True))"
      using assms(2,3,4) by (auto simp: start_at_def st_def intro!: bexI [of _ mx])
    have until: "stop_at domain f sp (if mx \<le> t then (\<lambda>_. True) else (\<lambda>q. q \<le> t))"
      using fa by (cases "firstAfterInFile (pf_Boundaries f) domain t") (auto simp: stop_at_def sp_def stop_def)
    note s = file_slice [OF assms(1) past until]
    have mn: "\<not> (mn \<le> a \<or> firstReplayed) \<Longrightarrow> mn = Suc a" using next_ by auto
    have "max mn (Suc a) = mn" if "mn = Suc a" using that by simp
    then show ?thesis
      unfolding s assms(2) using mn assms(5)
      by (auto simp: filter_upt_both filter_upt_past filter_upt_until max_def min_def simp del: upt_Suc)
  qed
  show ?thesis
  proof (cases "\<exists>c. stop = None \<and> cur = Some c \<and> \<not> mn \<le> a")
    case True
    then obtain c where c: "stop = None" "cur = Some c" "\<not> mn \<le> a" by blast
    have e: "\<not> pf_EndPos f > 0" "mx = t" using c(1) fa assms(5) by (auto simp: stop_def split: option.splits if_splits)
    have "mn = Suc a" using c(2,3) first next_ by (metis le_antisym not_less_eq_eq option.distinct(1))
    then show ?thesis
      using c e assms(2,6) file_whole [OF assms(1) e(1)]
      by (simp add: target_chunk_def stop_def [symmetric] replayed_snoc chunk_append cur_ok_def Let_def del: upt_Suc)
  next
    case False
    then have "target_chunk f domain t a (mn \<le> a) firstReplayed chunks cur =
        flush chunks cur @ [\<lparr>ch_Files = [pf_Path f], ch_StartPosition = st, ch_StopPosition = sp\<rparr>]"
      by (cases stop; cases cur; cases "mn \<le> a") (auto simp: target_chunk_def stop_def [symmetric] st_def sp_def Let_def)
    then show ?thesis using sl by (simp add: replayed_snoc chunk_single)
  qed
qed

text \<open>A file below the target extends what is replayed by its transactions past \<open>a\<close>, whichever of the three ways it is planned.\<close>

lemma positional_step:
  assumes "good_file content domain f" "domainFileStats (pf_Boundaries f) domain = Some (mn, mx)" "mn \<le> mx"
    "file_seqs domain f = [mn..<Suc mx]" "mx < 18446744073709551615" "a < mx" "mx < t" "cur_ok cur"
    and first: "fr \<Longrightarrow> cur = None"
    and next_: "\<not> fr \<Longrightarrow> mn \<le> Suc a"
  shows "\<exists>chunks' cur'. positional_loop domain t (f # files) a fr chunks cur = positional_loop domain t files mx False chunks' cur' \<and>
    cur_ok cur' \<and> replayed content domain (flush chunks' cur') = replayed content domain (flush chunks cur) @ [max mn (Suc a)..<Suc mx]"
proof -
  have w: "u64 (int a + 1) = Suc a" using assms(5,6) by (simp add: u64_def)
  then have h: "\<not> (\<not> fr \<and> \<not> mn \<le> a \<and> mn > u64 (int a + 1))" using next_ by auto
  consider "pf_EndPos f > 0" | c where "\<not> pf_EndPos f > 0" "cur = Some c" "\<not> mn \<le> a" | "\<not> pf_EndPos f > 0" "cur = None \<or> mn \<le> a"
    by (cases cur) auto
  then show ?thesis
  proof cases
    case 1
    let ?ch = "\<lparr>ch_Files = [pf_Path f], ch_StartPosition = start_after f domain a, ch_StopPosition = pf_EndPos f\<rparr>"
    have "positional_loop domain t (f # files) a fr chunks cur = positional_loop domain t files mx False (flush chunks cur @ [?ch]) None"
      using assms(2,6,7) h 1 by (auto simp: Let_def)
    moreover have "replayed content domain (flush (flush chunks cur @ [?ch]) None) = replayed content domain (flush chunks cur) @ [max mn (Suc a)..<Suc mx]"
      using file_rest [OF assms(1,4,6) _ assms(3)] 1 by (simp add: replayed_snoc chunk_single del: upt_Suc)
    ultimately show ?thesis by (metis cur_ok_def option.simps(4))
  next
    case (2 c)
    let ?c = "c\<lparr>ch_Files := ch_Files c @ [pf_Path f]\<rparr>"
    have "positional_loop domain t (f # files) a fr chunks cur = positional_loop domain t files mx False chunks (Some ?c)"
      using assms(2,6,7) h 2 by (auto simp: Let_def)
    moreover have "mn = Suc a" using 2 first next_ by (metis le_antisym not_less_eq_eq option.distinct(1))
    then have "replayed content domain (flush chunks (Some ?c)) = replayed content domain (flush chunks cur) @ [max mn (Suc a)..<Suc mx]"
      using file_whole [OF assms(1) 2(1)] assms(4,8) 2(2) by (simp add: replayed_snoc chunk_append cur_ok_def del: upt_Suc)
    moreover have "cur_ok (Some ?c)" using assms(8) 2(2) by (simp add: cur_ok_def)
    ultimately show ?thesis by blast
  next
    case 3
    let ?c = "\<lparr>ch_Files = [pf_Path f], ch_StartPosition = start_after f domain a, ch_StopPosition = 0\<rparr>"
    have "positional_loop domain t (f # files) a fr chunks cur = positional_loop domain t files mx False (flush chunks cur) (Some ?c)"
      using assms(2,6,7) h 3 by (cases cur) (auto simp: Let_def)
    moreover have "replayed content domain (flush (flush chunks cur) (Some ?c)) = replayed content domain (flush chunks cur) @ [max mn (Suc a)..<Suc mx]"
      using file_rest [OF assms(1,4,6) _ assms(3)] 3(1) by (simp add: replayed_snoc chunk_single del: upt_Suc)
    moreover have "cur_ok (Some ?c)" by (simp add: cur_ok_def)
    ultimately show ?thesis by blast
  qed
qed

lemma upt_extend: "lo \<le> a \<Longrightarrow> a < n \<Longrightarrow> mn \<le> Suc a \<Longrightarrow> [lo..<Suc a] @ [max mn (Suc a)..<Suc n] = [lo..<Suc n]"
  using upt_add_eq_append [of lo "Suc a" "n - a"] by (simp add: max_def)

text \<open>The loop once a file was replayed: what is replayed so far is a stretch up to \<open>applied\<close>, which every further file extends.\<close>

lemma positional_loop_rest:
  assumes "positional_loop domain t files a False chunks cur = Inr out" "\<forall>f \<in> set files. good_file content domain f"
    "cur_ok cur" "replayed content domain (flush chunks cur) = [lo..<Suc a]" "lo \<le> a" "a < t"
    "\<exists>f \<in> set files. \<exists>q \<in> set (file_seqs domain f). t \<le> q"
  shows "replayed content domain out = [lo..<Suc t]"
  using assms
proof (induction files arbitrary: a chunks cur)
  case (Cons f files)
  have g: "good_file content domain f" and gs: "\<forall>f \<in> set files. good_file content domain f" using Cons.prems(2) by simp_all
  have ahead: "\<exists>f \<in> set files. \<exists>q \<in> set (file_seqs domain f). t \<le> q" if "\<forall>q \<in> set (file_seqs domain f). q < t"
    using Cons.prems(7) that by (auto simp: not_le)
  show ?case
  proof (cases "file_seqs domain f = []")
    case True
    then show ?thesis using Cons.IH [OF _ gs Cons.prems(3-6) ahead] Cons.prems(1) good_stats(1) [OF g True] by simp
  next
    case False
    obtain mn mx where m: "domainFileStats (pf_Boundaries f) domain = Some (mn, mx)" "mn \<le> mx" "file_seqs domain f = [mn..<Suc mx]"
      "mx < 18446744073709551615" using good_stats(2) [OF g False] by blast
    show ?thesis
    proof (cases "mx \<le> a")
      case True
      then have "\<forall>q \<in> set (file_seqs domain f). q < t" using m(3) Cons.prems(6) by auto
      from Cons.IH [OF _ gs Cons.prems(3-6) ahead [OF this]] show ?thesis using True Cons.prems(1) m(1) by simp
    next
      case nle: False
      then have "u64 (int a + 1) = Suc a" using m(4) by (simp add: u64_def)
      then have mn: "mn \<le> Suc a" using Cons.prems(1) m(1) nle by (auto simp: Let_def split: if_splits)
      show ?thesis
      proof (cases "t \<le> mx")
        case True
        have "out = target_chunk f domain t a (mn \<le> a) False chunks cur"
          using Cons.prems(1) m(1) nle True \<open>u64 (int a + 1) = Suc a\<close> mn by (auto simp: Let_def)
        then show ?thesis
          using target_chunk_replays [OF g m(3,2) _ True Cons.prems(3), of a False chunks] nle mn Cons.prems(4) upt_extend [OF Cons.prems(5,6) mn] by simp
      next
        case False
        then have tl: "mx < t" "a < mx" using nle by simp_all
        obtain chunks' cur' where s: "positional_loop domain t (f # files) a False chunks cur = positional_loop domain t files mx False chunks' cur'"
          "cur_ok cur'" "replayed content domain (flush chunks' cur') = [lo..<Suc mx]"
          using positional_step [OF g m(1-4) tl(2,1) Cons.prems(3), of False files chunks] mn Cons.prems(4) upt_extend [OF Cons.prems(5) tl(2) mn] by auto
        have "\<forall>q \<in> set (file_seqs domain f). q < t" using m(3) tl(1) by auto
        from Cons.IH [OF _ gs s(2,3) _ tl(1) ahead [OF this]] show ?thesis using Cons.prems(1,5) s(1) tl(2) by simp
      qed
    qed
  qed
qed simp

text \<open>The whole loop: the first file replayed starts the stretch at the first archived sequence past the anchor.\<close>

lemma positional_loop_first:
  assumes "positional_loop domain t files anchor True [] None = Inr out" "\<forall>f \<in> set files. good_file content domain f"
    "sorted_wrt (\<lambda>f g. file_seqs domain f \<noteq> [] \<longrightarrow> file_seqs domain g \<noteq> [] \<longrightarrow> hd (file_seqs domain f) \<le> hd (file_seqs domain g)) files"
    "anchor \<le> t" "t \<le> anchor \<or> (\<exists>f \<in> set files. \<exists>q \<in> set (file_seqs domain f). t \<le> q)"
  shows "\<exists>lo > anchor. replayed content domain out = [lo..<Suc t] \<and> (\<forall>f \<in> set files. \<forall>q \<in> set (file_seqs domain f). anchor < q \<longrightarrow> lo \<le> q)"
  using assms
proof (induction files)
  case Nil
  then show ?case by (intro exI [of _ "Suc anchor"]) (simp add: replayed_def)
next
  case (Cons f files)
  have g: "good_file content domain f" and gs: "\<forall>f \<in> set files. good_file content domain f" using Cons.prems(2) by simp_all
  show ?case
  proof (cases "\<forall>q \<in> set (file_seqs domain f). q \<le> anchor")
    case True
    have "positional_loop domain t files anchor True [] None = Inr out"
      using Cons.prems(1) good_stats [OF g] True by (cases "file_seqs domain f = []") auto
    moreover have "t \<le> anchor \<or> (\<exists>f \<in> set files. \<exists>q \<in> set (file_seqs domain f). t \<le> q)" using Cons.prems(5) True by fastforce
    ultimately obtain lo where "lo > anchor" "replayed content domain out = [lo..<Suc t]"
      "\<forall>f \<in> set files. \<forall>q \<in> set (file_seqs domain f). anchor < q \<longrightarrow> lo \<le> q" using Cons.IH gs Cons.prems(3,4) by auto
    then show ?thesis using True by (intro exI [of _ lo]) auto
  next
    case False
    then have ne: "file_seqs domain f \<noteq> []" by auto
    obtain mn mx where m: "domainFileStats (pf_Boundaries f) domain = Some (mn, mx)" "mn \<le> mx" "file_seqs domain f = [mn..<Suc mx]"
      "mx < 18446744073709551615" using good_stats(2) [OF g ne] by blast
    have ax: "anchor < mx" using False m(3) by auto
    let ?lo = "max mn (Suc anchor)"
    have "mn \<le> q" if "h \<in> set (f # files)" "q \<in> set (file_seqs domain h)" for h q
    proof (cases "h = f")
      case True
      then show ?thesis using that m(3) by auto
    next
      case False
      then have h: "h \<in> set files" "file_seqs domain h \<noteq> []" using that by auto
      then have "mn \<le> hd (file_seqs domain h)" using Cons.prems(3) m(2,3) ne by (auto simp: upt_conv_Cons simp del: upt_Suc)
      moreover have "hd (file_seqs domain h) \<le> q" using good_stats(2) [of content domain h] gs h that(2) by (auto simp: upt_conv_Cons simp del: upt_Suc)
      ultimately show ?thesis by simp
    qed
    then have least: "\<forall>h \<in> set (f # files). \<forall>q \<in> set (file_seqs domain h). anchor < q \<longrightarrow> ?lo \<le> q" by (auto simp: Suc_le_eq)
    have "replayed content domain out = [?lo..<Suc t]"
    proof (cases "t \<le> mx")
      case True
      have "out = target_chunk f domain t anchor (mn \<le> anchor) True [] None" using Cons.prems(1) m(1) ax True by (auto simp: Let_def)
      then show ?thesis using target_chunk_replays [OF g m(3,2) ax True, of None True "[]"] by (simp add: cur_ok_def replayed_def)
    next
      case False
      then have tl: "mx < t" by simp
      obtain chunks' cur' where s: "positional_loop domain t (f # files) anchor True [] None = positional_loop domain t files mx False chunks' cur'"
        "cur_ok cur'" "replayed content domain (flush chunks' cur') = [?lo..<Suc mx]"
        using positional_step [OF g m(1-4) ax tl, of None True files "[]"] by (auto simp: cur_ok_def replayed_def)
      have "\<exists>f \<in> set files. \<exists>q \<in> set (file_seqs domain f). t \<le> q" using Cons.prems(4,5) tl ax m(3) by auto
      then show ?thesis using positional_loop_rest [OF _ gs s(2,3) _ tl] Cons.prems(1) s(1) m(2) ax by simp
    qed
    then show ?thesis using least by (intro exI [of _ ?lo]) auto
  qed
qed

lemma highest_loop_Some:
  assumes "highest_loop files domain h = Some m" "\<forall>f \<in> set files. good_file content domain f"
  shows "h = Some m \<or> (\<exists>f \<in> set files. m \<in> set (file_seqs domain f))"
  using assms
proof (induction files domain h rule: highest_loop.induct)
  case (2 f files domain h)
  have g: "good_file content domain f" using "2.prems"(2) by simp
  show ?case
  proof (cases "file_seqs domain f = []")
    case True
    then show ?thesis using "2.IH" "2.prems" good_stats(1) [OF g] by auto
  next
    case False
    then obtain mn mx where m: "domainFileStats (pf_Boundaries f) domain = Some (mn, mx)" "mn \<le> mx" "file_seqs domain f = [mn..<Suc mx]"
      using good_stats(2) [OF g] by blast
    then have "mx \<in> set (file_seqs domain f)" by simp
    then show ?thesis using "2.IH" "2.prems" m(1) by (auto split: option.splits if_splits)
  qed
qed auto

lemma file_key_zero: "good_file content domain f \<Longrightarrow> fst (file_key domain f) = (if file_seqs domain f = [] then 1 else 0)"
  using good_stats [of content domain f] by (cases "file_seqs domain f = []") (auto simp: file_key_def)

lemma file_key_hd: "good_file content domain f \<Longrightarrow> file_seqs domain f \<noteq> [] \<Longrightarrow> snd (file_key domain f) = hd (file_seqs domain f)"
  using good_stats(2) [of content domain f] by (auto simp: file_key_def upt_conv_Cons simp del: upt_Suc)

lemma sortFiles_sorted:
  assumes "\<forall>f \<in> set files. good_file content domain f"
  shows "sorted_wrt (\<lambda>f g. file_seqs domain f \<noteq> [] \<longrightarrow> file_seqs domain g \<noteq> [] \<longrightarrow> hd (file_seqs domain f) \<le> hd (file_seqs domain g))
    (sortFilesByDomainSeq files domain)" and "set (sortFilesByDomainSeq files domain) = set files"
proof -
  let ?a = "sort_key (snd \<circ> file_key domain) (filter (\<lambda>f. fst (file_key domain f) = 0) files)"
  have a: "\<forall>f \<in> set ?a. good_file content domain f \<and> file_seqs domain f \<noteq> []" using assms file_key_zero by (auto split: if_splits)
  have "sorted_wrt (\<lambda>f g. (snd \<circ> file_key domain) f \<le> (snd \<circ> file_key domain) g) ?a" by (metis sorted_map sorted_sort_key)
  then have s: "sorted_wrt (\<lambda>f g. hd (file_seqs domain f) \<le> hd (file_seqs domain g)) ?a"
    by (rule sorted_wrt_mono_rel [rotated]) (metis a comp_apply file_key_hd)
  have b: "\<forall>f \<in> set (filter (\<lambda>f. fst (file_key domain f) = 1) files). file_seqs domain f = []" using assms file_key_zero by (auto split: if_splits)
  show "set (sortFilesByDomainSeq files domain) = set files"
    using assms file_key_zero by (fastforce simp: sortFilesByDomainSeq_def split: if_splits)
  show "sorted_wrt (\<lambda>f g. file_seqs domain f \<noteq> [] \<longrightarrow> file_seqs domain g \<noteq> [] \<longrightarrow> hd (file_seqs domain f) \<le> hd (file_seqs domain g))
    (sortFilesByDomainSeq files domain)"
    (is "sorted_wrt ?R _")
  proof -
    have "sorted_wrt ?R ?a" by (rule sorted_wrt_mono_rel [OF _ s]) simp
    moreover have "sorted_wrt ?R bs" if "\<forall>f \<in> set bs. file_seqs domain f = []" for bs using that by (induction bs) auto
    ultimately show ?thesis unfolding sortFilesByDomainSeq_def sorted_wrt_append using b by blast
  qed
qed

text \<open>C4. A positional MariaDB replay applies every sequence exactly once. From files whose boundaries are in order and contiguous,
  in whatever order they are given and however they overlap after a failover, the planned chunks replay the sequences of the
  domain in ascending order with none twice, none missing and none at or below the anchor, from the first archived
  sequence past the anchor up to the target and not one further; files a fork cut short are never replayed past the cut.\<close>

theorem positional_exactly_once:
  assumes "PlanMariadbPositionalFiles files domain anchor target = Inr chunks" "\<forall>f \<in> set files. good_file content domain f"
  shows "\<exists>lo > anchor. replayed content domain chunks = [lo..<Suc target] \<and>
    (\<forall>f \<in> set files. \<forall>q \<in> set (file_seqs domain f). anchor < q \<longrightarrow> lo \<le> q)"
proof -
  obtain mx where m: "HighestMariadbSeq files domain = Some mx" "target \<le> mx" "anchor \<le> target"
    "positional_loop domain target (sortFilesByDomainSeq files domain) anchor True [] None = Inr chunks"
    using assms(1) by (auto simp: PlanMariadbPositionalFiles_def split: option.splits if_splits)
  note s = sortFiles_sorted [OF assms(2)]
  have "\<exists>f \<in> set (sortFilesByDomainSeq files domain). \<exists>q \<in> set (file_seqs domain f). target \<le> q"
    using highest_loop_Some [of files domain None mx content] m(1,2) assms(2) s(2) by (auto simp: HighestMariadbSeq_def)
  then show ?thesis using positional_loop_first [OF m(4) _ s(1) m(3)] assms(2) s(2) by simp
qed

text \<open>Every chunk can be run: a stop offset comes with a single file.\<close>

definition runnable :: "ReplayChunk \<Rightarrow> bool" where
  "runnable c \<longleftrightarrow> ch_Files c \<noteq> [] \<and> (ch_StopPosition c > 0 \<longrightarrow> length (ch_Files c) = 1)"

lemma runnable_simps [simp]: "runnable \<lparr>ch_Files = [p], ch_StartPosition = start, ch_StopPosition = stop\<rparr>" "cur_ok None"
  "cur_ok (Some \<lparr>ch_Files = [p], ch_StartPosition = start, ch_StopPosition = 0\<rparr>)"
  by (simp_all add: runnable_def cur_ok_def)

lemma cur_ok_runnable: "cur_ok (Some c) \<Longrightarrow> runnable c"
  "cur_ok (Some c) \<Longrightarrow> cur_ok (Some (c\<lparr>ch_Files := ch_Files c @ [p]\<rparr>))"
  by (auto simp: cur_ok_def runnable_def)

lemma flush_runnable: "list_all runnable chunks \<Longrightarrow> cur_ok cur \<Longrightarrow> list_all runnable (flush chunks cur)"
  by (cases cur) (auto dest: cur_ok_runnable(1))

lemma target_chunk_runnable:
  "list_all runnable chunks \<Longrightarrow> cur_ok cur \<Longrightarrow> list_all runnable (target_chunk f domain t a ov fr chunks cur)"
  using cur_ok_runnable flush_runnable [of chunks cur]
  by (auto simp: target_chunk_def Let_def split: option.splits bool.splits)

lemma positional_loop_runnable:
  "positional_loop domain t files a fr chunks cur = Inr out \<Longrightarrow> list_all runnable chunks \<Longrightarrow> cur_ok cur \<Longrightarrow> list_all runnable out"
proof (induction files arbitrary: a fr chunks cur)
  case Nil
  then show ?case using flush_runnable by auto
next
  case (Cons f files)
  note fl = flush_runnable [OF Cons.prems(2,3)]
  show ?case
  proof (cases "domainFileStats (pf_Boundaries f) domain")
    case None
    then show ?thesis using Cons.IH Cons.prems by simp
  next
    case (Some x)
    obtain mn mx where x: "x = (mn, mx)" by force
    consider "mx \<le> a" | "\<not> mx \<le> a" "t \<le> mx" | "\<not> mx \<le> a" "\<not> t \<le> mx" "pf_EndPos f > 0" | "\<not> mx \<le> a" "\<not> t \<le> mx" "\<not> pf_EndPos f > 0" by blast
    then show ?thesis
    proof cases
      case 1
      then show ?thesis using Cons.IH Cons.prems Some x by simp
    next
      case 2
      then show ?thesis using Cons.prems Some x target_chunk_runnable by (auto simp: Let_def split: if_splits)
    next
      case 3
      then show ?thesis using Cons.IH Cons.prems(1) Some x fl by (fastforce simp: Let_def split: if_splits)
    next
      case 4
      then show ?thesis using Cons.IH Cons.prems Some x fl cur_ok_runnable(2)
        by (cases cur; cases "mn \<le> a") (fastforce simp: Let_def split: if_splits)+
    qed
  qed
qed

section \<open>The selection covers what the archive covers\<close>

definition covers_seq :: "seg_interval \<Rightarrow> nat \<Rightarrow> bool" where
  "covers_seq v s \<longleftrightarrow> iv_start v \<le> s \<and> s \<le> iv_end v"

lemma best_reach_correct:
  assumes "u64 (int c + 1) = Suc c"
  shows "case best_reach c best ivs of
      None \<Rightarrow> best = None \<and> (\<forall>v \<in> set ivs. \<not> covers_seq v (Suc c))
    | Some v \<Rightarrow> best = Some v \<or> (v \<in> set ivs \<and> covers_seq v (Suc c))"
  using assms
proof (induction c best ivs rule: best_reach.induct)
  case (2 c best v ivs)
  then show ?case by (auto simp: covers_seq_def split: option.splits if_splits)
qed (auto split: option.splits)

lemma best_start_correct:
  "case best_start c best ivs of
      None \<Rightarrow> best = None \<and> (\<forall>v \<in> set ivs. iv_end v \<le> c)
    | Some v \<Rightarrow> (best = Some v \<or> (v \<in> set ivs \<and> c < iv_end v)) \<and> (\<forall>b. best = Some b \<longrightarrow> iv_start v \<le> iv_start b) \<and>
        (\<forall>w \<in> set ivs. c < iv_end w \<longrightarrow> iv_start v \<le> iv_start w)"
proof (induction c best ivs rule: best_start.induct)
  case (2 c best v ivs)
  then show ?case by (fastforce split: option.splits if_splits)
qed (auto split: option.splits)

text \<open>The rounds after the first: the chosen intervals cover everything up to the target, or a sequence is covered by none.\<close>

lemma select_loop_rest:
  assumes "length ivs < fuel" "set ivs \<subseteq> set all" "\<forall>v \<in> set all. v \<in> set ivs \<or> iv_end v \<le> c" "t \<le> 18446744073709551615"
  shows "(select_loop fuel ivs c t False = Inl ErrForkedTimeline \<and> (\<exists>s > c. s \<le> t \<and> (\<forall>v \<in> set all. \<not> covers_seq v s))) \<or>
    (\<exists>chosen. select_loop fuel ivs c t False = Inr (Some (map (replaySegment \<circ> iv_seg) chosen)) \<and> set chosen \<subseteq> set all \<and>
       (\<forall>s. c < s \<longrightarrow> s \<le> t \<longrightarrow> (\<exists>v \<in> set chosen. covers_seq v s)))"
  using assms
proof (induction fuel arbitrary: ivs c)
  case (Suc fuel)
  show ?case
  proof (cases "c < t")
    case False
    then show ?thesis by (intro disjI2 exI [of _ "[]"]) auto
  next
    case True
    then have w: "u64 (int c + 1) = Suc c" using Suc.prems(4) by (simp add: u64_def)
    show ?thesis
    proof (cases "best_reach c None ivs")
      case None
      then have "\<forall>v \<in> set all. \<not> covers_seq v (Suc c)" using best_reach_correct [OF w, of None ivs] Suc.prems(3) by (auto simp: covers_seq_def)
      moreover have "select_loop (Suc fuel) ivs c t False = Inl ErrForkedTimeline" using None True by simp
      ultimately show ?thesis using True by (intro disjI1 conjI exI [of _ "Suc c"]) auto
    next
      case (Some v)
      then have v: "v \<in> set ivs" "covers_seq v (Suc c)" using best_reach_correct [OF w, of None ivs] by auto
      have "length (remove1 v ivs) = length ivs - 1" using v(1) by (simp add: length_remove1)
      then have l1: "length (remove1 v ivs) < fuel" using Suc.prems(1) length_pos_if_in_set [OF v(1)] by linarith
      have l2: "set (remove1 v ivs) \<subseteq> set all" using Suc.prems(2) set_remove1_subset [of v ivs] by (rule subset_trans [rotated])
      have ce: "c < iv_end v" using v(2) by (simp add: covers_seq_def)
      have rest: "\<forall>w \<in> set all. w \<in> set (remove1 v ivs) \<or> iv_end w \<le> iv_end v"
      proof
        fix w assume "w \<in> set all"
        then have "w \<in> set ivs \<or> iv_end w \<le> c" using Suc.prems(3) by blast
        then show "w \<in> set (remove1 v ivs) \<or> iv_end w \<le> iv_end v" using ce in_set_remove1 [of w v ivs] by (cases "w = v") auto
      qed
      have sl: "select_loop (Suc fuel) ivs c t False = bind_res (select_loop fuel (remove1 v ivs) (iv_end v) t False)
          (\<lambda>rest. Inr (map_option (\<lambda>rs. replaySegment (iv_seg v) # rs) rest))" using True Some by simp
      from Suc.IH [OF l1 l2 rest Suc.prems(4)] show ?thesis
      proof (elim disjE exE conjE)
        fix s assume "select_loop fuel (remove1 v ivs) (iv_end v) t False = Inl ErrForkedTimeline" "iv_end v < s" "s \<le> t" "\<forall>v \<in> set all. \<not> covers_seq v s"
        then show ?thesis using sl v(2) by (intro disjI1 conjI exI [of _ s]) (auto simp: covers_seq_def bind_res_def)
      next
        fix chosen assume ch: "select_loop fuel (remove1 v ivs) (iv_end v) t False = Inr (Some (map (replaySegment \<circ> iv_seg) chosen))"
          "set chosen \<subseteq> set all" "\<forall>s. iv_end v < s \<longrightarrow> s \<le> t \<longrightarrow> (\<exists>v \<in> set chosen. covers_seq v s)"
        have "\<exists>w \<in> set (v # chosen). covers_seq w s" if "c < s" "s \<le> t" for s
          using ch(3) that v(2) by (cases "s \<le> iv_end v") (auto simp: covers_seq_def)
        then show ?thesis using sl ch(1,2) v(1) Suc.prems(2) by (intro disjI2 exI [of _ "v # chosen"]) (auto simp: bind_res_def)
      qed
    qed
  qed
qed simp

lemma seq_in_triples_bound: "seq_in_triples ts domain \<le> 18446744073709551615"
proof (induction ts)
  case (Cons t ts)
  show ?case
  proof (cases "ParseUint (split_on CHR ''-'' t ! 2) 64")
    case (Inr q)
    then have "q \<le> 18446744073709551615" using ParseUint_Inr [OF Inr] by simp
    then show ?thesis using Cons Inr by (auto simp: Let_def split: sum.splits)
  qed (use Cons in \<open>auto simp: Let_def split: sum.splits\<close>)
qed simp

lemma seg_intervals_bound: "v \<in> set (seg_intervals segs domain) \<Longrightarrow> iv_end v \<le> 18446744073709551615"
  using seq_in_triples_bound by (auto simp: seg_intervals_def MariaSeqForDomain_def Let_def split: if_splits)

lemma seg_intervals_ends: "fold max (map iv_end (ivs :: seg_interval list)) n \<ge> t \<longleftrightarrow> t \<le> n \<or> (\<exists>v \<in> set ivs. t \<le> iv_end v)"
  by (induction ivs arbitrary: n) (auto simp: le_max_iff_disj)

text \<open>The first round, which may also start past the anchor: then no interval holds anything in between.\<close>

lemma select_loop_first:
  assumes "v0 \<in> set ivs" "t \<le> iv_end v0" "c < t" "t \<le> 18446744073709551615"
  shows "(select_loop (Suc (length ivs)) ivs c t True = Inl ErrForkedTimeline \<and> (\<exists>s > c. s \<le> t \<and> (\<forall>v \<in> set ivs. \<not> covers_seq v s))) \<or>
    (\<exists>chosen. select_loop (Suc (length ivs)) ivs c t True = Inr (Some (map (replaySegment \<circ> iv_seg) chosen)) \<and> set chosen \<subseteq> set ivs \<and>
       (\<forall>s. c < s \<longrightarrow> s \<le> t \<longrightarrow> (\<exists>v \<in> set ivs. covers_seq v s) \<longrightarrow> (\<exists>v \<in> set chosen. covers_seq v s)))"
proof -
  have w: "u64 (int c + 1) = Suc c" using assms(3,4) by (simp add: u64_def)
  define pick where "pick = (case best_reach c None ivs of None \<Rightarrow> best_start c None ivs | Some v \<Rightarrow> Some v)"
  have "\<exists>v. pick = Some v \<and> v \<in> set ivs \<and> c < iv_end v \<and>
      (\<forall>s. c < s \<longrightarrow> s \<le> iv_end v \<longrightarrow> (\<exists>x \<in> set ivs. covers_seq x s) \<longrightarrow> covers_seq v s)"
  proof (cases "best_reach c None ivs")
    case (Some v)
    then show ?thesis using best_reach_correct [OF w, where best = None and ivs = ivs] by (auto simp: pick_def covers_seq_def)
  next
    case None
    have "best_start c None ivs \<noteq> None" using best_start_correct [where c = c and best = None and ivs = ivs] assms(1-3) by (fastforce split: option.splits)
    then obtain v where v: "best_start c None ivs = Some v" by blast
    then have "v \<in> set ivs" "c < iv_end v" "\<forall>w \<in> set ivs. c < iv_end w \<longrightarrow> iv_start v \<le> iv_start w"
      using best_start_correct [where c = c and best = None and ivs = ivs] by auto
    then show ?thesis using None v by (fastforce simp: pick_def covers_seq_def)
  qed
  then obtain v where v: "pick = Some v" "v \<in> set ivs" "c < iv_end v"
    "\<And>s. c < s \<Longrightarrow> s \<le> iv_end v \<Longrightarrow> \<exists>x \<in> set ivs. covers_seq x s \<Longrightarrow> covers_seq v s" by blast
  have sl: "select_loop (Suc (length ivs)) ivs c t True = bind_res (select_loop (length ivs) (remove1 v ivs) (iv_end v) t False)
      (\<lambda>rest. Inr (map_option (\<lambda>rs. replaySegment (iv_seg v) # rs) rest))" using v(1) assms(3) by (simp add: pick_def)
  have l1: "length (remove1 v ivs) < length ivs" using v(2) length_pos_if_in_set [OF v(2)] by (simp add: length_remove1)
  have rest: "\<forall>w \<in> set ivs. w \<in> set (remove1 v ivs) \<or> iv_end w \<le> iv_end v" using in_set_remove1 [of _ v ivs] by fastforce
  from select_loop_rest [OF l1 set_remove1_subset rest assms(4)] show ?thesis
  proof (elim disjE exE conjE)
    fix s assume "select_loop (length ivs) (remove1 v ivs) (iv_end v) t False = Inl ErrForkedTimeline" "iv_end v < s" "s \<le> t"
      "\<forall>v \<in> set ivs. \<not> covers_seq v s"
    then show ?thesis using sl v(3) by (intro disjI1 conjI exI [of _ s]) (auto simp: bind_res_def)
  next
    fix chosen assume ch: "select_loop (length ivs) (remove1 v ivs) (iv_end v) t False = Inr (Some (map (replaySegment \<circ> iv_seg) chosen))"
      "set chosen \<subseteq> set ivs" "\<forall>s. iv_end v < s \<longrightarrow> s \<le> t \<longrightarrow> (\<exists>v \<in> set chosen. covers_seq v s)"
    have "\<exists>w \<in> set (v # chosen). covers_seq w s" if "c < s" "s \<le> t" "\<exists>x \<in> set ivs. covers_seq x s" for s
      using ch(3) that(1,2) v(4) [OF that(1) _ that(3)] by (cases "s \<le> iv_end v") auto
    then show ?thesis using sl ch(1,2) v(2) by (intro disjI2 exI [of _ "v # chosen"]) (auto simp: bind_res_def)
  qed
qed


definition wit_txns :: "nat \<Rightarrow> nat list \<Rightarrow> TxnBoundary list" where
  "wit_txns server qs = map (\<lambda>q. \<lparr>tb_Domain = 0, tb_Server = server, tb_Seq = q, tb_StartPos = 100 * int q, tb_Time = 0\<rparr>) qs"

definition wit_content :: "string \<Rightarrow> TxnBoundary list" where
  "wit_content p = (if p = ''a'' then wit_txns 1 [3, 4, 5, 6, 7] else wit_txns 2 [5, 6, 7, 8, 9])"

text \<open>Server 1 was replaced by server 2 after sequence 6: its own transaction 7 is cut off its file.\<close>

definition wit_positional :: "PositionalFile list" where
  "wit_positional = [\<lparr>pf_Path = ''b'', pf_Segment = ''s2'', pf_Boundaries = wit_txns 2 [5, 6, 7, 8, 9], pf_EndPos = 0\<rparr>,
     \<lparr>pf_Path = ''a'', pf_Segment = ''s1'', pf_Boundaries = wit_txns 1 [3, 4, 5, 6], pf_EndPos = 700\<rparr>]"

lemma contiguous_upt: "dom_seqs domain bs = [lo..<hi] \<Longrightarrow> contiguous domain bs"
  by (auto simp: contiguous_def)

lemma positional_exactly_once_witness:
  "\<exists>chunks. PlanMariadbPositionalFiles wit_positional 0 3 8 = Inr chunks \<and> replayed wit_content 0 chunks = [4, 5, 6, 7, 8] \<and>
    (\<exists>lo > 3. replayed wit_content 0 chunks = [lo..<Suc 8])"
proof -
  define chunks where "chunks = (case PlanMariadbPositionalFiles wit_positional 0 3 8 of Inr cs \<Rightarrow> cs | Inl _ \<Rightarrow> [])"
  have "is_ok (PlanMariadbPositionalFiles wit_positional 0 3 8)" by code_simp
  then have p: "PlanMariadbPositionalFiles wit_positional 0 3 8 = Inr chunks" by (auto simp: chunks_def is_ok_def split: sum.splits)
  have g: "\<forall>f \<in> set wit_positional. good_file wit_content 0 f"
  proof -
    have "contiguous 0 (wit_txns 2 [5, 6, 7, 8, 9])" by (rule contiguous_upt [of _ _ 5 10]) (simp add: wit_txns_def upt_rec)
    moreover have "contiguous 0 (wit_txns 1 [3, 4, 5, 6])" by (rule contiguous_upt [of _ _ 3 7]) (simp add: wit_txns_def upt_rec)
    ultimately show ?thesis by (simp add: wit_positional_def good_file_def wit_content_def in_order_def) (simp add: wit_txns_def)
  qed
  have "replayed wit_content 0 chunks = [4, 5, 6, 7, 8]" unfolding chunks_def by code_simp
  then show ?thesis using positional_exactly_once [OF p g] p by auto
qed

definition wit_mariadb_segment :: "string \<Rightarrow> string \<Rightarrow> string \<Rightarrow> ArchiveSegment" where
  "wit_mariadb_segment uuid start stop = (wit_replay_segment uuid stop None)\<lparr>sg_StartGTIDSet := start\<rparr>"

definition wit_mariadb_segments :: "ArchiveSegment list" where
  "wit_mariadb_segments = [wit_mariadb_segment ''s1'' ''0-1-3'' ''0-1-7'', wit_mariadb_segment ''s2'' ''0-2-5'' ''0-2-9'', wit_mariadb_segment ''s3'' ''0-3-20'' ''0-3-30'']"


text \<open>What stands before the archive is not missed: an archive that begins past the anchor is replayed from where it begins, and a
  target before it yields a plan that replays nothing.\<close>

definition wit_late :: "PositionalFile list" where
  "wit_late = [\<lparr>pf_Path = ''c'', pf_Segment = ''s1'', pf_Boundaries = wit_txns 1 [10, 11, 12], pf_EndPos = 0\<rparr>]"

lemma leading_gap_crossed:
  "case PlanMariadbPositionalFiles wit_late 0 5 11 of Inr chunks \<Rightarrow> replayed (\<lambda>_. wit_txns 1 [10, 11, 12]) 0 chunks = [10, 11] | Inl _ \<Rightarrow> False"
  "case PlanMariadbPositionalFiles wit_late 0 5 7 of Inr chunks \<Rightarrow> replayed (\<lambda>_. wit_txns 1 [10, 11, 12]) 0 chunks = [] | Inl _ \<Rightarrow> False"
  by code_simp+

end
