(* ===== verification/Archive_Pass.thy ===== *)
theory Archive_Pass
  imports Archiver
begin

text \<open>
  One archive pass of an instance (\<open>binlog.go\<close> and the pass of \<open>archiver.go\<close> in \<open>pkg/management/mysql/binlog\<close>): the listing
  of the binary logs, the upload of one file (body first, then its manifest), the status object of the segment and the
  index write, over a bucket in which every call may fail, before or after it took effect. The archiver's memos of what
  it has verified, scanned and indexed are part of the state; a restart of the process loses them. The files on disk, the
  hash and what scanning a file finds are arguments.
\<close>

section \<open>Binary logs\<close>

record BinaryLog =
  bl_Name :: string
  bl_SizeBytes :: int
  bl_Active :: bool

definition ParseSequence :: "string \<Rightarrow> int res" where
  "ParseSequence name =
     (let base = PathBase name; parts = split_on (CHR ''.'') base in
      if length parts < 2 \<or> last parts = [] then Inl (Errorf ''binlog: %q has no sequence suffix'' [base])
      else case ParseInt (last parts) of
             Inl err \<Rightarrow> Inl (Wrapf ''binlog: %q has a non-numeric sequence: %w'' [base] err)
           | Inr seq \<Rightarrow> Inr seq)"

fun active_loop :: "BinaryLog list \<Rightarrow> nat \<Rightarrow> int \<Rightarrow> nat option \<Rightarrow> nat option" where
  "active_loop [] i activeSeq activeIdx = activeIdx"
| "active_loop (l # logs) i activeSeq activeIdx =
     (case ParseSequence (bl_Name l) of
        Inl err \<Rightarrow> active_loop logs (Suc i) activeSeq activeIdx
      | Inr seq \<Rightarrow> if seq > activeSeq then active_loop logs (Suc i) seq (Some i) else active_loop logs (Suc i) activeSeq activeIdx)"

definition MarkActive :: "BinaryLog list \<Rightarrow> BinaryLog list" where
  "MarkActive logs =
     (case active_loop logs 0 (- 1) None of None \<Rightarrow> logs | Some i \<Rightarrow> logs[i := (logs ! i)\<lparr>bl_Active := True\<rparr>])"

definition Archivable :: "BinaryLog list \<Rightarrow> BinaryLog list" where
  "Archivable logs = filter (\<lambda>l. \<not> bl_Active l) logs"

section \<open>Statements and arguments\<close>

definition ReadArgs :: "string \<Rightarrow> string list \<Rightarrow> string list res" where
  "ReadArgs file extraArgs =
     (if file = [] then Inl (Errorf ''binlog: file is required'' []) else Inr ([''--base64-output=DECODE-ROWS'', file] @ extraArgs))"

record ReplayOptions =
  ro_Files :: "string list"
  ro_StopDatetime :: string
  ro_StopPosition :: int
  ro_StartPosition :: int
  ro_IncludeGTIDs :: string
  ro_ExcludeGTIDs :: string
  ro_MariaDB :: bool
  ro_ExtraArgs :: "string list"

definition ReplayArgs :: "ReplayOptions \<Rightarrow> string list res" where
  "ReplayArgs opt =
     (if ro_Files opt = [] then Inl (Errorf ''binlog: at least one file is required'' [])
      else if ro_StopPosition opt > 0 \<and> length (ro_Files opt) \<noteq> 1 then Inl (Errorf ''binlog: stop position requires exactly one file'' [])
      else Inr ([''--disable-log-bin''] @
             (if ro_StopDatetime opt \<noteq> [] then [''--stop-datetime='' @ ro_StopDatetime opt] else []) @
             (if ro_StopPosition opt > 0 then [''--stop-position='' @ FormatInt (ro_StopPosition opt)] else []) @
             (if ro_StartPosition opt > 0 then [''--start-position='' @ FormatInt (ro_StartPosition opt)] else []) @
             (if ro_MariaDB opt then []
              else (if ro_IncludeGTIDs opt \<noteq> [] then [''--include-gtids='' @ ro_IncludeGTIDs opt] else []) @
                   (if ro_ExcludeGTIDs opt \<noteq> [] then [''--exclude-gtids='' @ ro_ExcludeGTIDs opt] else [])) @
             ro_ExtraArgs opt @ ro_Files opt))"

definition FlushLogsStatement :: string where
  "FlushLogsStatement = ''FLUSH BINARY LOGS''"

definition PurgeLogsStatement :: "string \<Rightarrow> string res" where
  "PurgeLogsStatement upTo =
     (if upTo = [] then Inl (Errorf ''binlog: purge target file is required'' [])
      else if CHR 0x27 \<in> set upTo \<or> CHR 0x5C \<in> set upTo then Inl (Errorf ''binlog: invalid purge target %q'' [upTo])
      else Inr (''PURGE BINARY LOGS TO '' @ [CHR 0x27] @ upTo @ [CHR 0x27]))"

section \<open>The bucket, the disk and the memos\<close>

record ScanResult =
  sr_PreviousGTIDs :: string
  sr_GTIDSet :: string
  sr_FirstGTID :: string
  sr_LastGTID :: string
  sr_FirstEventTime :: gotime
  sr_LastEventTime :: gotime

text \<open>The identity of a file: its device and inode as one number, its size and its modification time.\<close>

record FileInfo =
  fi_inode :: nat
  fi_Size :: int
  fi_ModTime :: gotime

definition matches :: "FileInfo \<Rightarrow> FileInfo \<Rightarrow> bool" where
  "matches s fi \<longleftrightarrow> fi_inode s = fi_inode fi \<and> fi_Size s = fi_Size fi \<and> fi_ModTime s = fi_ModTime fi"

record local_file =
  lf_info :: FileInfo
  lf_bytes :: string
  lf_scan :: ScanResult

datatype stored_object = Body string | Manifest BinlogMetadata | Status ArchiveStatus

text \<open>How a call fails: without effect, or with the effect but reported as failed.\<close>

datatype fault = Before go_error | After go_error

record archive_world =
  aw_objects :: "(string, stored_object) gomap"
  aw_index :: s3_object
  aw_verified :: "(string, FileInfo \<times> BinlogMetadata) gomap"
  aw_deferredScans :: "(string, FileInfo \<times> ScanResult) gomap"
  aw_indexed :: "string list"
  aw_indexSeeded :: bool
  aw_faults :: "fault option list"

record pass_env =
  pe_archiver :: archiver
  pe_store :: S3ObjectStore
  pe_path :: "string \<Rightarrow> string"
  pe_disk :: "string \<Rightarrow> local_file option"
  pe_sha :: "string \<Rightarrow> string"
  pe_srv :: "string \<Rightarrow> s3_server"
  pe_now :: gotime

definition next_fault :: "archive_world \<Rightarrow> fault option \<times> archive_world" where
  "next_fault w = (case aw_faults w of [] \<Rightarrow> (None, w) | f # fs \<Rightarrow> (f, w\<lparr>aw_faults := fs\<rparr>))"

text \<open>A call with an effect on the state, the text its error is wrapped in, and what follows when it returns no error.\<close>

definition attempt ::
  "(archive_world \<Rightarrow> archive_world) \<Rightarrow> (go_error \<Rightarrow> go_error) \<Rightarrow> archive_world \<Rightarrow> (archive_world \<Rightarrow> 'a res \<times> archive_world) \<Rightarrow>
   'a res \<times> archive_world" where
  "attempt effect wrap w k =
     (case next_fault w of
        (Some (Before err), w1) \<Rightarrow> (Inl (wrap err), w1)
      | (Some (After err), w1) \<Rightarrow> (Inl (wrap err), effect w1)
      | (None, w1) \<Rightarrow> k (effect w1))"

definition put_object :: "string \<Rightarrow> stored_object \<Rightarrow> archive_world \<Rightarrow> archive_world" where
  "put_object key v w = w\<lparr>aw_objects := AList.update key v (aw_objects w)\<rparr>"

definition ErrCollision :: go_error where
  "ErrCollision = Errorf ''binlog: archive key already holds a different object'' []"

definition ErrNotCurrentPrimary :: go_error where
  "ErrNotCurrentPrimary = Errorf ''binlog: the cluster does not name this instance its current primary yet'' []"

definition errDeferred :: go_error where
  "errDeferred = Errorf ''binlog: file deferred'' []"

section \<open>One file\<close>

definition hashFile :: "pass_env \<Rightarrow> string \<Rightarrow> local_file \<Rightarrow> archive_world \<Rightarrow> (string \<times> int) res \<times> archive_world" where
  "hashFile env name f w =
     attempt id (Wrapf ''binlog: opening %q: %w'' [pe_path env name]) w (\<lambda>w.
     attempt id (Wrapf ''binlog: hashing %q: %w'' [pe_path env name]) w (\<lambda>w.
       (Inr (pe_sha env (lf_bytes f), int (length (lf_bytes f))), w)))"

type_synonym FileFilter = "string \<Rightarrow> ScanResult \<Rightarrow> bool res"

definition archive_present ::
  "pass_env \<Rightarrow> string \<Rightarrow> BinlogKeys \<Rightarrow> local_file \<Rightarrow> archive_world \<Rightarrow> (BinlogMetadata \<times> bool) res \<times> archive_world" where
  "archive_present env name keys f w =
     attempt id (Wrapf ''binlog: reading existing manifest %q: %w'' [bk_ManifestKey keys]) w (\<lambda>w.
       case map_of (aw_objects w) (bk_ManifestKey keys) of
         Some (Manifest prior) \<Rightarrow>
           (case hashFile env name f w of
              (Inl err, w1) \<Rightarrow> (Inl err, w1)
            | (Inr (sha, _), w1) \<Rightarrow>
                if nm_SHA256 prior \<noteq> [] \<and> nm_SHA256 prior \<noteq> sha
                then (Inl (Wrapf ''%w: %s (uuid %s): stored sha %s != local %s''
                        [name, ar_serverUUID (pe_archiver env), nm_SHA256 prior, sha] ErrCollision), w1)
                else (Inr (prior, False), w1\<lparr>aw_verified := AList.update name (lf_info f, prior) (aw_verified w1)\<rparr>))
       | _ \<Rightarrow> (Inl (Wrapf ''binlog: reading existing manifest %q: %w'' [bk_ManifestKey keys] (Errorf ''decoding JSON'' [])), w))"

definition file_manifest :: "pass_env \<Rightarrow> string \<Rightarrow> ScanResult \<Rightarrow> string \<Rightarrow> int \<Rightarrow> BinlogMetadata" where
  "file_manifest env name scan sha sz =
     \<lparr>nm_ClusterName = ar_clusterName (pe_archiver env), nm_ServerUUID = ar_serverUUID (pe_archiver env),
      nm_InstanceName = ar_instanceName (pe_archiver env), nm_BinlogName = name,
      nm_Sequence = (case ParseSequence name of Inl _ \<Rightarrow> 0 | Inr seq \<Rightarrow> seq), nm_FirstGTID = sr_FirstGTID scan,
      nm_LastGTID = sr_LastGTID scan, nm_GTIDSet = sr_GTIDSet scan, nm_FirstEventTime = sr_FirstEventTime scan,
      nm_LastEventTime = sr_LastEventTime scan, nm_SizeBytes = sz, nm_SHA256 = sha, nm_ArchivedAt = pe_now env\<rparr>"

definition upload_file ::
  "pass_env \<Rightarrow> string \<Rightarrow> BinlogKeys \<Rightarrow> local_file \<Rightarrow> ScanResult \<Rightarrow> archive_world \<Rightarrow> (BinlogMetadata \<times> bool) res \<times> archive_world" where
  "upload_file env name keys f scan w0 =
     (case hashFile env name f (w0\<lparr>aw_deferredScans := AList.delete name (aw_deferredScans w0)\<rparr>) of
        (Inl err, w) \<Rightarrow> (Inl err, w)
      | (Inr (sha, sz), w) \<Rightarrow>
          (let meta = file_manifest env name scan sha sz in
           attempt id (Wrapf ''binlog: opening %q: %w'' [pe_path env name]) w (\<lambda>w.
           attempt (put_object (bk_BinlogKey keys) (Body (lf_bytes f))) (Wrapf ''binlog: uploading %q: %w'' [name]) w (\<lambda>w.
           attempt (put_object (bk_ManifestKey keys) (Manifest meta)) (Wrapf ''binlog: writing manifest for %q: %w'' [name]) w (\<lambda>w.
             (Inr (meta, True), w\<lparr>aw_verified := AList.update name (lf_info f, meta) (aw_verified w)\<rparr>))))))"

definition scan_cached :: "string \<Rightarrow> local_file \<Rightarrow> archive_world \<Rightarrow> ScanResult option" where
  "scan_cached name f w =
     (case map_of (aw_deferredScans w) name of
        Some (info, scan) \<Rightarrow> if matches info (lf_info f) then Some scan else None
      | None \<Rightarrow> None)"

definition scan_file :: "string \<Rightarrow> local_file \<Rightarrow> archive_world \<Rightarrow> ScanResult res \<times> archive_world" where
  "scan_file name f w =
     (case scan_cached name f w of
        Some scan \<Rightarrow> (Inr scan, w)
      | None \<Rightarrow> attempt id (Wrapf ''binlog: scanning %q: %w'' [name]) w (\<lambda>w. (Inr (lf_scan f), w)))"

definition archive_new ::
  "pass_env \<Rightarrow> FileFilter option \<Rightarrow> string \<Rightarrow> BinlogKeys \<Rightarrow> local_file \<Rightarrow> archive_world \<Rightarrow> (BinlogMetadata \<times> bool) res \<times> archive_world" where
  "archive_new env allow name keys f w0 =
     (case scan_file name f w0 of
        (Inl err, w) \<Rightarrow> (Inl err, w)
      | (Inr scan, w) \<Rightarrow>
          (case allow of
             None \<Rightarrow> upload_file env name keys f scan w
           | Some admit \<Rightarrow>
               (case admit name scan of
                  Inl err \<Rightarrow> (Inl (Wrapf ''binlog: evaluating %q for the archive: %w'' [name] err), w)
                | Inr False \<Rightarrow>
                    (Inl errDeferred, w\<lparr>aw_deferredScans := AList.update name (lf_info f, scan) (aw_deferredScans w)\<rparr>)
                | Inr True \<Rightarrow> upload_file env name keys f scan w)))"

text \<open>The manifest of a file this process already proved archived, while the file is still the same.\<close>

definition verified_meta :: "string \<Rightarrow> local_file \<Rightarrow> archive_world \<Rightarrow> BinlogMetadata option" where
  "verified_meta name f w =
     (case map_of (aw_verified w) name of
        Some (info, meta) \<Rightarrow> if matches info (lf_info f) then Some meta else None
      | None \<Rightarrow> None)"

definition archiveFileAllowed ::
  "pass_env \<Rightarrow> FileFilter option \<Rightarrow> string \<Rightarrow> archive_world \<Rightarrow> (BinlogMetadata \<times> bool) res \<times> archive_world" where
  "archiveFileAllowed env allow name w =
     (case BuildBinlogKeys (pe_store env) (ar_clusterName (pe_archiver env)) (ar_serverUUID (pe_archiver env)) name of
        Inl err \<Rightarrow> (Inl err, w)
      | Inr keys \<Rightarrow>
          attempt id (Wrapf ''binlog: stat %q: %w'' [name]) w (\<lambda>w.
            case pe_disk env name of
              None \<Rightarrow> (Inl (Wrapf ''binlog: stat %q: %w'' [name] (Errorf ''no such file or directory'' [])), w)
            | Some f \<Rightarrow>
                (case verified_meta name f w of
                   Some meta \<Rightarrow> (Inr (meta, False), w)
                 | None \<Rightarrow> attempt id id w (\<lambda>w.
                     if map_of (aw_objects w) (bk_ManifestKey keys) \<noteq> None then archive_present env name keys f w
                     else archive_new env allow name keys f w))))"

text \<open>The file's manifest and whether it was uploaded, or None when the filter deferred it.\<close>

definition archiveFile ::
  "pass_env \<Rightarrow> FileFilter option \<Rightarrow> string \<Rightarrow> archive_world \<Rightarrow> (BinlogMetadata \<times> bool) option res \<times> archive_world" where
  "archiveFile env allow name w =
     (case archiveFileAllowed env allow name w of
        (Inl err, w1) \<Rightarrow> (if errors_Is err errDeferred then Inr None else Inl err, w1)
      | (Inr r, w1) \<Rightarrow> (Inr (Some r), w1))"

section \<open>The pass\<close>

record ArchivedFile =
  fl_Name :: string
  fl_GTIDSet :: string

record ArchiveResult =
  re_Archived :: "string list"
  re_LastArchivedBinlog :: string
  re_LastArchivedGTID :: string
  re_CoveredGTIDSet :: string
  re_LastArchivedTime :: gotime
  re_Files :: "ArchivedFile list"
  re_ForkCheck :: "ForkReport option"
  re_Deferred :: string

definition no_result :: ArchiveResult where
  "no_result = \<lparr>re_Archived = [], re_LastArchivedBinlog = [], re_LastArchivedGTID = [], re_CoveredGTIDSet = [],
     re_LastArchivedTime = zero_time, re_Files = [], re_ForkCheck = None, re_Deferred = []\<rparr>"

definition status_key :: "pass_env \<Rightarrow> string" where
  "status_key env = ArchiveStatusKey (pe_store env) (ar_clusterName (pe_archiver env)) (ar_serverUUID (pe_archiver env))"

definition new_status :: "archiver \<Rightarrow> ArchiveStatus" where
  "new_status a = \<lparr>as_ClusterName = ar_clusterName a, as_ServerUUID = ar_serverUUID a, as_InstanceName = ar_instanceName a,
     as_LastArchivedBinlog = [], as_LastArchivedGTID = [], as_FirstGTID = [], as_CoveredGTIDSet = [], as_UpdatedAt = zero_time\<rparr>"

definition loadStatus :: "pass_env \<Rightarrow> archive_world \<Rightarrow> ArchiveStatus res \<times> archive_world" where
  "loadStatus env w =
     attempt id id w (\<lambda>w.
       if map_of (aw_objects w) (status_key env) = None then (Inr (new_status (pe_archiver env)), w)
       else attempt id (Wrapf ''binlog: reading archive status: %w'' []) w (\<lambda>w.
         case map_of (aw_objects w) (status_key env) of
           Some (Status status) \<Rightarrow> (Inr status, w)
         | _ \<Rightarrow> (Inl (Wrapf ''binlog: reading archive status: %w'' [] (Errorf ''decoding JSON'' [])), w)))"

definition HasSegment :: "pass_env \<Rightarrow> archive_world \<Rightarrow> bool res \<times> archive_world" where
  "HasSegment env w =
     (case loadStatus env w of (Inl err, w1) \<Rightarrow> (Inl err, w1) | (Inr status, w1) \<Rightarrow> (Inr (as_LastArchivedBinlog status \<noteq> []), w1))"

definition own_files :: "archiver \<Rightarrow> ArchiveIndex \<Rightarrow> string list" where
  "own_files a index = (case Segment index (ar_serverUUID a) of Some seg \<Rightarrow> sg_Binlogs seg | None \<Rightarrow> [])"

definition seedIndexed :: "pass_env \<Rightarrow> string \<Rightarrow> archive_world \<Rightarrow> unit res \<times> archive_world" where
  "seedIndexed env name w =
     (if aw_indexSeeded w then (Inr (), w)
      else attempt id (Wrapf ''binlog: reading archive index: %w'' []) w (\<lambda>w.
        case GetJSONVersion (pe_srv env name) (aw_index w) of
          Inl err \<Rightarrow> (Inl (Wrapf ''binlog: reading archive index: %w'' [] err), w)
        | Inr (index, etag, exists) \<Rightarrow>
            (Inr (), w\<lparr>aw_indexed := (if exists then own_files (pe_archiver env) index else []), aw_indexSeeded := True\<rparr>)))"

text \<open>The report an index write leaves in the pass: that of the check on the index as the write read it.\<close>

definition write_report ::
  "pass_env \<Rightarrow> 'g gtid_ops \<Rightarrow> forkPass \<Rightarrow> ArchiveStatus \<Rightarrow> string \<Rightarrow> string \<Rightarrow> s3_object \<Rightarrow> ForkReport option \<Rightarrow> ForkReport option" where
  "write_report env ops p status name gset obj report =
     (let a = pe_archiver env in
      case GetJSONVersion (pe_srv env name) obj of
        Inl err \<Rightarrow> report
      | Inr (index, etag, exists) \<Rightarrow>
          (case foldFile a ops (pe_now env) status name gset index of
             Inl err \<Rightarrow> report
           | Inr index1 \<Rightarrow>
               (case checkForks a (pe_now env) p
                   (if fp_primary p \<and> fp_generation p > ix_Generation index1 then index1\<lparr>ix_Generation := fp_generation p\<rparr> else index1) of
                  (_, _, r) \<Rightarrow> Some r)))"

text \<open>Committing one file that moved something: the status object, then the index. The value is the error of the index write
  and the pass's fork report after it.\<close>

definition commit_file ::
  "pass_env \<Rightarrow> 'g gtid_ops \<Rightarrow> forkPass \<Rightarrow> ArchiveStatus \<Rightarrow> string \<Rightarrow> string \<Rightarrow> ForkReport option \<Rightarrow> archive_world \<Rightarrow>
   (go_error option \<times> ForkReport option) res \<times> archive_world" where
  "commit_file env ops p status name gset report w =
     attempt (put_object (status_key env) (Status status)) (Wrapf ''binlog: writing archive status: %w'' []) w (\<lambda>w.
       let report' = write_report env ops p status name gset (aw_index w) report in
       case updateIndex (pe_archiver env) ops (pe_now env) p (pe_srv env name) status name gset (aw_index w) of
         (Some err, obj) \<Rightarrow> (Inr (Some err, report'), w\<lparr>aw_index := obj, aw_indexSeeded := False\<rparr>)
       | (None, obj) \<Rightarrow> (Inr (None, report'), w\<lparr>aw_index := obj, aw_indexed := name # aw_indexed w\<rparr>))"

definition advance_status :: "ArchiveResult \<Rightarrow> BinlogMetadata \<Rightarrow> ArchiveStatus \<Rightarrow> ArchiveStatus" where
  "advance_status result meta status = status\<lparr>
     as_FirstGTID := (if as_FirstGTID status = [] \<and> nm_FirstGTID meta \<noteq> [] then nm_FirstGTID meta else as_FirstGTID status),
     as_LastArchivedBinlog := re_LastArchivedBinlog result, as_LastArchivedGTID := re_LastArchivedGTID result,
     as_CoveredGTIDSet := re_CoveredGTIDSet result\<rparr>"

definition advance_result :: "string \<Rightarrow> BinlogMetadata \<Rightarrow> string \<Rightarrow> ArchiveResult \<Rightarrow> ArchiveResult" where
  "advance_result name meta covered result = result\<lparr>re_LastArchivedBinlog := name,
     re_LastArchivedGTID := (if nm_LastGTID meta \<noteq> [] then nm_LastGTID meta else re_LastArchivedGTID result),
     re_CoveredGTIDSet := covered, re_LastArchivedTime := nm_ArchivedAt meta\<rparr>"

fun pass_loop ::
  "pass_env \<Rightarrow> 'g gtid_ops \<Rightarrow> FileFilter option \<Rightarrow> forkPass \<Rightarrow> BinaryLog list \<Rightarrow> ArchiveStatus \<Rightarrow> 'g \<Rightarrow> ArchiveResult \<Rightarrow>
   archive_world \<Rightarrow> (ArchiveResult \<times> go_error option) \<times> archive_world" where
  "pass_loop env ops allow p [] status covered result w = ((result, None), w)"
| "pass_loop env ops allow p (l # logs) status covered result w0 =
     (case next_fault w0 of
        (Some (Before err), w) \<Rightarrow> ((result, Some err), w)
      | (Some (After err), w) \<Rightarrow> ((result, Some err), w)
      | (None, w) \<Rightarrow>
     (case archiveFile env allow (bl_Name l) w of
        (Inl err, w1) \<Rightarrow> ((result, Some err), w1)
      | (Inr None, w1) \<Rightarrow> ((result\<lparr>re_Deferred := bl_Name l\<rparr>, None), w1)
      | (Inr (Some (meta, archived)), w1) \<Rightarrow>
     (let result1 = result\<lparr>re_Archived := (if archived then re_Archived result @ [bl_Name l] else re_Archived result),
            re_Files := re_Files result @ [\<lparr>fl_Name = bl_Name l, fl_GTIDSet = nm_GTIDSet meta\<rparr>]\<rparr>
      in case (if \<not> archived \<and> bl_Name l \<notin> set (aw_indexed w1) then seedIndexed env (bl_Name l) w1 else (Inr (), w1)) of
           (Inl err, w2) \<Rightarrow> ((result1, Some err), w2)
         | (Inr _, w2) \<Rightarrow>
     (case op_Parse ops (nm_GTIDSet meta) of
        Inl err \<Rightarrow> ((result1, Some (Wrapf ''binlog: parsing file gtid set for %q: %w'' [bl_Name l] err)), w2)
      | Inr fileSet \<Rightarrow>
     (let priorCovered = op_String ops covered;
          covered' = op_Union ops covered fileSet;
          advanced = (archived \<or> op_String ops covered' \<noteq> priorCovered \<or>
            (as_FirstGTID status = [] \<and> nm_FirstGTID meta \<noteq> []) \<or> bl_Name l \<notin> set (aw_indexed w2));
          result2 = advance_result (bl_Name l) meta (op_String ops covered') result1;
          status1 = advance_status result2 meta status
      in if \<not> advanced then pass_loop env ops allow p logs status1 covered' result2 w2
         else let status2 = status1\<lparr>as_UpdatedAt := pe_now env\<rparr>
              in case commit_file env ops p status2 (bl_Name l) (nm_GTIDSet meta) (re_ForkCheck result2) w2 of
                   (Inl err, w3) \<Rightarrow> ((result2, Some err), w3)
                 | (Inr (Some err, report), w3) \<Rightarrow> ((result2\<lparr>re_ForkCheck := report\<rparr>, Some err), w3)
                 | (Inr (None, report), w3) \<Rightarrow> pass_loop env ops allow p logs status2 covered' (result2\<lparr>re_ForkCheck := report\<rparr>) w3)))))"

definition archivePending ::
  "pass_env \<Rightarrow> 'g gtid_ops \<Rightarrow> BinaryLog list \<Rightarrow> FileFilter option \<Rightarrow> forkPass \<Rightarrow> archive_world \<Rightarrow>
   (ArchiveResult \<times> go_error option) \<times> archive_world" where
  "archivePending env ops logs allow p w =
     (case loadStatus env w of
        (Inl err, w1) \<Rightarrow> ((no_result, Some err), w1)
      | (Inr status, w1) \<Rightarrow>
          (case op_Parse ops (as_CoveredGTIDSet status) of
             Inl err \<Rightarrow> ((no_result, Some (Wrapf ''binlog: parsing covered gtid set: %w'' [] err)), w1)
           | Inr covered \<Rightarrow>
               pass_loop env ops allow p (Archivable logs) status covered
                 (no_result\<lparr>re_LastArchivedBinlog := as_LastArchivedBinlog status, re_LastArchivedGTID := as_LastArchivedGTID status,
                    re_CoveredGTIDSet := as_CoveredGTIDSet status\<rparr>) w1))"

text \<open>\<open>forks\<close> is what reading the fork authority gives, \<open>authority\<close> the generation and whether the instance is the current
  primary.\<close>

definition ArchivePending ::
  "pass_env \<Rightarrow> 'g gtid_ops \<Rightarrow> ForkJudge option res option \<Rightarrow> int \<times> bool \<Rightarrow> BinaryLog list \<Rightarrow> archive_world \<Rightarrow>
   (ArchiveResult \<times> go_error option) \<times> archive_world" where
  "ArchivePending env ops forks authority logs w =
     (if \<not> snd authority then ((no_result, Some ErrNotCurrentPrimary), w)
      else archivePending env ops logs None \<lparr>fp_source = forks, fp_primary = True, fp_generation = fst authority, fp_preloaded = None\<rparr> w)"

definition DrainPending ::
  "pass_env \<Rightarrow> 'g gtid_ops \<Rightarrow> BinaryLog list \<Rightarrow> FileFilter option \<Rightarrow> archive_world \<Rightarrow> (ArchiveResult \<times> go_error option) \<times> archive_world" where
  "DrainPending env ops logs allow w =
     archivePending env ops logs allow \<lparr>fp_source = None, fp_primary = False, fp_generation = 0, fp_preloaded = None\<rparr> w"

section \<open>Keys\<close>

text \<open>The names mysqld gives its binary logs: no path, and a sequence suffix.\<close>

definition binlog_name :: "string \<Rightarrow> bool" where
  "binlog_name n \<longleftrightarrow> CHR ''/'' \<notin> set n \<and> is_ok (ParseSequence n)"

definition body_key :: "pass_env \<Rightarrow> string \<Rightarrow> string" where
  "body_key env n = ServerPrefix (pe_store env) (ar_clusterName (pe_archiver env)) (ar_serverUUID (pe_archiver env)) @ n"

definition manifest_key :: "pass_env \<Rightarrow> string \<Rightarrow> string" where
  "manifest_key env n = body_key env n @ BinlogManifestSuffix"

lemma pass_keys:
  assumes "BuildBinlogKeys (pe_store env) (ar_clusterName (pe_archiver env)) (ar_serverUUID (pe_archiver env)) n = Inr keys"
  shows "bk_BinlogKey keys = body_key env n" "bk_ManifestKey keys = manifest_key env n"
  using assms by (auto simp: BuildBinlogKeys_def body_key_def manifest_key_def Let_def split: if_splits)

lemma split_on_snoc: "c \<notin> set t \<Longrightarrow> \<exists>y ys. split_on c (s @ c # t) = y # ys @ [t]"
proof (induction s)
  case (Cons x s)
  then obtain y ys where "split_on c (s @ c # t) = y # ys @ [t]" by blast
  then show ?case by (cases "x = c") (auto intro: exI [of _ "y # ys"])
qed simp

lemma split_on_last: "c \<notin> set t \<Longrightarrow> last (split_on c (s @ c # t)) = t"
  using split_on_snoc [of c t s] by auto

lemma ParseInt_json: "\<not> is_ok (ParseInt ''json'')"
  by code_simp

lemma binlog_name_suffix:
  assumes "binlog_name n"
  shows "n \<noteq> m @ BinlogManifestSuffix" "n \<noteq> ''_archive_status''"
proof -
  have pb: "PathBase n = n" if "n \<noteq> []" using that assms
    by (cases "rev n") (auto simp: PathBase_def binlog_name_def Let_def rev_swap)
  show "n \<noteq> m @ BinlogManifestSuffix"
  proof
    assume n: "n = m @ BinlogManifestSuffix"
    have "last (split_on CHR ''.'' (m @ CHR ''.'' # ''json'')) = ''json''" by (rule split_on_last) simp
    then have "last (split_on CHR ''.'' n) = ''json''" by (simp add: n BinlogManifestSuffix_def)
    then show False using assms pb ParseInt_json by (auto simp: binlog_name_def ParseSequence_def Let_def n BinlogManifestSuffix_def split: if_splits sum.splits)
  qed
  have "\<not> is_ok (ParseSequence ''_archive_status'')" by code_simp
  then show "n \<noteq> ''_archive_status''" using assms by (auto simp: binlog_name_def)
qed

lemma body_key_eq [simp]: "body_key env n = body_key env m \<longleftrightarrow> n = m" "manifest_key env n = manifest_key env m \<longleftrightarrow> n = m"
  by (simp_all add: body_key_def manifest_key_def)

lemma key_distinct [simp]:
  assumes "binlog_name n"
  shows "body_key env n \<noteq> manifest_key env m" "manifest_key env m \<noteq> body_key env n"
    "status_key env \<noteq> body_key env n" "status_key env \<noteq> manifest_key env n"
    "body_key env n \<noteq> status_key env" "manifest_key env n \<noteq> status_key env"
proof -
  have s: "status_key env = manifest_key env ''_archive_status''"
    by (simp add: status_key_def manifest_key_def body_key_def ArchiveStatusKey_def ArchiveStatusName_def BinlogManifestSuffix_def)
  show "body_key env n \<noteq> manifest_key env m" using binlog_name_suffix(1) [OF assms] by (simp add: body_key_def manifest_key_def)
  then show "manifest_key env m \<noteq> body_key env n" by simp
  show "status_key env \<noteq> body_key env n" using binlog_name_suffix(1) [OF assms, of "''_archive_status''"] unfolding s by (auto simp: body_key_def manifest_key_def)
  then show "body_key env n \<noteq> status_key env" by simp
  show "status_key env \<noteq> manifest_key env n" using binlog_name_suffix(2) [OF assms] unfolding s by simp
  then show "manifest_key env n \<noteq> status_key env" by simp
qed

section \<open>What an index write does to the file list\<close>

definition listed_files :: "archiver \<Rightarrow> s3_object \<Rightarrow> string set" where
  "listed_files a obj = (case obj of None \<Rightarrow> {} | Some (index, etag) \<Rightarrow> set (own_files a index))"

lemma update_loop_outcome:
  assumes "conditional_writes tag srv" "update_loop srv m n u obj = (r, u', obj')"
  shows "obj' = obj \<and> r \<noteq> Wrote \<and> (r = Unchanged \<longrightarrow>
      (\<exists>idx'. m (case obj of None \<Rightarrow> zero_index | Some (i, e) \<Rightarrow> i) (obj \<noteq> None) = Inr (idx', False))) \<or>
    r \<noteq> Unchanged \<and> (\<exists>idx'. m (case obj of None \<Rightarrow> zero_index | Some (i, e) \<Rightarrow> i) (obj \<noteq> None) = Inr (idx', True) \<and> obj' = Some (idx', tag idx'))"
  using assms(2)
proof (induction n arbitrary: u)
  case (Suc n)
  have g: "srv_get srv obj = Inr ob \<Longrightarrow> ob = obj" for ob using assms(1) unfolding conditional_writes_def by blast
  show ?case
  proof (cases "read_step srv m n obj")
    case (Holding idx etag k)
    then have m: "m (case obj of None \<Rightarrow> zero_index | Some (i, e) \<Rightarrow> i) (obj \<noteq> None) = Inr (idx, True)"
      using g by (auto simp: read_step_def GetJSONVersion_def bind_res_def split: sum.splits option.splits if_splits)
    obtain err o1 where p: "srv_put srv (if u then NoCondition else if etag = [] then IfNoneMatch else IfMatch etag) idx obj = (err, o1)" by force
    note c = conditional_put [OF assms(1) p]
    then have ni: "err \<noteq> Some NotImplemented" by auto
    have ps: "put_step srv u idx etag n obj = (case err of None \<Rightarrow> Wrote | Some PreconditionFailed \<Rightarrow> Idle n
        | Some NotImplemented \<Rightarrow> Failed (Wrapf ''writing archive index: %w'' [] (Errorf ''uploading: not implemented'' []))
        | Some (OtherError e) \<Rightarrow> Failed (Wrapf ''writing archive index: %w'' [] (Wrapf ''uploading: %w'' [] e)), u, o1)"
      using p ni by (auto simp: put_step_def PutJSONIf_def split: option.splits put_error.splits)
    from c show ?thesis using Suc Holding m ps by (auto split: option.splits put_error.splits)
  qed (use Suc.prems g in \<open>auto simp: read_step_def GetJSONVersion_def bind_res_def split: sum.splits option.splits if_splits\<close>)
qed auto

lemma own_files_find: "own_files a index = (case find (\<lambda>seg. sg_ServerUUID seg = ar_serverUUID a) (map erase_fork (ix_Segments index)) of
    Some seg \<Rightarrow> sg_Binlogs seg | None \<Rightarrow> [])"
proof -
  have "find (\<lambda>seg. sg_ServerUUID seg = ar_serverUUID a) (map erase_fork segs) =
    map_option erase_fork (find (\<lambda>seg. sg_ServerUUID seg = ar_serverUUID a) segs)" for segs
    by (induction segs) auto
  then show ?thesis by (simp add: own_files_def Segment_def erase_fork_def split: option.splits)
qed

lemma own_files_same: "same_files index index' \<Longrightarrow> own_files a index' = own_files a index"
  unfolding own_files_find same_files_def by simp

lemma update_segment_own:
  assumes "update_segment uuid f segs = Inr segs'" "\<And>seg seg'. f seg = Inr seg' \<Longrightarrow> sg_ServerUUID seg' = sg_ServerUUID seg"
    "find (\<lambda>seg. sg_ServerUUID seg = uuid) segs = Some seg"
  shows "\<exists>seg'. f seg = Inr seg' \<and> find (\<lambda>seg. sg_ServerUUID seg = uuid) segs' = Some seg'"
  using assms(1,3) by (induction segs arbitrary: segs') (auto simp: go_simps assms(2) split: if_splits)

lemma fold_segment_files:
  assumes "fold_segment ops now status name gset seg = Inr seg'" "name \<noteq> []"
  shows "sg_ServerUUID seg' = sg_ServerUUID seg" "set (sg_Binlogs seg') = insert name (set (sg_Binlogs seg))"
  using assms by (auto simp: fold_segment_def Let_def split: sum.splits if_splits)

lemma foldFile_own:
  assumes "foldFile a ops now status name gset index = Inr index'" "name \<noteq> []"
  shows "set (own_files a index') = insert name (set (own_files a index))"
proof -
  let ?is = "\<lambda>seg. sg_ServerUUID seg = ar_serverUUID a"
  define segs where "segs = (if Segment index (ar_serverUUID a) = None then ix_Segments index @ [new_segment a now] else ix_Segments index)"
  obtain segs' where u: "update_segment (ar_serverUUID a) (fold_segment ops now status name gset) segs = Inr segs'" "ix_Segments index' = segs'"
    using assms(1) by (auto simp: foldFile_def Let_def Segment_def segs_def go_simps cong: if_cong)
  have app: "find ?is (xs @ ys) = (case find ?is xs of None \<Rightarrow> find ?is ys | Some x \<Rightarrow> Some x)" for xs ys
    by (induction xs) auto
  obtain seg where s: "find ?is segs = Some seg" "set (sg_Binlogs seg) = set (own_files a index)"
    by (cases "Segment index (ar_serverUUID a)") (auto simp: segs_def Segment_def own_files_def app new_segment_def)
  from update_segment_own [OF u(1) _ s(1)] obtain seg' where f: "fold_segment ops now status name gset seg = Inr seg'" "find ?is segs' = Some seg'"
    using fold_segment_files(1) [OF _ assms(2)] by blast
  have "own_files a index' = sg_Binlogs seg'" using f(2) u(2) by (simp add: own_files_def Segment_def)
  then show ?thesis using fold_segment_files(2) [OF f(1) assms(2)] s(2) by simp
qed

lemma update_mutation_own:
  assumes "update_mutation a ops now p status name gset index e = Inr (index', write)" "name \<noteq> []"
  shows "write \<and> set (own_files a index') = insert name (set (own_files a index))"
proof -
  obtain i1 where f: "foldFile a ops now status name gset index = Inr i1" using assms(1) by (auto simp: update_mutation_def go_simps)
  define i2 where "i2 = (if fp_primary p \<and> fp_generation p > ix_Generation i1 then i1\<lparr>ix_Generation := fp_generation p\<rparr> else i1)"
  obtain c i3 r where k: "checkForks a now p i2 = (c, i3, r)" by (cases "checkForks a now p i2") auto
  have i: "index' = (if fr_Checked r then stamp_check a r i3 else i3)" "write" using assms(1) f k by (auto simp: update_mutation_def i2_def Let_def bind_res_def)
  have "same_files i1 index'" using checkForks_files [OF k] unfolding i(1) same_files_def by (simp add: i2_def stamp_check_def split: if_splits)
  then have "own_files a index' = own_files a i1" by (rule own_files_same)
  then show ?thesis using foldFile_own [OF f assms(2)] i(2) by simp
qed

lemma own_files_zero [simp]: "own_files a zero_index = []"
  by (simp add: own_files_def Segment_def zero_index_def)

lemma updateIndex_files:
  assumes "conditional_writes tag srv" "updateIndex a ops now p srv status name gset obj = (err, obj')" "name \<noteq> []"
  shows "(err \<noteq> None \<and> obj' = obj) \<or> listed_files a obj' = insert name (listed_files a obj)"
proof -
  let ?m = "update_mutation a ops now p status name gset"
  obtain r u where l: "update_loop srv ?m indexUpdateAttempts False obj = (r, u, obj')" "err = None \<longrightarrow> (\<forall>e. r \<noteq> Failed e)"
    using assms(2) by (auto simp: updateIndex_def UpdateArchiveIndex_def split: prod.splits writer.splits)
  from l(1) have "\<And>k. r \<noteq> Idle k" "\<And>i e k. r \<noteq> Holding i e k"
  proof -
    have "update_loop srv ?m n b obj = (r, u, obj') \<Longrightarrow> (\<forall>k. r \<noteq> Idle k) \<and> (\<forall>i e k. r \<noteq> Holding i e k)" for n b obj
      by (induction n arbitrary: b obj) (auto simp: put_step_def read_step_def split: writer.splits prod.splits put_result.splits sum.splits if_splits)
    then show "\<And>k. r \<noteq> Idle k" "\<And>i e k. r \<noteq> Holding i e k" using l(1) by blast+
  qed
  then have d: "err = None \<longrightarrow> r = Wrote \<or> r = Unchanged" using l(2) by (cases r) auto
  have "listed_files a (Some (i, tag i)) = insert name (listed_files a obj)"
    if "?m (case obj of None \<Rightarrow> zero_index | Some (i, e) \<Rightarrow> i) (obj \<noteq> None) = Inr (i, True)" for i
    using update_mutation_own [OF that assms(3)] by (cases obj) (auto simp: listed_files_def)
  moreover have "?m i e \<noteq> Inr (i', False)" for i e i' using update_mutation_own assms(3) by blast
  ultimately show ?thesis using update_loop_outcome [OF assms(1) l(1)] d by blast
qed

section \<open>What the bucket holds at every moment\<close>

definition manifest_at :: "pass_env \<Rightarrow> archive_world \<Rightarrow> string \<Rightarrow> BinlogMetadata option" where
  "manifest_at env w n = (case map_of (aw_objects w) (manifest_key env n) of Some (Manifest meta) \<Rightarrow> Some meta | _ \<Rightarrow> None)"

abbreviation listed_in :: "pass_env \<Rightarrow> archive_world \<Rightarrow> string set" where
  "listed_in env w \<equiv> listed_files (pe_archiver env) (aw_index w)"

text \<open>A manifest stands for a complete body with the hash it records; the index lists only files that have a manifest; and
  the memos are true of the bucket.\<close>

definition body_complete :: "pass_env \<Rightarrow> archive_world \<Rightarrow> bool" where
  "body_complete env w \<longleftrightarrow> (\<forall>n meta. binlog_name n \<longrightarrow> manifest_at env w n = Some meta \<longrightarrow>
     (\<exists>bytes. map_of (aw_objects w) (body_key env n) = Some (Body bytes) \<and> (nm_SHA256 meta = [] \<or> nm_SHA256 meta = pe_sha env bytes)))"

definition index_backed :: "pass_env \<Rightarrow> archive_world \<Rightarrow> bool" where
  "index_backed env w \<longleftrightarrow> (\<forall>n \<in> listed_in env w. binlog_name n \<longrightarrow> manifest_at env w n \<noteq> None)"

definition memos_true :: "pass_env \<Rightarrow> archive_world \<Rightarrow> bool" where
  "memos_true env w \<longleftrightarrow> (\<forall>n info meta. binlog_name n \<longrightarrow> map_of (aw_verified w) n = Some (info, meta) \<longrightarrow> manifest_at env w n = Some meta) \<and>
     set (aw_indexed w) \<subseteq> listed_in env w"

definition archive_ok :: "pass_env \<Rightarrow> archive_world \<Rightarrow> bool" where
  "archive_ok env w \<longleftrightarrow> body_complete env w \<and> index_backed env w \<and> memos_true env w"

text \<open>What every part of a pass does: it keeps all this and takes nothing away.\<close>

definition extends :: "pass_env \<Rightarrow> archive_world \<Rightarrow> archive_world \<Rightarrow> bool" where
  "extends env w w' \<longleftrightarrow> archive_ok env w' \<and> (\<forall>n meta. binlog_name n \<longrightarrow> manifest_at env w n = Some meta \<longrightarrow> manifest_at env w' n = Some meta) \<and>
     listed_in env w \<subseteq> listed_in env w'"

lemma extends_ok: "extends env w w' \<Longrightarrow> archive_ok env w'"
  by (simp add: extends_def)

lemma extends_refl: "archive_ok env w \<Longrightarrow> extends env w w"
  by (simp add: extends_def)

lemma extends_trans: "extends env w1 w2 \<Longrightarrow> extends env w2 w3 \<Longrightarrow> extends env w1 w3"
  by (auto simp: extends_def)

lemma manifest_at_simps [simp]:
  "manifest_at env (w\<lparr>aw_faults := fs\<rparr>) n = manifest_at env w n"
  "manifest_at env (w\<lparr>aw_deferredScans := ds\<rparr>) n = manifest_at env w n"
  "manifest_at env (w\<lparr>aw_verified := vs\<rparr>) n = manifest_at env w n"
  "manifest_at env (w\<lparr>aw_indexed := is\<rparr>) n = manifest_at env w n"
  "manifest_at env (w\<lparr>aw_indexSeeded := b\<rparr>) n = manifest_at env w n"
  "manifest_at env (w\<lparr>aw_index := obj\<rparr>) n = manifest_at env w n"
  by (simp_all add: manifest_at_def)

lemma archive_ok_simps [simp]:
  "archive_ok env (w\<lparr>aw_faults := fs\<rparr>) = archive_ok env w"
  "archive_ok env (w\<lparr>aw_deferredScans := ds\<rparr>) = archive_ok env w"
  "archive_ok env (w\<lparr>aw_indexSeeded := b\<rparr>) = archive_ok env w"
  by (simp_all add: archive_ok_def body_complete_def index_backed_def memos_true_def)

lemma extends_simps [simp]:
  "extends env w (w'\<lparr>aw_faults := fs\<rparr>) = extends env w w'" "extends env (w\<lparr>aw_faults := fs\<rparr>) w' = extends env w w'"
  "extends env w (w'\<lparr>aw_deferredScans := ds\<rparr>) = extends env w w'" "extends env (w\<lparr>aw_deferredScans := ds\<rparr>) w' = extends env w w'"
  "extends env w (w'\<lparr>aw_indexSeeded := b\<rparr>) = extends env w w'"
  by (simp_all add: extends_def)

lemma attempt_cases:
  assumes "attempt eff wrap w k = (r, w')"
  obtains (before) err fs where "r = Inl (wrap err)" "w' = w\<lparr>aw_faults := fs\<rparr>"
  | (after) err fs where "r = Inl (wrap err)" "w' = eff (w\<lparr>aw_faults := fs\<rparr>)"
  | (go) fs where "k (eff (w\<lparr>aw_faults := fs\<rparr>)) = (r, w')"
proof (cases "aw_faults w")
  case Nil
  then show ?thesis using assms go [of "[]"] by (simp add: attempt_def next_fault_def) (metis archive_world.surjective archive_world.update_convs(7))
next
  case (Cons f fs)
  then show ?thesis using assms before after go by (cases f) (auto simp: attempt_def next_fault_def split: fault.splits)
qed

text \<open>A call that only reads.\<close>

lemma attempt_read:
  assumes "attempt id wrap w k = (r, w')" "archive_ok env w"
    "\<And>fs. k (w\<lparr>aw_faults := fs\<rparr>) = (r, w') \<Longrightarrow> extends env w w'"
  shows "extends env w w'"
  using assms(1) by (cases rule: attempt_cases) (use assms(2,3) in \<open>auto simp: extends_refl\<close>)

section \<open>One file\<close>

lemma hashFile_cases:
  assumes "hashFile env n f w = (r, w')"
  shows "\<exists>fs. w' = w\<lparr>aw_faults := fs\<rparr> \<and> (\<forall>x. r = Inr x \<longrightarrow> x = (pe_sha env (lf_bytes f), int (length (lf_bytes f))))"
  using assms unfolding hashFile_def by (auto elim!: attempt_cases)

lemma manifest_put:
  assumes "binlog_name n"
  shows "manifest_at env (put_object (body_key env n) v w) m = manifest_at env w m"
    "manifest_at env (put_object (manifest_key env n) (Manifest meta) w) m = (if m = n then Some meta else manifest_at env w m)"
    "manifest_at env (put_object (status_key env) v w) n = manifest_at env w n"
  using assms by (auto simp: manifest_at_def put_object_def update_conv')

lemma put_body_ok:
  assumes "archive_ok env w" "binlog_name n" "manifest_at env w n = None"
  shows "extends env w (put_object (body_key env n) (Body bytes) w)"
proof -
  let ?w = "put_object (body_key env n) (Body bytes) w"
  have k: "map_of (aw_objects ?w) (body_key env m) = map_of (aw_objects w) (body_key env m)" if "m \<noteq> n" for m
    using that by (simp add: put_object_def update_conv')
  have m: "manifest_at env ?w x = manifest_at env w x" for x by (rule manifest_put(1) [OF assms(2)])
  have "body_complete env ?w"
    unfolding body_complete_def m
  proof (intro allI impI)
    fix x meta assume x: "binlog_name x" "manifest_at env w x = Some meta"
    then have "x \<noteq> n" using assms(3) by auto
    then show "\<exists>bytes. map_of (aw_objects ?w) (body_key env x) = Some (Body bytes) \<and> (nm_SHA256 meta = [] \<or> nm_SHA256 meta = pe_sha env bytes)"
      using x assms(1) k by (simp add: archive_ok_def body_complete_def)
  qed
  then show ?thesis using assms(1) by (auto simp: extends_def archive_ok_def index_backed_def memos_true_def m) (auto simp: put_object_def)
qed

lemma put_manifest_ok:
  assumes "archive_ok env w" "binlog_name n" "manifest_at env w n = None"
    "map_of (aw_objects w) (body_key env n) = Some (Body bytes)" "nm_SHA256 meta = pe_sha env bytes"
  shows "extends env w (put_object (manifest_key env n) (Manifest meta) w)"
proof -
  let ?w = "put_object (manifest_key env n) (Manifest meta) w"
  have m: "manifest_at env ?w x = (if x = n then Some meta else manifest_at env w x)" for x by (rule manifest_put(2) [OF assms(2)])
  have k: "binlog_name x \<Longrightarrow> map_of (aw_objects ?w) (body_key env x) = map_of (aw_objects w) (body_key env x)" for x
    by (simp add: put_object_def update_conv')
  have l: "listed_in env ?w = listed_in env w" "aw_verified ?w = aw_verified w" "aw_indexed ?w = aw_indexed w" by (simp_all add: put_object_def)
  have "body_complete env ?w" using assms(1,4,5) k by (auto simp: archive_ok_def body_complete_def m)
  moreover have "index_backed env ?w" using assms(1) by (auto simp: archive_ok_def index_backed_def m l)
  moreover have "memos_true env ?w" using assms(1,3) by (fastforce simp: archive_ok_def memos_true_def m l)
  ultimately show ?thesis using assms(3) by (auto simp: extends_def archive_ok_def m l)
qed

lemma verify_ok:
  assumes "archive_ok env w" "manifest_at env w n = Some meta"
  shows "extends env w (w\<lparr>aw_verified := AList.update n (info, meta) (aw_verified w)\<rparr>)"
  using assms by (auto simp: extends_def archive_ok_def body_complete_def index_backed_def memos_true_def update_conv' split: if_splits)

text \<open>The keys of a file, and what having archived it means.\<close>

definition file_keys :: "pass_env \<Rightarrow> string \<Rightarrow> BinlogKeys \<Rightarrow> bool" where
  "file_keys env n keys \<longleftrightarrow> bk_BinlogKey keys = body_key env n \<and> bk_ManifestKey keys = manifest_key env n"

definition archived_as :: "pass_env \<Rightarrow> archive_world \<Rightarrow> string \<Rightarrow> (BinlogMetadata \<times> bool) res \<Rightarrow> archive_world \<Rightarrow> bool" where
  "archived_as env w n r w' \<longleftrightarrow> extends env w w' \<and> (\<forall>meta archived. r = Inr (meta, archived) \<longrightarrow> manifest_at env w' n = Some meta)"

lemma archived_as_Inl: "extends env w w' \<Longrightarrow> archived_as env w n (Inl err) w'"
  by (simp add: archived_as_def)

lemma archived_as_faults [simp]: "archived_as env (w\<lparr>aw_faults := fs\<rparr>) n r w' = archived_as env w n r w'"
  by (simp add: archived_as_def)

lemma attempt_archived:
  assumes "attempt id wrap w k = (r, w')" "archive_ok env w"
    "\<And>fs. k (w\<lparr>aw_faults := fs\<rparr>) = (r, w') \<Longrightarrow> archived_as env w n r w'"
  shows "archived_as env w n r w'"
  using assms(1) by (cases rule: attempt_cases) (use assms(2,3) in \<open>auto simp: archived_as_def extends_refl\<close>)

lemma upload_file_ok:
  assumes "upload_file env n keys f scan w0 = (r, w')" "archive_ok env w0" "binlog_name n" "file_keys env n keys" "manifest_at env w0 n = None"
  shows "archived_as env w0 n r w'"
proof -
  have keys: "bk_BinlogKey keys = body_key env n" "bk_ManifestKey keys = manifest_key env n" using assms(4) by (simp_all add: file_keys_def)
  let ?b = "put_object (body_key env n) (Body (lf_bytes f))"
  obtain h w where h: "hashFile env n f (w0\<lparr>aw_deferredScans := AList.delete n (aw_deferredScans w0)\<rparr>) = (h, w)" by force
  obtain fs0 where w: "w = w0\<lparr>aw_deferredScans := AList.delete n (aw_deferredScans w0), aw_faults := fs0\<rparr>"
    "\<forall>x. h = Inr x \<longrightarrow> x = (pe_sha env (lf_bytes f), int (length (lf_bytes f)))" using hashFile_cases [OF h] by auto
  have ok: "archive_ok env w" "manifest_at env w n = None" "extends env w0 w" using assms(2,5) w(1) by (simp_all add: extends_refl)
  show ?thesis
  proof (cases h)
    case (Inl err)
    then show ?thesis using assms(1) h ok(3) by (auto simp: upload_file_def archived_as_def)
  next
    case (Inr x)
    define meta where "meta = file_manifest env n scan (pe_sha env (lf_bytes f)) (int (length (lf_bytes f)))"
    have sha: "nm_SHA256 meta = pe_sha env (lf_bytes f)" by (simp add: meta_def file_manifest_def)
    have e1: "extends env w0 (?b (w\<lparr>aw_faults := fs\<rparr>))" for fs
      using put_body_ok [of env "w\<lparr>aw_faults := fs\<rparr>" n "lf_bytes f"] ok assms(3) by (auto intro: extends_trans)
    have e2: "extends env w0 (put_object (manifest_key env n) (Manifest meta) ((?b (w\<lparr>aw_faults := fs\<rparr>))\<lparr>aw_faults := gs\<rparr>))" for fs gs
    proof (rule extends_trans [OF e1 [of fs]])
      have "archive_ok env ((?b (w\<lparr>aw_faults := fs\<rparr>))\<lparr>aw_faults := gs\<rparr>)" using extends_ok [OF e1 [of fs]] by simp
      then show "extends env (?b (w\<lparr>aw_faults := fs\<rparr>)) (put_object (manifest_key env n) (Manifest meta) ((?b (w\<lparr>aw_faults := fs\<rparr>))\<lparr>aw_faults := gs\<rparr>))"
        using put_manifest_ok [of env "(?b (w\<lparr>aw_faults := fs\<rparr>))\<lparr>aw_faults := gs\<rparr>" n "lf_bytes f" meta] assms(3) ok(2) sha
        by (simp add: manifest_put(1)) (simp add: put_object_def update_conv')
    qed
    have e3: "extends env w0 (v\<lparr>aw_verified := AList.update n (lf_info f, meta) (aw_verified v)\<rparr>) \<and> manifest_at env v n = Some meta"
      if "v = (put_object (manifest_key env n) (Manifest meta) ((?b (w\<lparr>aw_faults := fs\<rparr>))\<lparr>aw_faults := gs\<rparr>))" for v fs gs
    proof
      show m: "manifest_at env v n = Some meta" unfolding that by (simp add: manifest_put(2) [OF assms(3)])
      have e: "extends env w0 v" unfolding that by (rule e2)
      show "extends env w0 (v\<lparr>aw_verified := AList.update n (lf_info f, meta) (aw_verified v)\<rparr>)"
        by (rule extends_trans [OF e verify_ok [OF extends_ok [OF e] m]])
    qed
    have u: "attempt id (Wrapf ''binlog: opening %q: %w'' [pe_path env n]) w (\<lambda>w.
      attempt ?b (Wrapf ''binlog: uploading %q: %w'' [n]) w (\<lambda>w.
      attempt (put_object (manifest_key env n) (Manifest meta)) (Wrapf ''binlog: writing manifest for %q: %w'' [n]) w (\<lambda>w.
        (Inr (meta, True), w\<lparr>aw_verified := AList.update n (lf_info f, meta) (aw_verified w)\<rparr>)))) = (r, w')"
      using assms(1) h Inr w(2) keys by (simp add: upload_file_def meta_def Let_def)
    show ?thesis unfolding archived_as_def using u ok(3) e1 e2 e3 by (auto elim!: attempt_cases)
  qed
qed

lemma archive_present_ok:
  assumes "archive_present env n keys f w = (r, w')" "archive_ok env w" "file_keys env n keys"
  shows "archived_as env w n r w'"
proof -
  have keys: "bk_ManifestKey keys = manifest_key env n" using assms(3) by (simp add: file_keys_def)
  let ?k = "\<lambda>w. case map_of (aw_objects w) (bk_ManifestKey keys) of
         Some (Manifest prior) \<Rightarrow>
           (case hashFile env n f w of
              (Inl err, w1) \<Rightarrow> (Inl err, w1)
            | (Inr (sha, _), w1) \<Rightarrow>
                if nm_SHA256 prior \<noteq> [] \<and> nm_SHA256 prior \<noteq> sha
                then (Inl (Wrapf ''%w: %s (uuid %s): stored sha %s != local %s''
                        [n, ar_serverUUID (pe_archiver env), nm_SHA256 prior, sha] ErrCollision), w1)
                else (Inr (prior, False), w1\<lparr>aw_verified := AList.update n (lf_info f, prior) (aw_verified w1)\<rparr>))
       | _ \<Rightarrow> (Inl (Wrapf ''binlog: reading existing manifest %q: %w'' [bk_ManifestKey keys] (Errorf ''decoding JSON'' [])), w)"
  have step: "archived_as env w n r w'" if k: "?k w = (r, w')" and ok: "archive_ok env w" for w
  proof (cases "manifest_at env w n")
    case None
    then show ?thesis using k ok keys by (auto simp: manifest_at_def archived_as_def extends_refl split: option.splits stored_object.splits)
  next
    case (Some prior)
    obtain h w1 where h: "hashFile env n f w = (h, w1)" by force
    obtain fs where w1: "w1 = w\<lparr>aw_faults := fs\<rparr>" using hashFile_cases [OF h] by auto
    have "extends env w (w1\<lparr>aw_verified := AList.update n (lf_info f, prior) (aw_verified w1)\<rparr>)"
      using verify_ok [of env w1 n prior "lf_info f"] Some ok unfolding w1 by simp
    then show ?thesis using k h Some keys ok unfolding archived_as_def
      by (auto simp: manifest_at_def w1 extends_refl split: option.splits stored_object.splits sum.splits prod.splits if_splits)
  qed
  show ?thesis
  proof (rule attempt_archived [OF assms(1) [unfolded archive_present_def] assms(2)])
    fix fs assume "?k (w\<lparr>aw_faults := fs\<rparr>) = (r, w')"
    from step [OF this] show "archived_as env w n r w'" using assms(2) by simp
  qed
qed

lemma archive_new_ok:
  assumes "archive_new env allow n keys f w0 = (r, w')" "archive_ok env w0" "binlog_name n" "file_keys env n keys" "manifest_at env w0 n = None"
  shows "archived_as env w0 n r w'"
proof -
  obtain s w where s: "scan_file n f w0 = (s, w)" by force
  obtain fs where w: "w = w0\<lparr>aw_faults := fs\<rparr>"
    using s by (auto simp: scan_file_def split: option.splits elim!: attempt_cases) (metis archive_world.surjective archive_world.update_convs(7))
  have up: "archived_as env w0 n r w'" if "upload_file env n keys f scan w = (r, w')" for scan
    using upload_file_ok [OF that] assms w by simp
  show ?thesis
  proof (cases s)
    case (Inl err)
    then show ?thesis using assms(1,2) s by (auto simp: archive_new_def archived_as_def extends_refl w)
  next
    case (Inr scan)
    show ?thesis
    proof (cases allow)
      case None
      then show ?thesis using assms(1) s Inr up by (simp add: archive_new_def)
    next
      case (Some admit)
      then show ?thesis using assms(1,2) s Inr up [of scan]
        by (cases "admit n scan") (auto simp: archive_new_def archived_as_def extends_refl w split: bool.splits)
    qed
  qed
qed

lemma archiveFileAllowed_ok:
  assumes "archiveFileAllowed env allow n w = (r, w')" "archive_ok env w" "binlog_name n"
  shows "archived_as env w n r w'"
proof (cases "BuildBinlogKeys (pe_store env) (ar_clusterName (pe_archiver env)) (ar_serverUUID (pe_archiver env)) n")
  case (Inl err)
  then show ?thesis using assms by (auto simp: archiveFileAllowed_def archived_as_def extends_refl)
next
  case (Inr keys)
  have keys: "file_keys env n keys" using pass_keys [OF Inr] by (simp add: file_keys_def)
  let ?new = "\<lambda>f w. if map_of (aw_objects w) (bk_ManifestKey keys) \<noteq> None then archive_present env n keys f w else archive_new env allow n keys f w"
  let ?k = "\<lambda>w. case pe_disk env n of
      None \<Rightarrow> (Inl (Wrapf ''binlog: stat %q: %w'' [n] (Errorf ''no such file or directory'' [])), w)
    | Some f \<Rightarrow> (case verified_meta n f w of Some meta \<Rightarrow> (Inr (meta, False), w) | None \<Rightarrow> attempt id id w (?new f))"
  have new: "archived_as env v n r w'" if "?new f v = (r, w')" "archive_ok env v" for f v
  proof (cases "map_of (aw_objects v) (bk_ManifestKey keys) = None")
    case True
    then have "manifest_at env v n = None" using keys by (simp add: manifest_at_def file_keys_def)
    then show ?thesis using archive_new_ok [OF _ that(2) assms(3) keys] that(1) True by simp
  next
    case False
    then show ?thesis using archive_present_ok [OF _ that(2) keys] that(1) by simp
  qed
  show ?thesis
  proof (rule attempt_archived [OF assms(1) [unfolded archiveFileAllowed_def Inr sum.case] assms(2)])
    fix fs assume k: "?k (w\<lparr>aw_faults := fs\<rparr>) = (r, w')"
    let ?w = "w\<lparr>aw_faults := fs\<rparr>"
    have ok: "archive_ok env ?w" using assms(2) by simp
    consider "pe_disk env n = None" | f meta where "pe_disk env n = Some f" "verified_meta n f ?w = Some meta"
      | f where "pe_disk env n = Some f" "verified_meta n f ?w = None" by (cases "pe_disk env n") auto
    then show "archived_as env w n r w'"
    proof cases
      case 1
      then show ?thesis using k assms(2) by (auto simp: archived_as_def extends_refl)
    next
      case (2 f meta)
      then have "manifest_at env ?w n = Some meta" using ok assms(3)
        by (auto simp: verified_meta_def archive_ok_def memos_true_def split: option.splits if_splits)
      then show ?thesis using k 2 assms(2) by (auto simp: archived_as_def extends_refl)
    next
      case (3 f)
      then have a: "attempt id id ?w (?new f) = (r, w')" using k by simp
      have "archived_as env ?w n r w'"
      proof (rule attempt_archived [OF a ok])
        fix gs assume "?new f (?w\<lparr>aw_faults := gs\<rparr>) = (r, w')"
        from new [OF this] show "archived_as env ?w n r w'" using assms(2) by simp
      qed
      then show ?thesis by simp
    qed
  qed
qed

lemma archiveFile_ok:
  assumes "archiveFile env allow n w = (r, w')" "archive_ok env w" "binlog_name n"
  shows "extends env w w'" "r = Inr (Some (meta, archived)) \<Longrightarrow> manifest_at env w' n = Some meta"
proof -
  obtain r1 where a: "archiveFileAllowed env allow n w = (r1, w')" "r = (case r1 of Inl err \<Rightarrow> if errors_Is err errDeferred then Inr None else Inl err | Inr x \<Rightarrow> Inr (Some x))"
    using assms(1) by (auto simp: archiveFile_def split: prod.splits sum.splits)
  note k = archiveFileAllowed_ok [OF a(1) assms(2,3)]
  show "extends env w w'" using k by (simp add: archived_as_def)
  show "manifest_at env w' n = Some meta" if "r = Inr (Some (meta, archived))" using k a(2) that by (auto simp: archived_as_def split: sum.splits if_splits)
qed

section \<open>The pass\<close>

lemma loadStatus_cases: "loadStatus env w = (r, w') \<Longrightarrow> w' = w\<lparr>aw_faults := aw_faults w'\<rparr>"
  unfolding loadStatus_def by (auto elim!: attempt_cases split: if_splits option.splits stored_object.splits)

lemma seedIndexed_ok:
  assumes "seedIndexed env n w = (r, w')" "archive_ok env w" "conditional_writes tag (pe_srv env n)"
  shows "extends env w w'" "manifest_at env w' m = manifest_at env w m"
proof -
  have g: "srv_get (pe_srv env n) obj = Inr ob \<Longrightarrow> ob = obj" for obj ob using assms(3) unfolding conditional_writes_def by blast
  have seed: "archive_ok env (v\<lparr>aw_indexed := (if exists then own_files (pe_archiver env) index else []), aw_indexSeeded := True\<rparr>)"
    if "GetJSONVersion (pe_srv env n) (aw_index v) = Inr (index, etag, exists)" "archive_ok env v" for v index etag exists
  proof -
    have "set (if exists then own_files (pe_archiver env) index else []) \<subseteq> listed_in env v"
      using that(1) by (auto simp: GetJSONVersion_def go_simps listed_files_def split: option.splits dest!: g)
    then show ?thesis using that(2) by (simp add: archive_ok_def body_complete_def index_backed_def memos_true_def)
  qed
  have "extends env w w' \<and> manifest_at env w' m = manifest_at env w m"
  proof (cases "aw_indexSeeded w")
    case True
    then show ?thesis using assms by (auto simp: seedIndexed_def extends_refl)
  next
    case False
    then have "attempt id (Wrapf ''binlog: reading archive index: %w'' []) w (\<lambda>w.
        case GetJSONVersion (pe_srv env n) (aw_index w) of
          Inl err \<Rightarrow> (Inl (Wrapf ''binlog: reading archive index: %w'' [] err), w)
        | Inr (index, etag, exists) \<Rightarrow>
            (Inr (), w\<lparr>aw_indexed := (if exists then own_files (pe_archiver env) index else []), aw_indexSeeded := True\<rparr>)) = (r, w')"
      using assms(1) by (simp add: seedIndexed_def)
    then show ?thesis
    proof (cases rule: attempt_cases)
      case (go fs)
      show ?thesis
      proof (cases "GetJSONVersion (pe_srv env n) (aw_index w)")
        case (Inr x)
        obtain index etag exists where x: "x = (index, etag, exists)" by (cases x) auto
        have "archive_ok env w'" using seed [of "w\<lparr>aw_faults := fs\<rparr>"] go Inr x assms(2) by auto
        then show ?thesis using go Inr x by (auto simp: extends_def)
      qed (use go assms(2) in \<open>auto simp: extends_refl\<close>)
    qed (use assms(2) in \<open>auto simp: extends_refl\<close>)
  qed
  then show "extends env w w'" "manifest_at env w' m = manifest_at env w m" by simp_all
qed

lemma put_status_ok: "archive_ok env w \<Longrightarrow> extends env w (put_object (status_key env) v w)"
proof -
  assume ok: "archive_ok env w"
  let ?w = "put_object (status_key env) v w"
  have m: "binlog_name n \<Longrightarrow> manifest_at env ?w n = manifest_at env w n" for n by (rule manifest_put(3))
  have k: "binlog_name n \<Longrightarrow> map_of (aw_objects ?w) (body_key env n) = map_of (aw_objects w) (body_key env n)" for n
    by (simp add: put_object_def update_conv')
  have l: "listed_in env ?w = listed_in env w" "aw_verified ?w = aw_verified w" "aw_indexed ?w = aw_indexed w" by (simp_all add: put_object_def)
  show ?thesis using ok by (simp add: extends_def archive_ok_def body_complete_def index_backed_def memos_true_def m k l)
qed

lemma put_status_manifest: "binlog_name n \<Longrightarrow> manifest_at env (put_object (status_key env) v w) n = manifest_at env w n"
  by (rule manifest_put(3))

lemma commit_file_ok:
  assumes "commit_file env ops p status n gset report w = (r, w')" "archive_ok env w" "conditional_writes tag (pe_srv env n)"
    "binlog_name n" "manifest_at env w n = Some meta"
  shows "extends env w w'" "r = Inr (None, report') \<Longrightarrow> n \<in> listed_in env w'"
proof -
  have ne: "n \<noteq> []" using assms(4) by (auto simp: binlog_name_def ParseSequence_def PathBase_def is_ok_def Let_def)
  let ?s = "put_object (status_key env) (Status status)"
  let ?k = "\<lambda>w. let report' = write_report env ops p status n gset (aw_index w) report in
       case updateIndex (pe_archiver env) ops (pe_now env) p (pe_srv env n) status n gset (aw_index w) of
         (Some err, obj) \<Rightarrow> (Inr (Some err, report'), w\<lparr>aw_index := obj, aw_indexSeeded := False\<rparr>)
       | (None, obj) \<Rightarrow> (Inr (None, report'), w\<lparr>aw_index := obj, aw_indexed := n # aw_indexed w\<rparr>)"
  have step: "extends env v w' \<and> (\<forall>report'. r = Inr (None, report') \<longrightarrow> n \<in> listed_in env w')"
    if k: "?k v = (r, w')" and ok: "archive_ok env v" and m: "manifest_at env v n \<noteq> None" for v
  proof -
    obtain err obj where u: "updateIndex (pe_archiver env) ops (pe_now env) p (pe_srv env n) status n gset (aw_index v) = (err, obj)" by force
    have c: "(err \<noteq> None \<and> obj = aw_index v) \<or> listed_files (pe_archiver env) obj = insert n (listed_in env v)"
      using updateIndex_files [OF assms(3) u ne] .
    then show ?thesis using k ok m u
      by (cases err) (auto simp: extends_def archive_ok_def body_complete_def index_backed_def memos_true_def Let_def)
  qed
  have s: "archive_ok env (?s (w\<lparr>aw_faults := fs\<rparr>))" "extends env w (?s (w\<lparr>aw_faults := fs\<rparr>))" "manifest_at env (?s (w\<lparr>aw_faults := fs\<rparr>)) n \<noteq> None" for fs
    using put_status_ok [of env "w\<lparr>aw_faults := fs\<rparr>" "Status status"] put_status_manifest [OF assms(4)] assms(2,5) by (auto simp: extends_ok)
  have "extends env w w' \<and> (\<forall>report'. r = Inr (None, report') \<longrightarrow> n \<in> listed_in env w')"
    using assms(1) [unfolded commit_file_def]
  proof (cases rule: attempt_cases)
    case (go fs)
    from step [OF this s(1,3)] show ?thesis using s(2) by (auto intro: extends_trans)
  qed (use assms(2) s(2) in \<open>auto simp: extends_refl\<close>)
  then show "extends env w w'" "r = Inr (None, report') \<Longrightarrow> n \<in> listed_in env w'" by auto
qed

text \<open>A file the pass reports: it is in the bucket with the GTID set reported, and the index lists it.\<close>

definition backed :: "pass_env \<Rightarrow> archive_world \<Rightarrow> ArchivedFile \<Rightarrow> bool" where
  "backed env w f \<longleftrightarrow> fl_Name f \<in> listed_in env w \<and> (\<exists>meta. manifest_at env w (fl_Name f) = Some meta \<and> nm_GTIDSet meta = fl_GTIDSet f)"

lemma backed_extends: "backed env w f \<Longrightarrow> extends env w w' \<Longrightarrow> binlog_name (fl_Name f) \<Longrightarrow> backed env w' f"
  unfolding backed_def extends_def by blast

text \<open>What a pass over \<open>logs\<close> reports when it returns no error: a first part of the logs, all of them unless one was deferred.\<close>

definition reports :: "pass_env \<Rightarrow> archive_world \<Rightarrow> BinaryLog list \<Rightarrow> ArchiveResult \<Rightarrow> ArchiveResult \<Rightarrow> bool" where
  "reports env w logs result result' \<longleftrightarrow> (\<exists>fs front rest. re_Files result' = re_Files result @ fs \<and> logs = front @ rest \<and>
     map fl_Name fs = map bl_Name front \<and> (rest = [] \<or> re_Deferred result' = bl_Name (hd rest)) \<and> (\<forall>f \<in> set fs. backed env w f) \<and>
     re_LastArchivedBinlog result' = (if front = [] then re_LastArchivedBinlog result else bl_Name (last front)))"

definition pass_names :: "(ArchiveIndex \<Rightarrow> string) \<Rightarrow> pass_env \<Rightarrow> BinaryLog list \<Rightarrow> bool" where
  "pass_names tag env logs \<longleftrightarrow> (\<forall>l \<in> set logs. binlog_name (bl_Name l) \<and> conditional_writes tag (pe_srv env (bl_Name l)))"

lemma reports_Cons:
  assumes "reports env w' logs (result2\<lparr>re_ForkCheck := rp\<rparr>) result'" "re_LastArchivedBinlog result2 = bl_Name l"
    "re_Files result2 = re_Files result @ [f]" "fl_Name f = bl_Name l" "backed env w' f"
  shows "reports env w' (l # logs) result result'"
proof -
  obtain fs front rest where r: "re_Files result' = re_Files result2 @ fs" "logs = front @ rest" "map fl_Name fs = map bl_Name front"
    "rest = [] \<or> re_Deferred result' = bl_Name (hd rest)" "\<forall>f \<in> set fs. backed env w' f"
    "re_LastArchivedBinlog result' = (if front = [] then bl_Name l else bl_Name (last front))"
    using assms(1,2) unfolding reports_def by (force cong: if_cong)
  show ?thesis unfolding reports_def
    by (rule exI [of _ "f # fs"], rule exI [of _ "l # front"], rule exI [of _ rest]) (use r assms in auto)
qed

lemma next_fault_cases:
  assumes "next_fault w = (f, w1)"
  shows "w1 = w\<lparr>aw_faults := aw_faults w1\<rparr>"
  using assms by (auto simp: next_fault_def split: list.splits)

lemma pass_loop_ok:
  assumes "pass_loop env ops allow p logs status covered result w = ((result', err), w')" "archive_ok env w" "pass_names tag env logs"
  shows "extends env w w' \<and> (err = None \<longrightarrow> reports env w' logs result result')"
  using assms
proof (induction logs arbitrary: status covered result w)
  case Nil
  then show ?case by (auto simp: extends_refl reports_def)
next
  case (Cons l logs)
  let ?n = "bl_Name l"
  have n: "binlog_name ?n" "conditional_writes tag (pe_srv env ?n)" "pass_names tag env logs" using Cons.prems(3) by (simp_all add: pass_names_def)
  obtain f0 w0 where f0: "next_fault w = (f0, w0)" by force
  have w0: "archive_ok env w0" "\<And>v. extends env w0 v = extends env w v"
    using next_fault_cases [OF f0] Cons.prems(2) by (metis archive_ok_simps(1), metis extends_simps(2))
  show ?case
  proof (cases f0)
    case (Some e)
    then show ?thesis using Cons.prems(1) f0 w0 extends_refl [OF w0(1)] by (cases e) auto
  next
    case None
    obtain r w1 where a: "archiveFile env allow ?n w0 = (r, w1)" by force
    note e1 = archiveFile_ok(1) [OF a w0(1) n(1)]
    consider (err) er where "r = Inl er" | (deferred) "r = Inr None" | (ok) meta archived where "r = Inr (Some (meta, archived))"
      by (cases r) (auto, metis option.exhaust prod.exhaust)
    then show ?thesis
    proof cases
      case err
      then show ?thesis using Cons.prems(1) f0 None a e1 w0(2) by auto
    next
      case deferred
      then have "result' = result\<lparr>re_Deferred := ?n\<rparr>" "w' = w1" using Cons.prems(1) f0 None a by auto
      then show ?thesis using e1 w0(2) unfolding reports_def by (auto intro!: exI [of _ "[]"])
    next
      case ok
      define result1 where "result1 = result\<lparr>re_Archived := (if archived then re_Archived result @ [?n] else re_Archived result),
            re_Files := re_Files result @ [\<lparr>fl_Name = ?n, fl_GTIDSet = nm_GTIDSet meta\<rparr>]\<rparr>"
      obtain s w2 where s: "(if \<not> archived \<and> ?n \<notin> set (aw_indexed w1) then seedIndexed env ?n w1 else (Inr (), w1)) = (s, w2)" by force
      have e2: "extends env w1 w2" using s seedIndexed_ok(1) [OF _ extends_ok [OF e1] n(2)] extends_ok [OF e1] by (auto simp: extends_refl split: if_splits)
      have m2: "manifest_at env w2 ?n = Some meta" using archiveFile_ok(2) [OF a w0(1) n(1) ok] e2 n(1) by (auto simp: extends_def)
      have e: "extends env w w2" using extends_trans [OF e1 e2] w0(2) by simp
      show ?thesis
      proof (cases "\<exists>u fileSet. s = Inr u \<and> op_Parse ops (nm_GTIDSet meta) = Inr fileSet")
        case False
        then have "\<exists>er. err = Some er" "w' = w2" using Cons.prems(1) f0 None a ok s by (auto simp: Let_def split: sum.splits)
        then show ?thesis using e by auto
      next
        case True
        then obtain fileSet where fs: "op_Parse ops (nm_GTIDSet meta) = Inr fileSet" and s': "s = Inr ()" by auto
        define covered' where "covered' = op_Union ops covered fileSet"
        define result2 where "result2 = advance_result ?n meta (op_String ops covered') result1"
        define status1 where "status1 = advance_status result2 meta status"
        define advanced where "advanced = (archived \<or> op_String ops covered' \<noteq> op_String ops covered \<or>
            (as_FirstGTID status = [] \<and> nm_FirstGTID meta \<noteq> []) \<or> ?n \<notin> set (aw_indexed w2))"
        have r2: "re_LastArchivedBinlog result2 = ?n" "re_Files result2 = re_Files result @ [\<lparr>fl_Name = ?n, fl_GTIDSet = nm_GTIDSet meta\<rparr>]"
          by (simp_all add: result2_def advance_result_def result1_def)
        have step: "pass_loop env ops allow p (l # logs) status covered result w =
          (if \<not> advanced then pass_loop env ops allow p logs status1 covered' result2 w2
           else case commit_file env ops p (status1\<lparr>as_UpdatedAt := pe_now env\<rparr>) ?n (nm_GTIDSet meta) (re_ForkCheck result2) w2 of
               (Inl er, w3) \<Rightarrow> ((result2, Some er), w3)
             | (Inr (Some er, report), w3) \<Rightarrow> ((result2\<lparr>re_ForkCheck := report\<rparr>, Some er), w3)
             | (Inr (None, report), w3) \<Rightarrow> pass_loop env ops allow p logs (status1\<lparr>as_UpdatedAt := pe_now env\<rparr>) covered' (result2\<lparr>re_ForkCheck := report\<rparr>) w3)"
          by (simp only: pass_loop.simps f0 None a ok s s' fs prod.case option.case sum.case Let_def
              result1_def covered'_def result2_def status1_def advanced_def)
        have done_: "extends env w w' \<and> (err = None \<longrightarrow> reports env w' (l # logs) result result')"
          if lp: "pass_loop env ops allow p logs st covered' (result2\<lparr>re_ForkCheck := rp\<rparr>) w3 = ((result', err), w')" and e3: "extends env w2 w3"
            and li: "?n \<in> listed_in env w3" for st rp w3
        proof -
          note ih = Cons.IH [OF lp extends_ok [OF e3] n(3)]
          have b: "backed env w3 \<lparr>fl_Name = ?n, fl_GTIDSet = nm_GTIDSet meta\<rparr>" using li e3 m2 n(1) by (auto simp: backed_def extends_def)
          then have "backed env w' \<lparr>fl_Name = ?n, fl_GTIDSet = nm_GTIDSet meta\<rparr>" using backed_extends [OF b] ih n(1) by simp
          then show ?thesis using ih reports_Cons [OF _ r2] extends_trans [OF extends_trans [OF e e3]] by auto
        qed
        show ?thesis
        proof (cases advanced)
          case False
          then have "?n \<in> listed_in env w2" using extends_ok [OF e2] by (auto simp: advanced_def archive_ok_def memos_true_def)
          then show ?thesis using done_ [of status1 "re_ForkCheck result2" w2] False step Cons.prems(1) extends_refl [OF extends_ok [OF e2]] by simp
        next
          case True
          obtain c w3 where c: "commit_file env ops p (status1\<lparr>as_UpdatedAt := pe_now env\<rparr>) ?n (nm_GTIDSet meta) (re_ForkCheck result2) w2 = (c, w3)" by force
          note ck = commit_file_ok [OF c extends_ok [OF e2] n(2,1) m2]
          consider (fin) report where "c = Inr (None, report)" | (fail) "\<exists>er. err = Some er" "w' = w3"
            using True step Cons.prems(1) c by (auto split: sum.splits prod.splits option.splits)
          then show ?thesis
          proof cases
            case fin
            then show ?thesis using done_ ck True step Cons.prems(1) c by auto
          qed (use e ck(1) extends_trans in auto)
        qed
      qed
    qed
  qed
qed

lemma archivePending_ok:
  assumes "archivePending env ops logs allow p w = ((result, err), w')" "archive_ok env w" "pass_names tag env (Archivable logs)"
  shows "extends env w w'" "err = None \<Longrightarrow> \<exists>result0. re_Files result0 = [] \<and> reports env w' (Archivable logs) result0 result"
proof -
  obtain s w1 where s: "loadStatus env w = (s, w1)" by force
  have w1: "archive_ok env w1" "\<And>v. extends env w1 v = extends env w v"
    using loadStatus_cases [OF s] assms(2) by (metis archive_ok_simps(1), metis extends_simps(2))
  have "extends env w w' \<and> (err = None \<longrightarrow> (\<exists>result0. re_Files result0 = [] \<and> reports env w' (Archivable logs) result0 result))"
  proof (cases "\<exists>status covered. s = Inr status \<and> op_Parse ops (as_CoveredGTIDSet status) = Inr covered")
    case True
    then obtain status covered where st: "s = Inr status" "op_Parse ops (as_CoveredGTIDSet status) = Inr covered" by blast
    let ?r0 = "no_result\<lparr>re_LastArchivedBinlog := as_LastArchivedBinlog status, re_LastArchivedGTID := as_LastArchivedGTID status,
      re_CoveredGTIDSet := as_CoveredGTIDSet status\<rparr>"
    have "pass_loop env ops allow p (Archivable logs) status covered ?r0 w1 = ((result, err), w')"
      using assms(1) s st by (simp add: archivePending_def)
    from pass_loop_ok [OF this w1(1) assms(3)] show ?thesis using w1(2) by (auto simp: no_result_def intro!: exI [of _ ?r0])
  next
    case False
    then show ?thesis using assms(1) s w1(2) extends_refl [OF w1(1)] by (auto simp: archivePending_def split: sum.splits)
  qed
  then show "extends env w w'" "err = None \<Longrightarrow> \<exists>result0. re_Files result0 = [] \<and> reports env w' (Archivable logs) result0 result" by auto
qed

section \<open>Any run of passes, crashes and restarts\<close>

text \<open>The same archive seen at another moment: other files on disk, another clock, another behaviour of the endpoint.\<close>

definition same_archive :: "pass_env \<Rightarrow> pass_env \<Rightarrow> bool" where
  "same_archive env env' \<longleftrightarrow> pe_archiver env' = pe_archiver env \<and> pe_store env' = pe_store env \<and> pe_sha env' = pe_sha env"

definition restarted :: "archive_world \<Rightarrow> archive_world" where
  "restarted w = w\<lparr>aw_verified := [], aw_deferredScans := [], aw_indexed := [], aw_indexSeeded := False\<rparr>"

text \<open>A pass with any calls failing, a crash included (it is a call that fails, followed by a restart), and index writes by others.\<close>

inductive archive_run :: "'g gtid_ops \<Rightarrow> (ArchiveIndex \<Rightarrow> string) \<Rightarrow> pass_env \<Rightarrow> archive_world \<Rightarrow> archive_world \<Rightarrow> bool"
  for ops :: "'g gtid_ops" and tag env w0 where
  run_start: "archive_run ops tag env w0 w0"
| run_pass: "archive_run ops tag env w0 w \<Longrightarrow> same_archive env env' \<Longrightarrow> pass_names tag env' (Archivable logs) \<Longrightarrow>
    archivePending env' ops logs allow p (w\<lparr>aw_faults := fs\<rparr>) = (r, w') \<Longrightarrow> archive_run ops tag env w0 w'"
| run_restart: "archive_run ops tag env w0 w \<Longrightarrow> archive_run ops tag env w0 (restarted w)"
| run_others: "archive_run ops tag env w0 w \<Longrightarrow> listed_files (pe_archiver env) obj = listed_in env w \<Longrightarrow>
    archive_run ops tag env w0 (w\<lparr>aw_index := obj\<rparr>)"

lemma same_archive_ok:
  assumes "same_archive env env'"
  shows "archive_ok env' w = archive_ok env w" "manifest_at env' w n = manifest_at env w n" "listed_in env' w = listed_in env w" "body_key env' n = body_key env n"
proof -
  have k: "body_key env' n = body_key env n" "manifest_key env' n = manifest_key env n" for n
    using assms by (simp_all add: same_archive_def body_key_def manifest_key_def)
  show "archive_ok env' w = archive_ok env w" "manifest_at env' w n = manifest_at env w n" "listed_in env' w = listed_in env w" "body_key env' n = body_key env n"
    using assms by (simp_all add: same_archive_def archive_ok_def body_complete_def index_backed_def memos_true_def manifest_at_def k)
qed

lemma archive_run_ok: "archive_run ops tag env w0 w \<Longrightarrow> archive_ok env w0 \<Longrightarrow> archive_ok env w"
proof (induction rule: archive_run.induct)
  case (run_pass w env' logs allow p fs r w')
  obtain result err where r: "r = (result, err)" by force
  have "archive_ok env' (w\<lparr>aw_faults := fs\<rparr>)" using run_pass same_archive_ok(1) by simp
  from archivePending_ok(1) [OF run_pass.hyps(4) [unfolded r] this run_pass.hyps(3)] show ?case
    using same_archive_ok(1) [OF run_pass.hyps(2)] extends_ok by blast
next
  case (run_restart w)
  then show ?case by (auto simp: restarted_def archive_ok_def body_complete_def index_backed_def memos_true_def)
next
  case (run_others w obj)
  then show ?case by (simp add: archive_ok_def body_complete_def index_backed_def memos_true_def)
qed


section \<open>Witness\<close>

definition wit_file :: local_file where
  "wit_file = \<lparr>lf_info = \<lparr>fi_inode = 1, fi_Size = 3, fi_ModTime = 5\<rparr>, lf_bytes = ''abc'',
     lf_scan = \<lparr>sr_PreviousGTIDs = [], sr_GTIDSet = ''ab:1-3'', sr_FirstGTID = ''ab:1'', sr_LastGTID = ''ab:3'', sr_FirstEventTime = 1, sr_LastEventTime = 2\<rparr>\<rparr>"

definition wit_pass_env :: pass_env where
  "wit_pass_env = \<lparr>pe_archiver = wit_archiver, pe_store = wit_store, pe_path = id, pe_disk = (\<lambda>_. Some wit_file), pe_sha = rev,
     pe_srv = (\<lambda>_. ideal_server), pe_now = 7\<rparr>"

definition wit_empty :: archive_world where
  "wit_empty = \<lparr>aw_objects = [], aw_index = None, aw_verified = [], aw_deferredScans = [], aw_indexed = [], aw_indexSeeded = False, aw_faults = []\<rparr>"

definition wit_logs :: "BinaryLog list" where
  "wit_logs = [\<lparr>bl_Name = ''b.000001'', bl_SizeBytes = 3, bl_Active = False\<rparr>, \<lparr>bl_Name = ''b.000002'', bl_SizeBytes = 1, bl_Active = True\<rparr>]"

definition wit_primary :: forkPass where
  "wit_primary = \<lparr>fp_source = None, fp_primary = True, fp_generation = 1, fp_preloaded = None\<rparr>"

text \<open>The first pass dies while writing the manifest, which took effect.\<close>

definition wit_first :: "(ArchiveResult \<times> go_error option) \<times> archive_world" where
  "wit_first = archivePending wit_pass_env mysqlGTIDSet wit_logs None wit_primary (wit_empty\<lparr>aw_faults := replicate 9 None @ [Some (After (Errorf ''killed'' []))]\<rparr>)"

definition wit_second :: "(ArchiveResult \<times> go_error option) \<times> archive_world" where
  "wit_second = archivePending wit_pass_env mysqlGTIDSet wit_logs None wit_primary ((restarted (snd wit_first))\<lparr>aw_faults := []\<rparr>)"

lemma wit_pass_facts:
  "snd (fst wit_first) = Some (Wrapf ''binlog: writing manifest for %q: %w'' [''b.000001''] (Errorf ''killed'' []))"
  "listed_in wit_pass_env (snd wit_first) = {}" "snd (fst wit_second) = None" "re_Archived (fst (fst wit_second)) = []"
  "listed_in wit_pass_env (snd wit_second) = {''b.000001''}" "binlog_name ''b.000001''"
  by code_simp+


end
