(* ===== verification/Cluster_Floor.thy ===== *)
theory Cluster_Floor
  imports Archive_Pass Instance_Report
begin

text \<open>
  The Cluster as the archiver of an instance sees it (\<open>pkg/management/mysql/instance/archiving.go\<close>): the part of the last
  observed Cluster that bounds the purge, authorises the index writes and gates the drain, the authority of the fork
  check, and the archiver's state as the instance reports it.
\<close>

section \<open>The observed Cluster\<close>

record floorView =
  fv_instances :: "string list"
  fv_diverged :: "string list"
  fv_positions :: "(string, string) gomap"
  fv_currentPrimary :: string
  fv_clusterUID :: string
  fv_generation :: int
  fv_timeline :: MariaDBTimeline
  fv_epochs :: "ArchiveEpoch list"

definition floor_Observe :: "Cluster \<Rightarrow> floorView" where
  "floor_Observe cluster =
     (let st = cl_Status cluster in
      \<lparr>fv_instances = st_InstanceNames st, fv_diverged = st_DivergedInstances st, fv_positions = st_GTIDExecutedByInstance st,
       fv_currentPrimary = st_CurrentPrimary st, fv_clusterUID = cl_UID cluster, fv_generation = st_CurrentPrimaryGeneration st,
       fv_timeline = map (\<lambda>e. \<lparr>ServerID = se_ServerID e, Handoff = se_Handoff e\<rparr>) (st_MariaDBTimeline st),
       fv_epochs = map (\<lambda>e. \<lparr>ae_Instance = se_Instance e, ae_ServerID = se_ServerID e, ae_Handoff = se_Handoff e\<rparr>) (st_MariaDBTimeline st)\<rparr>)"

text \<open>The view is absent until the first observation.\<close>

definition floor_Primary :: "floorView option \<Rightarrow> string \<times> string \<times> bool" where
  "floor_Primary latest =
     (case latest of
        None \<Rightarrow> ([], [], False)
      | Some view \<Rightarrow>
          if fv_currentPrimary view = [] then ([], [], False)
          else case map_of (fv_positions view) (fv_currentPrimary view) of
                 Some position \<Rightarrow> (fv_currentPrimary view, position, True)
               | None \<Rightarrow> (fv_currentPrimary view, [], False))"

definition floor_ClusterUID :: "floorView option \<Rightarrow> string" where
  "floor_ClusterUID latest = (case latest of None \<Rightarrow> [] | Some view \<Rightarrow> fv_clusterUID view)"

definition floor_Authority :: "string \<Rightarrow> floorView option \<Rightarrow> int \<times> bool" where
  "floor_Authority self latest =
     (case latest of None \<Rightarrow> (0, False) | Some view \<Rightarrow> if fv_currentPrimary view \<noteq> self then (0, False) else (fv_generation view, True))"

definition floor_Epochs :: "floorView option \<Rightarrow> ArchiveEpoch list" where
  "floor_Epochs latest = (case latest of None \<Rightarrow> [] | Some view \<Rightarrow> fv_epochs view)"

definition floor_Diverged :: "floorView option \<Rightarrow> string \<Rightarrow> bool" where
  "floor_Diverged latest name = (case latest of None \<Rightarrow> False | Some view \<Rightarrow> name \<in> set (fv_diverged view))"

definition floor_Timeline :: "floorView option \<Rightarrow> MariaDBTimeline option" where
  "floor_Timeline latest = (case latest of None \<Rightarrow> None | Some view \<Rightarrow> if fv_timeline view = [] then None else Some (fv_timeline view))"

fun positions_loop :: "string \<Rightarrow> floorView \<Rightarrow> string list \<Rightarrow> (string, string) gomap \<Rightarrow> string list \<Rightarrow> (string, string) gomap \<times> string list" where
  "positions_loop self view [] positions unknown = (positions, unknown)"
| "positions_loop self view (name # names) positions unknown =
     (if name = self \<or> name \<in> set (fv_diverged view) then positions_loop self view names positions unknown
      else case map_of (fv_positions view) name of
             None \<Rightarrow> positions_loop self view names positions (unknown @ [name])
           | Some position \<Rightarrow> positions_loop self view names (AList.update name position positions) unknown)"

definition floor_Positions :: "string \<Rightarrow> floorView option \<Rightarrow> ((string, string) gomap \<times> string list) option" where
  "floor_Positions self latest =
     (case latest of None \<Rightarrow> None | Some view \<Rightarrow> Some (positions_loop self view (fv_instances view) [] []))"

section \<open>The fork check's authority\<close>

text \<open>What the server answers while the authority is read.\<close>

record authority_reads =
  au_Writable :: "bool res"
  au_ExecutedGTIDSet :: "string res"
  au_CurrentPosition :: "string res"

definition forkSource :: "bool \<Rightarrow> floorView option \<Rightarrow> authority_reads \<Rightarrow> ForkJudge option res" where
  "forkSource mariadb latest reader =
     (if \<not> mariadb
      then (case au_Writable reader of
              Inl err \<Rightarrow> Inl err
            | Inr False \<Rightarrow> Inr None
            | Inr True \<Rightarrow>
                (case au_ExecutedGTIDSet reader of
                   Inl err \<Rightarrow> Inl err
                 | Inr executed \<Rightarrow> (case NewMySQLForkJudge executed of Inl err \<Rightarrow> Inl err | Inr judge \<Rightarrow> Inr (Some judge))))
      else (case floor_Timeline latest of
              None \<Rightarrow> Inr None
            | Some timeline \<Rightarrow>
                (case au_Writable reader of
                   Inl err \<Rightarrow> Inl err
                 | Inr False \<Rightarrow> Inr None
                 | Inr True \<Rightarrow>
                     (case au_CurrentPosition reader of
                        Inl err \<Rightarrow> Inl err
                      | Inr position \<Rightarrow>
                          Inr (Some (if length (floor_Epochs latest) = length timeline
                                     then NewMariaDBArchiveJudge (floor_Epochs latest) position
                                     else NewMariaDBForkJudge timeline position))))))"

definition Streaming :: "(bool \<times> bool \<times> bool) option res \<Rightarrow> bool res" where
  "Streaming state =
     (case state of
        Inl err \<Rightarrow> Inl err
      | Inr None \<Rightarrow> Inr False
      | Inr (Some (configured, ioRunning, sqlRunning)) \<Rightarrow> Inr (configured \<and> ioRunning \<and> sqlRunning))"

section \<open>Lemmas\<close>

text \<open>The floor names every expected instance but this one and the diverged ones: with its recorded position, or as unknown.\<close>

lemma positions_loop_eq:
  "positions_loop self view names positions unknown = (positions', unknown') \<Longrightarrow>
   unknown' = unknown @ filter (\<lambda>n. n \<noteq> self \<and> n \<notin> set (fv_diverged view) \<and> map_of (fv_positions view) n = None) names \<and>
   map_of positions' = (\<lambda>n. if n \<in> set names \<and> n \<noteq> self \<and> n \<notin> set (fv_diverged view) \<and> map_of (fv_positions view) n \<noteq> None
     then map_of (fv_positions view) n else map_of positions n)"
proof (induction self view names positions unknown rule: positions_loop.induct)
  case (2 self view name names positions unknown)
  then show ?case by (auto simp: update_conv' fun_eq_iff split: if_splits option.splits)
qed auto

lemma floor_Positions_complete:
  assumes "floor_Positions self (Some view) = Some (positions, [])" "n \<in> set (fv_instances view)" "n \<noteq> self" "n \<notin> set (fv_diverged view)"
  shows "\<exists>position. map_of positions n = Some position \<and> map_of (fv_positions view) n = Some position"
proof -
  have "positions_loop self view (fv_instances view) [] [] = (positions, [])" using assms(1) by (simp add: floor_Positions_def)
  from positions_loop_eq [OF this] have e: "filter (\<lambda>n. n \<noteq> self \<and> n \<notin> set (fv_diverged view) \<and> map_of (fv_positions view) n = None) (fv_instances view) = []"
    "map_of positions n = map_of (fv_positions view) n" using assms(2-4) by (auto split: if_splits)
  then show ?thesis using assms(2-4) by (auto simp: filter_empty_conv)
qed

text \<open>The MySQL authority is what the server reported as executed while it was writable.\<close>

lemma forkSource_writable:
  "forkSource mariadb latest reader = Inr (Some judge) \<Longrightarrow> au_Writable reader = Inr True"
  by (auto simp: forkSource_def split: if_splits sum.splits bool.splits option.splits)

end
