(* ===== verification/Archive_Loop.thy ===== *)
theory Archive_Loop
  imports Cluster_Floor
begin

text \<open>
  The archiving loop of an instance (\<open>pkg/management/mysql/binlog/loop.go\<close>): one tick of the writable primary rotates on the
  RPO cadence, ships the rotated logs, completes the fork check, stamps how far the archive reaches and purges what is
  archived and applied everywhere; a tick of any other instance at most drains the tail it stranded when it was primary.
  The server's answers and the clock readings of a tick are arguments.

  The lemmas show that the purge removes only logs that are in the bucket, listed by the index and applied by every
  instance the Cluster expects, and that the drain uploads only files the surviving timeline holds.
\<close>

section \<open>State\<close>

record State =
  lo_Active :: bool
  lo_LastArchivedBinlog :: string
  lo_LastArchivedGTID :: string
  lo_LastArchivedTime :: gotime
  lo_PendingFiles :: int
  lo_LastError :: string
  lo_LastErrorTime :: gotime
  lo_PurgeHeldBy :: "string list"
  lo_PurgeHeldSince :: gotime
  lo_purgeHeldFile :: string
  lo_Forks :: "SegmentFork list"
  lo_ForkCheckedAt :: gotime
  lo_ForkCheckGeneration :: int
  lo_OldestSegmentPosition :: string
  lo_Disowned :: string
  lo_Gaps :: "string list"
  lo_Covered :: string
  lo_Timeline :: "ArchiveEpoch list"
  lo_DeferredFile :: string

definition zero_state :: State where
  "zero_state = \<lparr>lo_Active = False, lo_LastArchivedBinlog = [], lo_LastArchivedGTID = [], lo_LastArchivedTime = zero_time, lo_PendingFiles = 0,
     lo_LastError = [], lo_LastErrorTime = zero_time, lo_PurgeHeldBy = [], lo_PurgeHeldSince = zero_time, lo_purgeHeldFile = [], lo_Forks = [],
     lo_ForkCheckedAt = zero_time, lo_ForkCheckGeneration = 0, lo_OldestSegmentPosition = [], lo_Disowned = [], lo_Gaps = [], lo_Covered = [],
     lo_Timeline = [], lo_DeferredFile = []\<rparr>"

text \<open>The settings of a loop: which optional collaborators it was given, and the rest of its options.\<close>

record loop_options =
  lc_instance :: string
  lc_mariadb :: bool
  lc_flushInterval :: int
  lc_purge :: bool
  lc_floor :: bool
  lc_cluster :: bool
  lc_replication :: bool
  lc_forks :: bool

text \<open>What a tick changes: the reported state, the fork check's and the flush's bookkeeping, and the two locals of \<open>Run\<close>.\<close>

record Loop =
  lv_state :: State
  lv_forkChecked :: bool
  lv_lastCheck :: gotime
  lv_flushedAt :: gotime
  lv_flushedActive :: string
  lv_flushedSize :: int
  lv_stampedThrough :: gotime
  lv_lastFlush :: gotime
  lv_lastFlushSize :: int

definition DefaultFlushInterval :: int where "DefaultFlushInterval = 5 * 60 * Second"

definition new_loop :: Loop where
  "new_loop = \<lparr>lv_state = zero_state, lv_forkChecked = False, lv_lastCheck = zero_time, lv_flushedAt = zero_time, lv_flushedActive = [],
     lv_flushedSize = 0, lv_stampedThrough = zero_time, lv_lastFlush = zero_time, lv_lastFlushSize = 0\<rparr>"

text \<open>What the server answers during a tick.\<close>

record tick_reader =
  rd_Writable :: "bool res"
  rd_ListBinaryLogs :: "BinaryLog list res"
  rd_FlushLogs :: "go_error option"
  rd_Relist :: "BinaryLog list res"
  rd_PurgeLogsTo :: "go_error option"
  rd_Streaming :: "bool res"
  rd_pass :: authority_reads
  rd_check :: authority_reads

text \<open>The clock readings of a tick, in the order the code takes them.\<close>

record tick_clock =
  tc_listed :: gotime
  tc_started :: gotime
  tc_since :: gotime
  tc_flushed :: gotime
  tc_lastFlush :: gotime
  tc_relisted :: gotime
  tc_checked :: gotime
  tc_rechecked :: gotime
  tc_held :: gotime
  tc_failed :: gotime

text \<open>What a tick does to the server.\<close>

datatype server_effect = Flushed | PurgedTo string

section \<open>Helpers\<close>

definition no_log :: BinaryLog where "no_log = \<lparr>bl_Name = [], bl_SizeBytes = 0, bl_Active = False\<rparr>"

definition activeLog :: "BinaryLog list \<Rightarrow> BinaryLog" where
  "activeLog logs = (case find bl_Active logs of Some l \<Rightarrow> l | None \<Rightarrow> no_log)"

fun file_before :: "BinaryLog list \<Rightarrow> string \<Rightarrow> string \<Rightarrow> string" where
  "file_before [] name prev = []"
| "file_before (l # logs) name prev = (if bl_Name l = name then prev else file_before logs name (bl_Name l))"

definition fileBefore :: "BinaryLog list \<Rightarrow> string \<Rightarrow> string" where
  "fileBefore logs name = file_before logs name []"

fun pending_loop :: "BinaryLog list \<Rightarrow> string \<Rightarrow> bool \<Rightarrow> int \<Rightarrow> int" where
  "pending_loop [] frontier seenFrontier pending = pending"
| "pending_loop (l # logs) frontier seenFrontier pending =
     (if \<not> seenFrontier then pending_loop logs frontier (bl_Name l = frontier) pending
      else pending_loop logs frontier True (if bl_Name l \<noteq> frontier then pending + 1 else pending))"

definition pendingAfter :: "BinaryLog list \<Rightarrow> string \<Rightarrow> int" where
  "pendingAfter logs frontier = pending_loop (Archivable logs) frontier (frontier = []) 0"

definition fail :: "string \<Rightarrow> go_error \<Rightarrow> gotime \<Rightarrow> Loop \<Rightarrow> Loop" where
  "fail action err now l = l\<lparr>lv_state := (lv_state l)\<lparr>lo_LastError := action @ '': '' @ Error err, lo_LastErrorTime := now\<rparr>\<rparr>"

section \<open>The purge gate\<close>

record purgeHold =
  ph_file :: string
  ph_by :: "string list"

record purgePlan =
  pp_to :: string
  pp_held :: purgeHold

definition no_hold :: purgeHold where "no_hold = \<lparr>ph_file = [], ph_by = []\<rparr>"

definition no_purge :: purgePlan where "no_purge = \<lparr>pp_to = [], pp_held = no_hold\<rparr>"

fun parse_positions :: "'g gtid_ops \<Rightarrow> (string, string) gomap \<Rightarrow> (string, 'g) gomap res" where
  "parse_positions ops [] = Inr []"
| "parse_positions ops ((name, raw) # positions) =
     (case op_Parse ops raw of
        Inl err \<Rightarrow> Inl (Wrapf ''parsing the gtid position of %s: %w'' [name] err)
      | Inr g \<Rightarrow> (case parse_positions ops positions of Inl err \<Rightarrow> Inl err | Inr applied \<Rightarrow> Inr ((name, g) # applied)))"

fun purge_loop :: "'g gtid_ops \<Rightarrow> (string, 'g) gomap \<Rightarrow> string \<Rightarrow> bool \<Rightarrow> ArchivedFile list \<Rightarrow> purgePlan res" where
  "purge_loop ops applied limit first [] = Inr \<lparr>pp_to = limit, pp_held = no_hold\<rparr>"
| "purge_loop ops applied limit first (f # candidates) =
     (case op_Parse ops (fl_GTIDSet f) of
        Inl err \<Rightarrow> Inl (Wrapf ''parsing the gtid set of %s: %w'' [fl_Name f] err)
      | Inr fileSet \<Rightarrow>
          (let behind = filter (\<lambda>name. \<exists>g \<in> set_option (map_of applied name). \<not> op_Contains ops g fileSet) (sort (map fst applied)) in
           if behind = [] then purge_loop ops applied limit False candidates
           else Inr \<lparr>pp_to = (if first then [] else fl_Name f), pp_held = \<lparr>ph_file = fl_Name f, ph_by = behind\<rparr>\<rparr>))"

definition planPurge :: "loop_options \<Rightarrow> 'g gtid_ops \<Rightarrow> floorView option \<Rightarrow> BinaryLog list \<Rightarrow> ArchiveResult \<Rightarrow> purgePlan res" where
  "planPurge opt ops latest logs result =
     (let limit = fileBefore logs (re_LastArchivedBinlog result) in
      if limit = [] \<or> \<not> lc_floor opt then Inr no_purge
      else case takeWhile (\<lambda>f. fl_Name f \<noteq> limit) (re_Files result) of
             [] \<Rightarrow> Inr no_purge
           | f # candidates \<Rightarrow>
               (case floor_Positions (lc_instance opt) latest of
                  None \<Rightarrow> Inr no_purge
                | Some (positions, unknown) \<Rightarrow>
                    if unknown \<noteq> [] then Inr \<lparr>pp_to = [], pp_held = \<lparr>ph_file = fl_Name f, ph_by = sort unknown\<rparr>\<rparr>
                    else case parse_positions ops positions of
                           Inl err \<Rightarrow> Inl err
                         | Inr applied \<Rightarrow> purge_loop ops applied limit True (f # candidates)))"

section \<open>The fork check of a tick\<close>

definition archivedThroughResolution :: int where "archivedThroughResolution = 60 * Second"

definition archivedThrough :: "Loop \<Rightarrow> BinaryLog list \<Rightarrow> ArchiveResult \<Rightarrow> gotime \<Rightarrow> gotime" where
  "archivedThrough l logs result listedAt =
     (if lv_flushedActive l = [] \<or> re_Deferred result \<noteq> [] \<or> pendingAfter logs (re_LastArchivedBinlog result) > 0 then zero_time
      else if bl_Name (activeLog logs) = lv_flushedActive l \<and> bl_SizeBytes (activeLog logs) = lv_flushedSize l then listedAt
      else lv_flushedAt l)"

text \<open>The fork fields of a state.\<close>

definition fork_fields :: "State \<Rightarrow> State \<Rightarrow> State" where
  "fork_fields src dst = dst\<lparr>lo_Forks := lo_Forks src, lo_ForkCheckedAt := lo_ForkCheckedAt src, lo_ForkCheckGeneration := lo_ForkCheckGeneration src,
     lo_OldestSegmentPosition := lo_OldestSegmentPosition src, lo_Disowned := lo_Disowned src, lo_Gaps := lo_Gaps src, lo_Covered := lo_Covered src,
     lo_Timeline := lo_Timeline src\<rparr>"

definition read_report :: "ForkReport \<Rightarrow> State \<Rightarrow> State" where
  "read_report report out =
     (let out1 = (if fr_Read report
            then out\<lparr>lo_Forks := fr_Forks report, lo_OldestSegmentPosition := fr_OldestSegmentPosition report, lo_Disowned := fr_Disowned report,
                   lo_Gaps := fr_Gaps report, lo_Covered := fr_Covered report, lo_Timeline := fr_Timeline report\<rparr>
            else out)
      in if fr_Checked report then out1\<lparr>lo_ForkCheckedAt := fr_CheckedAt report, lo_ForkCheckGeneration := fr_Generation report\<rparr> else out1)"

text \<open>The report of the pass, or that of a check of its own when one is due.\<close>

definition due_check ::
  "loop_options \<Rightarrow> pass_env \<Rightarrow> s3_server \<Rightarrow> floorView option \<Rightarrow> authority_reads \<Rightarrow> tick_clock \<Rightarrow> ForkReport option \<Rightarrow> gotime \<Rightarrow> Loop \<Rightarrow> archive_world \<Rightarrow>
   ForkReport option res \<times> Loop \<times> archive_world" where
  "due_check opt env srv latest reads clock report through l w =
     (let l1 = (case report of Some r \<Rightarrow> if fr_Checked r then l\<lparr>lv_lastCheck := fr_CheckedAt r\<rparr> else l | None \<Rightarrow> l);
          checked = (case report of Some r \<Rightarrow> fr_Checked r | None \<Rightarrow> False);
          stampDue = (through \<noteq> zero_time \<and> time_Sub through (lv_stampedThrough l1) \<ge> archivedThroughResolution);
          recheckDue = (time_Sub (tc_checked clock) (lv_lastCheck l1) \<ge> lc_flushInterval opt)
      in if (\<not> lv_forkChecked l1 \<or> recheckDue \<or> stampDue) \<and> (\<not> checked \<or> stampDue)
         then let through1 = (if stampDue then through else zero_time)
              in case CheckArchive (pe_archiver env) (pe_now env) (Some (forkSource (lc_mariadb opt) latest reads))
                     (floor_Authority (lc_instance opt) latest) srv through1 (aw_index w) of
                   ((r, Some err), obj) \<Rightarrow> (Inl err, l1, w\<lparr>aw_index := obj\<rparr>)
                 | ((r, None), obj) \<Rightarrow>
                     (Inr (Some r), l1\<lparr>lv_lastCheck := tc_rechecked clock,
                        lv_stampedThrough := (if fr_ArchivedThrough r \<noteq> zero_time \<or> stampDue then through1 else lv_stampedThrough l1)\<rparr>,
                      w\<lparr>aw_index := obj\<rparr>)
         else (Inr report, l1, w))"

definition loop_checkForks ::
  "loop_options \<Rightarrow> pass_env \<Rightarrow> s3_server \<Rightarrow> floorView option \<Rightarrow> authority_reads \<Rightarrow> tick_clock \<Rightarrow> ForkReport option \<Rightarrow> gotime \<Rightarrow> Loop \<Rightarrow> archive_world \<Rightarrow>
   (State \<times> go_error option) \<times> Loop \<times> archive_world" where
  "loop_checkForks opt env srv latest reads clock report through l w =
     (let out = fork_fields (lv_state l) zero_state in
      if \<not> lc_forks opt then ((out, None), l, w)
      else case due_check opt env srv latest reads clock report through l w of
             (Inl err, l1, w1) \<Rightarrow> ((out, Some err), l1, w1)
           | (Inr None, l1, w1) \<Rightarrow> ((out, None), l1, w1)
           | (Inr (Some r), l1, w1) \<Rightarrow>
               (case fr_Err r of
                  Some err \<Rightarrow> ((out, Some err), l1, w1)
                | None \<Rightarrow> ((read_report r out, None), (if fr_Checked r then l1\<lparr>lv_forkChecked := True\<rparr> else l1), w1)))"

section \<open>Draining a stranded tail\<close>

fun reached_loop :: "MariaDBGTID list \<Rightarrow> (nat, nat) gomap \<Rightarrow> (nat, nat) gomap" where
  "reached_loop [] upTo = upTo"
| "reached_loop (g # held) upTo = reached_loop held (AList.update (mg_Domain g) (mg_Seq g) upTo)"

definition reached_at :: "(nat, nat) gomap \<Rightarrow> nat \<Rightarrow> nat" where
  "reached_at upTo domain = (case map_of upTo domain of Some s \<Rightarrow> s | None \<Rightarrow> 0)"

fun surviving_loop :: "MariaDBTimeline \<Rightarrow> (nat, nat) gomap \<Rightarrow> MariaDBGTID list \<Rightarrow> bool" where
  "surviving_loop timeline upTo [] = True"
| "surviving_loop timeline upTo (g # file) =
     (case Verdict timeline g of (on, known) \<Rightarrow>
        if \<not> on \<or> \<not> known then False
        else if reached_at upTo (mg_Domain g) < mg_Seq g then False
        else surviving_loop timeline upTo file)"

definition onSurvivingTimeline :: "loop_options \<Rightarrow> floorView option \<Rightarrow> ScanResult \<Rightarrow> bool res" where
  "onSurvivingTimeline opt latest scan =
     (if \<not> lc_cluster opt then Inr False
      else case floor_Primary latest of (primary, position, ok) \<Rightarrow>
        if \<not> ok \<or> primary = [] \<or> primary = lc_instance opt \<or> position = [] then Inr False
        else if sr_GTIDSet scan = [] then Inr True
        else if \<not> lc_mariadb opt then GTIDContains position (sr_GTIDSet scan)
        else case floor_Timeline latest of
               None \<Rightarrow> Inr False
             | Some timeline \<Rightarrow>
                 (case ParseMariaDBPosition (sr_GTIDSet scan) of
                    Inl err \<Rightarrow> Inl err
                  | Inr file \<Rightarrow>
                      (case ParseMariaDBPosition position of
                         Inl err \<Rightarrow> Inl err
                       | Inr held \<Rightarrow> Inr (surviving_loop timeline (reached_loop held []) file))))"

definition drain ::
  "loop_options \<Rightarrow> pass_env \<Rightarrow> 'g gtid_ops \<Rightarrow> floorView option \<Rightarrow> tick_reader \<Rightarrow> tick_clock \<Rightarrow> Loop \<Rightarrow> archive_world \<Rightarrow> Loop \<times> archive_world" where
  "drain opt env ops latest reader clock l w =
     (if \<not> lc_replication opt then (l, w)
      else case HasSegment env w of
             (Inl err, w1) \<Rightarrow> (fail ''checking archive segment'' err (tc_failed clock) l, w1)
           | (Inr False, w1) \<Rightarrow> (l, w1)
           | (Inr True, w1) \<Rightarrow>
               (case rd_Streaming reader of
                  Inl err \<Rightarrow> (fail ''checking replication state'' err (tc_failed clock) l, w1)
                | Inr False \<Rightarrow> (l, w1)
                | Inr True \<Rightarrow>
                    if lc_cluster opt \<and> floor_Diverged latest (lc_instance opt) then (l, w1)
                    else case rd_ListBinaryLogs reader of
                           Inl err \<Rightarrow> (fail ''listing binary logs'' err (tc_failed clock) l, w1)
                         | Inr logs \<Rightarrow>
                             (case DrainPending env ops logs (Some (\<lambda>_. onSurvivingTimeline opt latest)) w1 of
                                ((result, Some err), w2) \<Rightarrow> (fail ''draining stranded binary logs'' err (tc_failed clock) l, w2)
                              | ((result, None), w2) \<Rightarrow>
                                  (l\<lparr>lv_state := (lv_state l)\<lparr>lo_LastArchivedBinlog := re_LastArchivedBinlog result,
                                       lo_LastArchivedGTID := re_LastArchivedGTID result,
                                       lo_LastArchivedTime := (if re_LastArchivedTime result \<noteq> zero_time then re_LastArchivedTime result
                                                               else lo_LastArchivedTime (lv_state l)),
                                       lo_PendingFiles := pendingAfter logs (re_LastArchivedBinlog result),
                                       lo_DeferredFile := re_Deferred result\<rparr>\<rparr>, w2))))"

section \<open>One tick\<close>

definition not_writable :: "Loop \<Rightarrow> Loop" where
  "not_writable l = l\<lparr>lv_state := fork_fields zero_state ((lv_state l)\<lparr>lo_Active := False\<rparr>), lv_forkChecked := False,
     lv_flushedAt := zero_time, lv_flushedActive := [], lv_stampedThrough := zero_time, lv_lastFlush := zero_time\<rparr>"

text \<open>The rotation on the RPO cadence: the logs to ship and when they were listed.\<close>

definition rotate ::
  "loop_options \<Rightarrow> tick_reader \<Rightarrow> tick_clock \<Rightarrow> BinaryLog list \<Rightarrow> Loop \<Rightarrow> (BinaryLog list \<times> gotime) res \<times> Loop \<times> server_effect list" where
  "rotate opt reader clock logs l =
     (if lv_lastFlush l = zero_time
      then (Inr (logs, tc_listed clock), l\<lparr>lv_lastFlush := tc_started clock, lv_lastFlushSize := - 1\<rparr>, [])
      else if time_Sub (tc_since clock) (lv_lastFlush l) \<ge> lc_flushInterval opt \<and> bl_SizeBytes (activeLog logs) > lv_lastFlushSize l
      then (case rd_FlushLogs reader of
              Some err \<Rightarrow> (Inl err, fail ''flushing binary logs'' err (tc_failed clock) l, [])
            | None \<Rightarrow>
                (let l1 = l\<lparr>lv_lastFlush := tc_lastFlush clock\<rparr> in
                 case rd_Relist reader of
                   Inl err \<Rightarrow> (Inl err, fail ''re-listing binary logs'' err (tc_failed clock) l1, [Flushed])
                 | Inr logs' \<Rightarrow>
                     (Inr (logs', tc_relisted clock),
                      l1\<lparr>lv_lastFlushSize := bl_SizeBytes (activeLog logs'), lv_flushedAt := tc_flushed clock,
                         lv_flushedActive := bl_Name (activeLog logs'), lv_flushedSize := bl_SizeBytes (activeLog logs')\<rparr>, [Flushed])))
      else (Inr (logs, tc_listed clock), l, []))"

definition purge_archived ::
  "loop_options \<Rightarrow> 'g gtid_ops \<Rightarrow> floorView option \<Rightarrow> tick_reader \<Rightarrow> tick_clock \<Rightarrow> BinaryLog list \<Rightarrow> ArchiveResult \<Rightarrow> Loop \<Rightarrow>
   purgeHold res \<times> Loop \<times> server_effect list" where
  "purge_archived opt ops latest reader clock logs result l =
     (if \<not> lc_purge opt then (Inr no_hold, l, [])
      else case planPurge opt ops latest logs result of
             Inl err \<Rightarrow> (Inl err, fail ''evaluating the replica floor'' err (tc_failed clock) l, [])
           | Inr plan \<Rightarrow>
               if pp_to plan = [] then (Inr (pp_held plan), l, [])
               else case rd_PurgeLogsTo reader of
                      Some err \<Rightarrow> (Inl err, fail ''purging archived logs'' err (tc_failed clock) l, [])
                    | None \<Rightarrow> (Inr (pp_held plan), l, [PurgedTo (pp_to plan)]))"

definition archived_state ::
  "tick_clock \<Rightarrow> BinaryLog list \<Rightarrow> ArchiveResult \<Rightarrow> State \<Rightarrow> go_error option \<Rightarrow> purgeHold \<Rightarrow> State \<Rightarrow> State" where
  "archived_state clock logs result forks forkErr held old =
     (let st = fork_fields forks (zero_state\<lparr>lo_PurgeHeldBy := ph_by held,
            lo_PurgeHeldSince := (if ph_file held = [] then zero_time
              else if ph_file held = lo_purgeHeldFile old \<and> lo_PurgeHeldSince old \<noteq> zero_time then lo_PurgeHeldSince old else tc_held clock),
            lo_purgeHeldFile := ph_file held, lo_Active := True, lo_LastArchivedBinlog := re_LastArchivedBinlog result,
            lo_LastArchivedGTID := re_LastArchivedGTID result, lo_LastArchivedTime := re_LastArchivedTime result,
            lo_PendingFiles := pendingAfter logs (re_LastArchivedBinlog result)\<rparr>)
      in case forkErr of
           None \<Rightarrow> st
         | Some err \<Rightarrow> st\<lparr>lo_LastError := ''checking archive forks: '' @ Error err, lo_LastErrorTime := tc_failed clock\<rparr>)"

definition ship ::
  "loop_options \<Rightarrow> pass_env \<Rightarrow> 'g gtid_ops \<Rightarrow> s3_server \<Rightarrow> floorView option \<Rightarrow> tick_reader \<Rightarrow> tick_clock \<Rightarrow> BinaryLog list \<Rightarrow> gotime \<Rightarrow> Loop \<Rightarrow> archive_world \<Rightarrow>
   Loop \<times> archive_world \<times> server_effect list" where
  "ship opt env ops srv latest reader clock logs listedAt l w =
     (case ArchivePending env ops (if lc_forks opt then Some (forkSource (lc_mariadb opt) latest (rd_pass reader)) else None)
          (floor_Authority (lc_instance opt) latest) logs w of
        ((result, Some err), w1) \<Rightarrow>
          (if errors_Is err ErrNotCurrentPrimary then l else fail ''archiving binary logs'' err (tc_failed clock) l, w1, [])
      | ((result, None), w1) \<Rightarrow>
          (case loop_checkForks opt env srv latest (rd_check reader) clock (re_ForkCheck result) (archivedThrough l logs result listedAt) l w1 of
             ((forks, forkErr), l1, w2) \<Rightarrow>
               (case purge_archived opt ops latest reader clock logs result l1 of
                  (Inl err, l2, eff) \<Rightarrow> (l2, w2, eff)
                | (Inr held, l2, eff) \<Rightarrow>
                    (l2\<lparr>lv_state := archived_state clock logs result forks forkErr held (lv_state l2)\<rparr>, w2, eff))))"

definition tick ::
  "loop_options \<Rightarrow> pass_env \<Rightarrow> 'g gtid_ops \<Rightarrow> s3_server \<Rightarrow> floorView option \<Rightarrow> tick_reader \<Rightarrow> tick_clock \<Rightarrow> Loop \<Rightarrow> archive_world \<Rightarrow>
   Loop \<times> archive_world \<times> server_effect list" where
  "tick opt env ops srv latest reader clock l w =
     (case rd_Writable reader of
        Inl err \<Rightarrow> (fail ''checking writability'' err (tc_failed clock) l, w, [])
      | Inr False \<Rightarrow> (case drain opt env ops latest reader clock (not_writable l) w of (l1, w1) \<Rightarrow> (l1, w1, []))
      | Inr True \<Rightarrow>
          (case rd_ListBinaryLogs reader of
             Inl err \<Rightarrow> (fail ''listing binary logs'' err (tc_failed clock) l, w, [])
           | Inr logs \<Rightarrow>
               (case rotate opt reader clock logs l of
                  (Inl err, l1, eff) \<Rightarrow> (l1, w, eff)
                | (Inr (logs', listedAt), l1, eff) \<Rightarrow>
                    (case ship opt env ops srv latest reader clock logs' listedAt l1 w of (l2, w1, eff') \<Rightarrow> (l2, w1, eff @ eff')))))"

section \<open>The purge removes only what is archived and applied\<close>

lemma CheckArchive_listed:
  assumes "conditional_writes tag srv" "CheckArchive a now forks authority srv through obj = (r, obj')"
  shows "listed_files a' obj' = listed_files a' obj"
proof (cases "obj' = obj")
  case False
  then obtain p where u: "\<exists>r u. update_loop srv (\<lambda>idx exists. fst (check_mutate a now p through idx exists)) indexUpdateAttempts False obj = (r, u, obj')"
    using assms(2) by (auto simp: CheckArchive_def UpdateArchiveIndex_def Let_def split: option.splits if_splits sum.splits prod.splits writer.splits)
  then obtain idx' where m: "fst (check_mutate a now p through (case obj of None \<Rightarrow> zero_index | Some (i, e) \<Rightarrow> i) (obj \<noteq> None)) = Inr (idx', True)"
    "obj' = Some (idx', tag idx')"
    using update_loop_outcome [OF assms(1)] False by blast
  have "own_files a' idx' = own_files a' (case obj of None \<Rightarrow> zero_index | Some (i, e) \<Rightarrow> i)" by (rule own_files_same [OF check_mutate_files [OF m(1)]])
  then show ?thesis using m(2) by (cases obj) (auto simp: listed_files_def)
qed simp

lemma loop_checkForks_world:
  assumes "conditional_writes tag srv" "loop_checkForks opt env srv latest reads clock report through l w = (r, l', w')"
  shows "\<exists>obj. w' = w\<lparr>aw_index := obj\<rparr> \<and> (\<forall>a. listed_files a obj = listed_files a (aw_index w))"
proof -
  have d: "\<exists>obj. w1 = w\<lparr>aw_index := obj\<rparr> \<and> (\<forall>a. listed_files a obj = listed_files a (aw_index w))"
    if "due_check opt env srv latest reads clock report through l w = (r1, l1, w1)" for r1 l1 w1
  proof -
    have "w1 = w \<or> (\<exists>t r obj. CheckArchive (pe_archiver env) (pe_now env) (Some (forkSource (lc_mariadb opt) latest reads))
        (floor_Authority (lc_instance opt) latest) srv t (aw_index w) = (r, obj) \<and> w1 = w\<lparr>aw_index := obj\<rparr>)"
      using that by (auto simp: due_check_def Let_def split: if_splits prod.splits option.splits)
    then show ?thesis
    proof
      assume "w1 = w"
      then show ?thesis by (intro exI [of _ "aw_index w"]) simp
    qed (use CheckArchive_listed [OF assms(1)] in blast)
  qed
  have "w' = w \<or> (\<exists>r1 l1. due_check opt env srv latest reads clock report through l w = (r1, l1, w'))"
    using assms(2) by (auto simp: loop_checkForks_def Let_def split: if_splits prod.splits sum.splits option.splits)
  then show ?thesis
  proof
    assume "w' = w"
    then show ?thesis by (intro exI [of _ "aw_index w"]) simp
  qed (use d in blast)
qed

lemma takeWhile_filter: "x \<in> set (takeWhile P xs) \<Longrightarrow> Q x \<Longrightarrow> x \<in> set (takeWhile P (filter Q xs))"
  by (induction xs) (auto split: if_splits)

lemma takeWhile_names:
  "map f xs = map g ys \<Longrightarrow> map f (takeWhile (\<lambda>x. f x \<noteq> n) xs) = map g (takeWhile (\<lambda>y. g y \<noteq> n) ys)"
proof (induction xs arbitrary: ys)
  case (Cons x xs)
  then show ?case by (cases ys) auto
qed simp

lemma file_before_split:
  "file_before logs name prev = m \<Longrightarrow> m \<noteq> [] \<Longrightarrow> m \<noteq> prev \<or> (\<forall>b. logs \<noteq> [] \<longrightarrow> bl_Name (hd logs) \<noteq> name) \<Longrightarrow>
   \<exists>pre x post. logs = pre @ x # post \<and> bl_Name x = m \<and> name \<notin> bl_Name ` set (pre @ [x])"
proof (induction logs name prev rule: file_before.induct)
  case (2 l logs name prev)
  then have ne: "bl_Name l \<noteq> name" by (auto split: if_splits)
  show ?case
  proof (cases "logs \<noteq> [] \<and> bl_Name (hd logs) = name")
    case True
    then have "bl_Name l = m" using 2 ne by (cases logs) auto
    then show ?thesis using ne by (intro exI [of _ "[]"] exI [of _ l] exI [of _ logs]) auto
  next
    case False
    then obtain pre x post where "logs = pre @ x # post" "bl_Name x = m" "name \<notin> bl_Name ` set (pre @ [x])"
      using 2 ne by auto
    then show ?thesis using ne by (intro exI [of _ "l # pre"] exI [of _ x] exI [of _ post]) auto
  qed
qed auto

lemma fileBefore_split:
  assumes "fileBefore logs name = m" "m \<noteq> []"
  shows "\<exists>pre x post. logs = pre @ x # post \<and> bl_Name x = m \<and> name \<notin> bl_Name ` set (pre @ [x])"
  using file_before_split [of logs name "[]" m] assms by (simp add: fileBefore_def)

lemma takeWhile_fileBefore:
  assumes "fileBefore logs name = m" "m \<noteq> []" "b \<in> set (takeWhile (\<lambda>b. bl_Name b \<noteq> m) logs)"
  shows "b \<in> set (takeWhile (\<lambda>b. bl_Name b \<noteq> name) logs)"
proof -
  from fileBefore_split [OF assms(1,2)] obtain pre x post
    where s: "logs = pre @ x # post" "bl_Name x = m" "name \<notin> bl_Name ` set (pre @ [x])" by blast
  have "set (takeWhile (\<lambda>b. bl_Name b \<noteq> m) (pre @ x # post)) \<subseteq> set pre" using s(2)
    by (induction pre) auto
  then have b: "b \<in> set pre" using assms(3) s(1) by blast
  have "takeWhile (\<lambda>b. bl_Name b \<noteq> name) (pre @ x # post) = pre @ x # takeWhile (\<lambda>b. bl_Name b \<noteq> name) post"
    using s(3) by (intro takeWhile_append2 [THEN trans]) auto
  then show ?thesis using b s(1) by simp
qed

text \<open>What the gate checked of a candidate: every parsed position contains its transactions.\<close>

definition applied_everywhere :: "'g gtid_ops \<Rightarrow> (string, 'g) gomap \<Rightarrow> ArchivedFile \<Rightarrow> bool" where
  "applied_everywhere ops applied f \<longleftrightarrow>
     (\<exists>fileSet. op_Parse ops (fl_GTIDSet f) = Inr fileSet \<and> (\<forall>name g. map_of applied name = Some g \<longrightarrow> op_Contains ops g fileSet))"

lemma purge_loop_applied:
  "purge_loop ops applied limit first fs = Inr plan \<Longrightarrow> pp_to plan \<noteq> [] \<Longrightarrow>
   (\<forall>f \<in> set (takeWhile (\<lambda>f. fl_Name f \<noteq> pp_to plan) fs). applied_everywhere ops applied f) \<and>
   (pp_to plan = limit \<and> (\<forall>f \<in> set fs. applied_everywhere ops applied f) \<or> pp_to plan \<in> fl_Name ` set fs)"
proof (induction ops applied limit first fs rule: purge_loop.induct)
  case (2 ops applied limit first f candidates)
  obtain fileSet where p: "op_Parse ops (fl_GTIDSet f) = Inr fileSet" using 2(2) by (auto split: sum.splits)
  let ?b = "filter (\<lambda>name. \<exists>g \<in> set_option (map_of applied name). \<not> op_Contains ops g fileSet) (sort (map fst applied))"
  have step: "purge_loop ops applied limit first (f # candidates) = (if ?b = [] then purge_loop ops applied limit False candidates
      else Inr \<lparr>pp_to = (if first then [] else fl_Name f), pp_held = \<lparr>ph_file = fl_Name f, ph_by = ?b\<rparr>\<rparr>)"
    by (simp only: purge_loop.simps p sum.case Let_def)
  show ?case
  proof (cases "?b = []")
    case True
    then have all: "\<forall>name \<in> set (sort (map fst applied)). \<not> (\<exists>g \<in> set_option (map_of applied name). \<not> op_Contains ops g fileSet)"
      unfolding filter_empty_conv .
    have "op_Contains ops g fileSet" if m: "map_of applied name = Some g" for name g
    proof -
      have "name \<in> set (sort (map fst applied))" using map_of_SomeD [OF m] by force
      from bspec [OF all this] show ?thesis using m by simp
    qed
    then have e: "applied_everywhere ops applied f" using p unfolding applied_everywhere_def by blast
    have "purge_loop ops applied limit False candidates = Inr plan" using 2(2) unfolding step if_P [OF True] .
    from 2(1) [OF p refl True this 2(3)] show ?thesis using e by auto
  next
    case False
    have "\<lparr>pp_to = (if first then [] else fl_Name f), pp_held = \<lparr>ph_file = fl_Name f, ph_by = ?b\<rparr>\<rparr> = plan"
      using 2(2) unfolding step if_not_P [OF False] by (rule Inr_inject)
    from arg_cong [OF this, where f = pp_to] have "pp_to plan = (if first then [] else fl_Name f)" by (simp only: purgePlan.select_convs)
    then have "pp_to plan = fl_Name f" using 2(3) by (cases first) simp_all
    then show ?thesis by simp
  qed
next
  case (1 ops applied limit first)
  then show ?case by auto
qed


lemma planPurge_applied:
  assumes "planPurge opt ops latest logs result = Inr plan" "pp_to plan \<noteq> []"
  shows "\<exists>positions applied. floor_Positions (lc_instance opt) latest = Some (positions, []) \<and> parse_positions ops positions = Inr applied \<and>
    re_Files result \<noteq> [] \<and> (\<forall>f \<in> set (takeWhile (\<lambda>f. fl_Name f \<noteq> pp_to plan) (re_Files result)). applied_everywhere ops applied f) \<and>
    (pp_to plan \<in> fl_Name ` set (re_Files result) \<or> pp_to plan = fileBefore logs (re_LastArchivedBinlog result))"
proof -
  define limit where "limit = fileBefore logs (re_LastArchivedBinlog result)"
  let ?cs = "takeWhile (\<lambda>f. fl_Name f \<noteq> limit) (re_Files result)"
  obtain f candidates positions applied where c: "?cs = f # candidates" "floor_Positions (lc_instance opt) latest = Some (positions, [])"
    "parse_positions ops positions = Inr applied" "purge_loop ops applied limit True ?cs = Inr plan"
    using assms unfolding planPurge_def limit_def [symmetric]
    by (auto simp: Let_def no_purge_def split: if_splits list.splits option.splits sum.splits)
  note p = purge_loop_applied [OF c(4) assms(2)]
  have ne: "re_Files result \<noteq> []" using c(1) by auto
  have "takeWhile (\<lambda>f. fl_Name f \<noteq> pp_to plan) (re_Files result) =
      (if pp_to plan \<in> fl_Name ` set ?cs then takeWhile (\<lambda>f. fl_Name f \<noteq> pp_to plan) ?cs else takeWhile (\<lambda>f. fl_Name f \<noteq> pp_to plan) (re_Files result))"
    using takeWhile_append1 [where P = "\<lambda>f. fl_Name f \<noteq> pp_to plan" and xs = ?cs and ys = "dropWhile (\<lambda>f. fl_Name f \<noteq> limit) (re_Files result)"]
    by auto
  moreover have "set ?cs \<subseteq> set (re_Files result)" by (auto dest: set_takeWhileD)
  ultimately show ?thesis using p c(2,3) ne unfolding limit_def [symmetric] by (cases "pp_to plan \<in> fl_Name ` set ?cs") auto
qed

text \<open>Which logs a purge to \<open>upTo\<close> removes, against what the pass reported.\<close>

lemma purged_reported:
  assumes "Archivable logs = front @ rest" "map fl_Name fs = map bl_Name front" "fs \<noteq> []"
    "upTo \<in> fl_Name ` set fs \<or> upTo = fileBefore logs (bl_Name (last front))" "upTo \<noteq> []"
    "b \<in> set (takeWhile (\<lambda>b. bl_Name b \<noteq> upTo) logs)" "\<not> bl_Active b"
  shows "\<exists>f \<in> set (takeWhile (\<lambda>f. fl_Name f \<noteq> upTo) fs). fl_Name f = bl_Name b"
proof -
  have a: "b \<in> set (takeWhile P (front @ rest))" if "b \<in> set (takeWhile P logs)" for P
    using takeWhile_filter [OF that, where Q = "\<lambda>l. \<not> bl_Active l"] assms(1,7) by (simp add: Archivable_def)
  have nm: "fl_Name ` set fs = bl_Name ` set front" using assms(2) by (metis list.set_map)
  have "b \<in> set (takeWhile (\<lambda>b. bl_Name b \<noteq> upTo) front)"
  proof (cases "upTo \<in> bl_Name ` set front")
    case True
    then obtain x where "x \<in> set front" "bl_Name x = upTo" by blast
    then have "takeWhile (\<lambda>b. bl_Name b \<noteq> upTo) (front @ rest) = takeWhile (\<lambda>b. bl_Name b \<noteq> upTo) front" by (intro takeWhile_append1) auto
    then show ?thesis using a [OF assms(6)] by simp
  next
    case False
    let ?n = "bl_Name (last front)"
    have ne: "front \<noteq> []" using assms(2,3) by auto
    have "upTo = fileBefore logs ?n" using assms(4) False nm by blast
    from a [OF takeWhile_fileBefore [OF this [symmetric] assms(5,6)]] have "b \<in> set (takeWhile (\<lambda>b. bl_Name b \<noteq> ?n) (front @ rest))" .
    moreover have "takeWhile (\<lambda>b. bl_Name b \<noteq> ?n) (front @ rest) = takeWhile (\<lambda>b. bl_Name b \<noteq> ?n) front"
      using ne by (intro takeWhile_append1 [of "last front"]) auto
    ultimately have b: "b \<in> set front" by (auto dest: set_takeWhileD)
    have "takeWhile (\<lambda>b. bl_Name b \<noteq> upTo) front = front" using False by (auto simp: takeWhile_eq_all_conv)
    then show ?thesis using b by (rule ssubst)
  qed
  then have "bl_Name b \<in> set (map bl_Name (takeWhile (\<lambda>b. bl_Name b \<noteq> upTo) front))" by simp
  then show ?thesis unfolding takeWhile_names [OF assms(2), symmetric] by force
qed

text \<open>The binary logs the server may have listed in a tick, and the instances a purge has to wait for.\<close>

definition logs_listed :: "tick_reader \<Rightarrow> BinaryLog list \<Rightarrow> bool" where
  "logs_listed reader logs \<longleftrightarrow> rd_ListBinaryLogs reader = Inr logs \<or> rd_Relist reader = Inr logs"

definition expected :: "loop_options \<Rightarrow> floorView \<Rightarrow> string set" where
  "expected opt view = {n \<in> set (fv_instances view). n \<noteq> lc_instance opt \<and> n \<notin> set (fv_diverged view)}"

lemma tick_purges:
  assumes "tick opt env ops srv latest reader clock l w = (l', w', eff)" "PurgedTo upTo \<in> set eff" "conditional_writes tag srv"
  shows "\<exists>logs p result w1 plan obj. logs_listed reader logs \<and> archivePending env ops logs None p w = ((result, None), w1) \<and>
    planPurge opt ops latest logs result = Inr plan \<and> pp_to plan = upTo \<and> upTo \<noteq> [] \<and>
    w' = w1\<lparr>aw_index := obj\<rparr> \<and> (\<forall>a. listed_files a obj = listed_files a (aw_index w1)) \<and>
    rd_Writable reader = Inr True \<and> fp_primary p \<and> floor_Authority (lc_instance opt) latest = (fp_generation p, True)"
proof -
  obtain logs0 logs listedAt l1 eff1 eff2 where t: "rd_Writable reader = Inr True" "rd_ListBinaryLogs reader = Inr logs0"
    "rotate opt reader clock logs0 l = (Inr (logs, listedAt), l1, eff1)" "ship opt env ops srv latest reader clock logs listedAt l1 w = (l', w', eff2)"
    "eff = eff1 @ eff2" "PurgedTo upTo \<notin> set eff1"
    using assms(1,2) by (auto simp: tick_def rotate_def Let_def split: sum.splits bool.splits prod.splits if_splits option.splits)
  have lg: "logs_listed reader logs" using t(2,3) by (auto simp: logs_listed_def rotate_def Let_def split: if_splits option.splits sum.splits)
  obtain result w1 where a: "ArchivePending env ops (if lc_forks opt then Some (forkSource (lc_mariadb opt) latest (rd_pass reader)) else None)
          (floor_Authority (lc_instance opt) latest) logs w = ((result, None), w1)"
    using t(4-6) assms(2) by (auto simp: ship_def split: prod.splits option.splits if_splits)
  obtain r l2 w2 where k: "loop_checkForks opt env srv latest (rd_check reader) clock (re_ForkCheck result) (archivedThrough l1 logs result listedAt) l1 w1 = (r, l2, w2)"
    by (metis surj_pair)
  obtain h l3 where p: "purge_archived opt ops latest reader clock logs result l2 = (h, l3, eff2)" "w' = w2"
    using t(4) a k by (auto simp: ship_def split: prod.splits sum.splits)
  obtain plan where pl: "planPurge opt ops latest logs result = Inr plan" "pp_to plan = upTo" "upTo \<noteq> []"
    using p(1) t(5,6) assms(2) by (auto simp: purge_archived_def split: if_splits sum.splits option.splits)
  obtain obj where o: "w2 = w1\<lparr>aw_index := obj\<rparr>" "\<forall>a. listed_files a obj = listed_files a (aw_index w1)"
    using loop_checkForks_world [OF assms(3) k] by blast
  let ?p = "\<lparr>fp_source = (if lc_forks opt then Some (forkSource (lc_mariadb opt) latest (rd_pass reader)) else None), fp_primary = True,
    fp_generation = fst (floor_Authority (lc_instance opt) latest), fp_preloaded = None\<rparr>"
  have "archivePending env ops logs None ?p w = ((result, None), w1)" "snd (floor_Authority (lc_instance opt) latest)"
    using a by (auto simp: ArchivePending_def split: if_splits)
  then show ?thesis using lg pl o p(2) t(1) by (intro exI [of _ logs] exI [of _ ?p] exI [of _ result] exI [of _ w1] exI [of _ plan] exI [of _ obj]) (auto simp: prod_eq_iff)
qed

lemma parse_positions_at:
  "parse_positions ops positions = Inr applied \<Longrightarrow> map_of positions n = Some raw \<Longrightarrow> \<exists>g. map_of applied n = Some g \<and> op_Parse ops raw = Inr g"
  by (induction ops positions arbitrary: applied rule: parse_positions.induct) (auto split: sum.splits if_splits)

context ops_laws
begin

lemma applied_reach:
  assumes "parse_positions ops positions = Inr applied" "map_of positions n = Some raw" "applied_everywhere ops applied f"
    "admits raw" "admits (fl_GTIDSet f)"
  shows "\<exists>A B. reach (fl_GTIDSet f) = Inr A \<and> reach raw = Inr B \<and> A \<subseteq> B"
proof -
  obtain g where g: "map_of applied n = Some g" "op_Parse ops raw = Inr g" using parse_positions_at [OF assms(1,2)] by blast
  obtain s where s: "op_Parse ops (fl_GTIDSet f) = Inr s" "op_Contains ops g s" using assms(3) g(1) unfolding applied_everywhere_def by blast
  show ?thesis using Parse_law [OF assms(4) g(2)] Parse_law [OF assms(5) s(1)] s(2) Contains_law [of g s] by blast
qed

text \<open>A log the tick purges is in the bucket, listed by the index, and applied by every instance the Cluster expects.\<close>

lemma purged_safe:
  assumes "tick opt env ops srv (Some view) reader clock l w = (l', w', eff)" "PurgedTo upTo \<in> set eff" "conditional_writes tag srv" "archive_ok env w"
    "\<And>logs. logs_listed reader logs \<Longrightarrow> pass_names tag env (Archivable logs)" "\<And>n raw. map_of (fv_positions view) n = Some raw \<Longrightarrow> admits raw"
    "\<And>f. backed env w' f \<Longrightarrow> admits (fl_GTIDSet f)"
  shows "\<exists>logs. logs_listed reader logs \<and> (\<forall>b \<in> set (takeWhile (\<lambda>b. bl_Name b \<noteq> upTo) logs). bl_Active b \<or>
    (\<exists>f. fl_Name f = bl_Name b \<and> backed env w' f \<and> (\<forall>n \<in> expected opt view. \<exists>raw A B.
       map_of (fv_positions view) n = Some raw \<and> reach (fl_GTIDSet f) = Inr A \<and> reach raw = Inr B \<and> A \<subseteq> B)))"
proof -
  obtain logs p result w1 plan obj where t: "logs_listed reader logs" "archivePending env ops logs None p w = ((result, None), w1)"
    "planPurge opt ops (Some view) logs result = Inr plan" "pp_to plan = upTo" "upTo \<noteq> []" "w' = w1\<lparr>aw_index := obj\<rparr>"
    "\<forall>a. listed_files a obj = listed_files a (aw_index w1)"
    using tick_purges [OF assms(1-3)] by blast
  obtain result0 where r0: "re_Files result0 = []" "reports env w1 (Archivable logs) result0 result"
    using archivePending_ok(2) [OF t(2) assms(4) assms(5) [OF t(1)]] by blast
  from r0(2) [unfolded reports_def r0(1) append_Nil] obtain fs front rest
    where r: "re_Files result = fs" "Archivable logs = front @ rest" "map fl_Name fs = map bl_Name front"
    "\<forall>f \<in> set fs. backed env w1 f" "re_LastArchivedBinlog result = (if front = [] then re_LastArchivedBinlog result0 else bl_Name (last front))"
    by blast
  obtain positions applied where pp: "floor_Positions (lc_instance opt) (Some view) = Some (positions, [])" "parse_positions ops positions = Inr applied"
    "fs \<noteq> []" "\<forall>f \<in> set (takeWhile (\<lambda>f. fl_Name f \<noteq> upTo) fs). applied_everywhere ops applied f"
    "upTo \<in> fl_Name ` set fs \<or> upTo = fileBefore logs (re_LastArchivedBinlog result)"
    using planPurge_applied [OF t(3)] t(4,5) r(1) by auto
  have "front \<noteq> []" using r(3) pp(3) by auto
  then have up: "upTo \<in> fl_Name ` set fs \<or> upTo = fileBefore logs (bl_Name (last front))" using pp(5) r(5) by simp
  have "bl_Active b \<or> (\<exists>f. fl_Name f = bl_Name b \<and> backed env w' f \<and> (\<forall>n \<in> expected opt view. \<exists>raw A B.
       map_of (fv_positions view) n = Some raw \<and> reach (fl_GTIDSet f) = Inr A \<and> reach raw = Inr B \<and> A \<subseteq> B))"
    if b: "b \<in> set (takeWhile (\<lambda>b. bl_Name b \<noteq> upTo) logs)" for b
  proof (cases "bl_Active b")
    case False
    then obtain f where f: "f \<in> set (takeWhile (\<lambda>f. fl_Name f \<noteq> upTo) fs)" "fl_Name f = bl_Name b"
      using purged_reported [OF r(2,3) pp(3) up t(5) b] by blast
    have bk: "backed env w' f" using r(4) f(1) t(6,7) by (auto simp: backed_def manifest_at_def dest: set_takeWhileD)
    have "\<exists>raw A B. map_of (fv_positions view) n = Some raw \<and> reach (fl_GTIDSet f) = Inr A \<and> reach raw = Inr B \<and> A \<subseteq> B"
      if n: "n \<in> expected opt view" for n
    proof -
      obtain raw where raw: "map_of positions n = Some raw" "map_of (fv_positions view) n = Some raw"
        using floor_Positions_complete [OF pp(1)] n unfolding expected_def by blast
      from applied_reach [OF pp(2) raw(1) bspec [OF pp(4) f(1)] assms(6) [OF raw(2)] assms(7) [OF bk]] obtain A B
        where "reach (fl_GTIDSet f) = Inr A" "reach raw = Inr B" "A \<subseteq> B" by (elim exE conjE)
      then show ?thesis using raw(2) by (intro exI conjI)
    qed
    then have "\<forall>n \<in> expected opt view. \<exists>raw A B. map_of (fv_positions view) n = Some raw \<and> reach (fl_GTIDSet f) = Inr A \<and> reach raw = Inr B \<and> A \<subseteq> B"
      by (intro ballI)
    then show ?thesis using f(2) bk by (intro disjI2 exI [of _ f] conjI)
  qed simp
  then show ?thesis using t(1) by (intro exI [of _ logs] conjI ballI)
qed

end

section \<open>The drain uploads only what the surviving timeline holds\<close>

text \<open>Every manifest a step adds belongs to a file the filter admitted, with the GTID set it was admitted for.\<close>

definition only_admitted :: "pass_env \<Rightarrow> FileFilter option \<Rightarrow> archive_world \<Rightarrow> archive_world \<Rightarrow> bool" where
  "only_admitted env allow w w' \<longleftrightarrow> (\<forall>n meta. binlog_name n \<longrightarrow> manifest_at env w' n = Some meta \<longrightarrow> manifest_at env w n = Some meta \<or>
     (\<exists>scan. nm_GTIDSet meta = sr_GTIDSet scan \<and> (\<forall>admit. allow = Some admit \<longrightarrow> admit n scan = Inr True)))"

lemma only_admitted_same: "(\<And>n. binlog_name n \<Longrightarrow> manifest_at env w' n = manifest_at env w n) \<Longrightarrow> only_admitted env allow w w'"
  by (simp add: only_admitted_def)

lemma only_admitted_trans: "only_admitted env allow w1 w2 \<Longrightarrow> only_admitted env allow w2 w3 \<Longrightarrow> only_admitted env allow w1 w3"
  unfolding only_admitted_def by blast

lemma hashFile_manifests: "hashFile env n f w = (r, w') \<Longrightarrow> manifest_at env' w' m = manifest_at env' w m"
  using hashFile_cases by fastforce

lemma upload_file_admitted:
  assumes "upload_file env n keys f scan w = (r, w')" "binlog_name n" "file_keys env n keys" "\<forall>admit. allow = Some admit \<longrightarrow> admit n scan = Inr True"
  shows "only_admitted env allow w w'"
proof -
  have keys: "bk_BinlogKey keys = body_key env n" "bk_ManifestKey keys = manifest_key env n" using assms(3) by (simp_all add: file_keys_def)
  obtain h w1 where h: "hashFile env n f (w\<lparr>aw_deferredScans := AList.delete n (aw_deferredScans w)\<rparr>) = (h, w1)" by force
  have w1: "manifest_at env w1 m = manifest_at env w m" for m using hashFile_manifests [OF h] by simp
  show ?thesis
  proof (cases h)
    case (Inl err)
    then show ?thesis using assms(1) h w1 by (auto simp: upload_file_def intro!: only_admitted_same)
  next
    case (Inr x)
    obtain sha sz where x: "x = (sha, sz)" by force
    define meta where "meta = file_manifest env n scan sha sz"
    have g: "nm_GTIDSet meta = sr_GTIDSet scan" by (simp add: meta_def file_manifest_def)
    have "attempt id (Wrapf ''binlog: opening %q: %w'' [pe_path env n]) w1 (\<lambda>w.
      attempt (put_object (body_key env n) (Body (lf_bytes f))) (Wrapf ''binlog: uploading %q: %w'' [n]) w (\<lambda>w.
      attempt (put_object (manifest_key env n) (Manifest meta)) (Wrapf ''binlog: writing manifest for %q: %w'' [n]) w (\<lambda>w.
        (Inr (meta, True), w\<lparr>aw_verified := AList.update n (lf_info f, meta) (aw_verified w)\<rparr>)))) = (r, w')"
      using assms(1) h Inr x keys by (simp add: upload_file_def meta_def Let_def)
    then have "\<forall>m. manifest_at env w' m = manifest_at env w m \<or> (m = n \<and> manifest_at env w' m = Some meta)"
      using w1 by (auto elim!: attempt_cases simp: manifest_put [OF assms(2)] split: if_splits)
    then show ?thesis using g assms(4) unfolding only_admitted_def by (metis option.inject)
  qed
qed

lemma archive_present_manifests:
  assumes "archive_present env n keys f w = (r, w')"
  shows "manifest_at env w' m = manifest_at env w m"
  using assms unfolding archive_present_def
  by (auto elim!: attempt_cases split: option.splits stored_object.splits prod.splits sum.splits if_splits dest!: hashFile_manifests [where env' = env and m = m])

lemma archiveFile_admitted:
  assumes "archiveFile env allow n w = (r, w')" "binlog_name n"
  shows "only_admitted env allow w w'"
proof -
  obtain r1 where a: "archiveFileAllowed env allow n w = (r1, w')" using assms(1) by (auto simp: archiveFile_def split: prod.splits sum.splits)
  show ?thesis
  proof (cases "BuildBinlogKeys (pe_store env) (ar_clusterName (pe_archiver env)) (ar_serverUUID (pe_archiver env)) n")
    case (Inl err)
    then show ?thesis using a by (auto simp: archiveFileAllowed_def intro!: only_admitted_same)
  next
    case (Inr keys)
    have keys: "file_keys env n keys" using pass_keys [OF Inr] by (simp add: file_keys_def)
    have scan: "w2 = w1\<lparr>aw_faults := aw_faults w2\<rparr>" if "scan_file n f w1 = (s, w2)" for f w1 s w2
      using that by (auto simp: scan_file_def split: option.splits elim!: attempt_cases)
    have new: "only_admitted env allow w1 w'" if "archive_new env allow n keys f w1 = (r1, w')" for f w1
    proof -
      obtain s w2 where s: "scan_file n f w1 = (s, w2)" by force
      have same: "manifest_at env w2 m = manifest_at env w1 m" for m using scan [OF s] manifest_at_simps(1) by metis
      have up: "only_admitted env allow w1 w'" if "upload_file env n keys f sc w2 = (r1, w')" "\<forall>admit. allow = Some admit \<longrightarrow> admit n sc = Inr True" for sc
        using upload_file_admitted [OF that(1) assms(2) keys that(2)] same by (simp add: only_admitted_def)
      show ?thesis using that s same up
        by (auto simp: archive_new_def split: sum.splits option.splits bool.splits intro!: only_admitted_same)
    qed
    have tail: "only_admitted env allow w1 w'" if "(if map_of (aw_objects w1) (bk_ManifestKey keys) \<noteq> None then archive_present env n keys f w1
        else archive_new env allow n keys f w1) = (r1, w')" for f w1
      using that new archive_present_manifests by (auto split: if_splits intro!: only_admitted_same)
    have "manifest_at env (w1\<lparr>aw_faults := fs\<rparr>) = manifest_at env w1" for w1 fs by (rule ext) simp
    then have fa: "only_admitted env allow (w1\<lparr>aw_faults := fs\<rparr>) w2 = only_admitted env allow w1 w2" for w1 w2 fs by (simp add: only_admitted_def)
    show ?thesis using a [unfolded archiveFileAllowed_def Inr sum.case]
    proof (cases rule: attempt_cases)
      case (go fs)
      show ?thesis
      proof (cases "pe_disk env n")
        case (Some f)
        show ?thesis
        proof (cases "verified_meta n f (w\<lparr>aw_faults := fs\<rparr>)")
          case None
          from go [unfolded id_apply Some option.case None] show ?thesis
          proof (cases rule: attempt_cases)
            case (go gs)
            from tail [OF this [unfolded id_apply]] show ?thesis by (simp add: fa)
          qed (auto intro!: only_admitted_same)
        qed (use go Some in \<open>auto intro!: only_admitted_same\<close>)
      qed (use go in \<open>auto intro!: only_admitted_same\<close>)
    qed (auto intro!: only_admitted_same)
  qed
qed


lemma commit_file_manifests:
  assumes "commit_file env ops p status n gset report w = (r, w')" "binlog_name m"
  shows "manifest_at env w' m = manifest_at env w m"
  using assms(1) unfolding commit_file_def Let_def
  by (auto elim!: attempt_cases simp: manifest_put(3) [OF assms(2)] split: prod.splits option.splits)

lemma seedIndexed_manifests: "seedIndexed env n w = (r, w') \<Longrightarrow> manifest_at env w' m = manifest_at env w m"
  unfolding seedIndexed_def by (auto elim!: attempt_cases split: if_splits sum.splits prod.splits)

lemma pass_loop_admitted:
  "pass_loop env ops allow p logs status covered result w = (r, w') \<Longrightarrow> (\<And>l. l \<in> set logs \<Longrightarrow> binlog_name (bl_Name l)) \<Longrightarrow> only_admitted env allow w w'"
proof (induction logs arbitrary: status covered result w)
  case (Cons l logs)
  let ?n = "bl_Name l"
  have n: "binlog_name ?n" using Cons.prems(2) by simp
  obtain f0 w0 where f0: "next_fault w = (f0, w0)" by force
  have w0: "manifest_at env w0 m = manifest_at env w m" for m using next_fault_cases [OF f0] manifest_at_simps(1) by metis
  have w0': "only_admitted env allow w0 v \<Longrightarrow> only_admitted env allow w v" for v using w0 by (simp add: only_admitted_def)
  obtain a w1 where a: "archiveFile env allow ?n w0 = (a, w1)" by force
  note e1 = archiveFile_admitted [OF a n]
  define s where "s archived = (if \<not> archived \<and> ?n \<notin> set (aw_indexed w1) then seedIndexed env ?n w1 else (Inr (), w1))" for archived
  have s: "manifest_at env w2 m = manifest_at env w1 m" if "s archived = (x, w2)" for archived x w2 m
    using that seedIndexed_manifests by (auto simp: s_def split: if_splits)
  have rest: "only_admitted env allow w w'" if "pass_loop env ops allow p logs st cv rs w3 = (r, w')" "\<And>m. binlog_name m \<Longrightarrow> manifest_at env w3 m = manifest_at env w1 m" for st cv rs w3
    using w0' [OF only_admitted_trans [OF only_admitted_trans [OF e1 only_admitted_same [OF that(2)]] Cons.IH [OF that(1)]]] Cons.prems(2) by simp
  have stop: "only_admitted env allow w w'" if "\<And>m. binlog_name m \<Longrightarrow> manifest_at env w' m = manifest_at env w1 m"
    using w0' [OF only_admitted_trans [OF e1 only_admitted_same [OF that]]] .
  have early: "only_admitted env allow w w'" if "w' = w0" using w0' that by (auto intro: only_admitted_same)
  show ?case
  proof (cases f0)
    case (Some e)
    then show ?thesis using Cons.prems(1) f0 early by (cases e) auto
  next
    case None
    show ?thesis
    proof (cases "\<exists>meta archived. a = Inr (Some (meta, archived))")
      case False
      then have "w' = w1" using Cons.prems(1) f0 None a by (cases a) (auto split: option.splits)
      then show ?thesis using stop by simp
    next
      case True
      then obtain meta archived where ok: "a = Inr (Some (meta, archived))" by blast
      obtain x w2 where x: "s archived = (x, w2)" by force
      note body = Cons.prems(1) [unfolded pass_loop.simps f0 None prod.case option.case a ok sum.case Let_def, folded s_def, unfolded x prod.case]
      show ?thesis
      proof (cases "\<exists>u fileSet. x = Inr u \<and> op_Parse ops (nm_GTIDSet meta) = Inr fileSet")
        case False
        then have "w' = w2" using body by (auto split: sum.splits)
        then show ?thesis using stop s [OF x] by simp
      next
        case True
        then obtain fileSet where fs: "x = Inr ()" "op_Parse ops (nm_GTIDSet meta) = Inr fileSet" by auto
        obtain adv st cv rs where b: "(if \<not> adv then pass_loop env ops allow p logs st cv rs w2
          else case commit_file env ops p (st\<lparr>as_UpdatedAt := pe_now env\<rparr>) ?n (nm_GTIDSet meta) (re_ForkCheck rs) w2 of
              (Inl er, w3) \<Rightarrow> ((rs, Some er), w3)
            | (Inr (Some er, report), w3) \<Rightarrow> ((rs\<lparr>re_ForkCheck := report\<rparr>, Some er), w3)
            | (Inr (None, report), w3) \<Rightarrow> pass_loop env ops allow p logs (st\<lparr>as_UpdatedAt := pe_now env\<rparr>) cv (rs\<lparr>re_ForkCheck := report\<rparr>) w3) = (r, w')"
          using body unfolding fs sum.case by (rule that)
        obtain c w3 where c: "commit_file env ops p (st\<lparr>as_UpdatedAt := pe_now env\<rparr>) ?n (nm_GTIDSet meta) (re_ForkCheck rs) w2 = (c, w3)" by force
        have w3: "binlog_name m \<Longrightarrow> manifest_at env w3 m = manifest_at env w1 m" for m using commit_file_manifests [OF c] s [OF x] by simp
        have "w' = w3 \<or> (\<exists>w4 st cv rs. (w4 = w2 \<or> w4 = w3) \<and> pass_loop env ops allow p logs st cv rs w4 = (r, w'))"
          using b c by (auto split: if_splits sum.splits option.splits) blast
        then show ?thesis using stop rest w3 s [OF x] by metis
      qed
    qed
  qed
qed (auto intro: only_admitted_same)

lemma archivePending_admitted:
  assumes "archivePending env ops logs allow p w = (r, w')" "\<And>l. l \<in> set (Archivable logs) \<Longrightarrow> binlog_name (bl_Name l)"
  shows "only_admitted env allow w w'"
proof -
  obtain s w1 where s: "loadStatus env w = (s, w1)" by force
  have w1: "manifest_at env w1 m = manifest_at env w m" for m using loadStatus_cases [OF s] manifest_at_simps(1) by metis
  have "only_admitted env allow w1 w'" using assms s pass_loop_admitted [of env ops allow p "Archivable logs"]
    by (auto simp: archivePending_def split: sum.splits intro: only_admitted_same)
  then show ?thesis using w1 by (simp add: only_admitted_def)
qed

lemma backed_body:
  assumes "archive_ok env w" "backed env w f" "binlog_name (fl_Name f)"
  shows "\<exists>meta bytes. manifest_at env w (fl_Name f) = Some meta \<and> nm_GTIDSet meta = fl_GTIDSet f \<and> map_of (aw_objects w) (body_key env (fl_Name f)) = Some (Body bytes)"
  using assms unfolding backed_def archive_ok_def body_complete_def by blast

text \<open>A tick keeps what the passes keep: the index lists only what the bucket holds.\<close>

lemma reindexed_ok:
  assumes "archive_ok env w" "\<And>a. listed_files a obj = listed_files a (aw_index w)"
  shows "archive_ok env (w\<lparr>aw_index := obj\<rparr>)"
  using assms by (simp add: archive_ok_def body_complete_def index_backed_def memos_true_def)

lemma drain_ok:
  assumes "drain opt env ops latest reader clock l w = (l', w')" "archive_ok env w" "\<And>logs. logs_listed reader logs \<Longrightarrow> pass_names tag env (Archivable logs)"
  shows "archive_ok env w'"
proof -
  have h: "w1 = w\<lparr>aw_faults := aw_faults w1\<rparr>" if "HasSegment env w = (r, w1)" for r w1
    using that loadStatus_cases by (auto simp: HasSegment_def split: prod.splits sum.splits)
  obtain r w1 where a: "HasSegment env w = (r, w1)" by force
  have w1: "archive_ok env w1" using h [OF a] assms(2) archive_ok_simps(1) by metis
  have "w' = w \<or> w' = w1 \<or> (\<exists>logs x. rd_ListBinaryLogs reader = Inr logs \<and> DrainPending env ops logs (Some (\<lambda>_. onSurvivingTimeline opt latest)) w1 = (x, w'))"
    using assms(1) a by (auto simp: drain_def split: if_splits sum.splits bool.splits prod.splits option.splits)
  then show ?thesis
  proof (elim disjE exE conjE)
    fix logs x assume l: "rd_ListBinaryLogs reader = Inr logs" and d: "DrainPending env ops logs (Some (\<lambda>_. onSurvivingTimeline opt latest)) w1 = (x, w')"
    have "pass_names tag env (Archivable logs)" using assms(3) l by (simp add: logs_listed_def)
    then show ?thesis using archivePending_ok(1) [OF _ w1] d extends_ok by (metis DrainPending_def surj_pair)
  qed (use assms(2) w1 in auto)
qed

lemma tick_ok:
  assumes "tick opt env ops srv latest reader clock l w = (l', w', eff)" "archive_ok env w" "conditional_writes tag srv"
    "\<And>logs. logs_listed reader logs \<Longrightarrow> pass_names tag env (Archivable logs)"
  shows "archive_ok env w'"
proof -
  have ship: "archive_ok env w'" if s: "ship opt env ops srv latest reader clock logs listedAt l1 w = (l2, w', eff1)" and n: "pass_names tag env (Archivable logs)"
    for logs listedAt l1 l2 eff1
  proof -
    obtain result err w1 where a: "ArchivePending env ops (if lc_forks opt then Some (forkSource (lc_mariadb opt) latest (rd_pass reader)) else None)
          (floor_Authority (lc_instance opt) latest) logs w = ((result, err), w1)" by (metis surj_pair)
    have "w1 = w \<or> (\<exists>p. archivePending env ops logs None p w = ((result, err), w1))" using a by (auto simp: ArchivePending_def split: if_splits)
    then have w1: "archive_ok env w1" using archivePending_ok(1) [OF _ assms(2) n] extends_ok assms(2) by blast
    show ?thesis
    proof (cases err)
      case (Some e)
      then show ?thesis using s a w1 by (auto simp: ship_def)
    next
      case None
      obtain r l3 w3 where k: "loop_checkForks opt env srv latest (rd_check reader) clock (re_ForkCheck result) (archivedThrough l1 logs result listedAt) l1 w1 = (r, l3, w3)"
        by (metis surj_pair)
      have "w' = w3" using s a None k by (auto simp: ship_def split: prod.splits sum.splits)
      then show ?thesis using loop_checkForks_world [OF assms(3) k] reindexed_ok [OF w1] by auto
    qed
  qed
  have n: "pass_names tag env (Archivable logs)" if "rd_ListBinaryLogs reader = Inr logs \<or> rd_Relist reader = Inr logs" for logs
    using assms(4) that by (simp add: logs_listed_def)
  have d: "archive_ok env w'" if "drain opt env ops latest reader clock l1 w = (l2, w')" for l1 l2
    by (rule drain_ok [OF that assms(2)]) (rule assms(4))
  show ?thesis using assms(1,2) n ship d
    by (auto simp: tick_def rotate_def Let_def split: sum.splits bool.splits prod.splits if_splits option.splits)
qed



definition wit_loop_options :: loop_options where
  "wit_loop_options = \<lparr>lc_instance = ''db-1'', lc_mariadb = False, lc_flushInterval = DefaultFlushInterval, lc_purge = True, lc_floor = True,
     lc_cluster = True, lc_replication = True, lc_forks = True\<rparr>"

definition wit_view :: floorView where
  "wit_view = \<lparr>fv_instances = [''db-1'', ''db-2'', ''db-3''], fv_diverged = [''db-3''], fv_positions = [(''db-1'', ''ab:1-9''), (''db-2'', ''ab:1-5'')],
     fv_currentPrimary = ''db-1'', fv_clusterUID = ''uid'', fv_generation = 1, fv_timeline = [], fv_epochs = []\<rparr>"

definition wit_reads :: authority_reads where
  "wit_reads = \<lparr>au_Writable = Inr True, au_ExecutedGTIDSet = Inr ''ab:1-9'', au_CurrentPosition = Inr []\<rparr>"

definition wit_listing :: "BinaryLog list" where
  "wit_listing = [\<lparr>bl_Name = ''b.000001'', bl_SizeBytes = 3, bl_Active = False\<rparr>, \<lparr>bl_Name = ''b.000002'', bl_SizeBytes = 3, bl_Active = False\<rparr>,
     \<lparr>bl_Name = ''b.000003'', bl_SizeBytes = 3, bl_Active = False\<rparr>, \<lparr>bl_Name = ''b.000004'', bl_SizeBytes = 1, bl_Active = True\<rparr>]"

definition wit_reader :: tick_reader where
  "wit_reader = \<lparr>rd_Writable = Inr True, rd_ListBinaryLogs = Inr wit_listing, rd_FlushLogs = None, rd_Relist = Inr wit_listing, rd_PurgeLogsTo = None,
     rd_Streaming = Inr False, rd_pass = wit_reads, rd_check = wit_reads\<rparr>"

definition wit_clock :: tick_clock where
  "wit_clock = \<lparr>tc_listed = 10, tc_started = 11, tc_since = 12, tc_flushed = 13, tc_lastFlush = 14, tc_relisted = 15, tc_checked = 16, tc_rechecked = 17,
     tc_held = 18, tc_failed = 19\<rparr>"

definition wit_tick :: "Loop \<times> archive_world \<times> server_effect list" where
  "wit_tick = tick wit_loop_options wit_pass_env mysqlGTIDSet ideal_server (Some wit_view) wit_reader wit_clock new_loop wit_empty"

lemma wit_tick_facts:
  "snd (snd wit_tick) = [PurgedTo ''b.000002'']" "binlog_name ''b.000001''" "binlog_name ''b.000002''" "binlog_name ''b.000003''"
  "lo_Active (lv_state (fst wit_tick))" "lo_PendingFiles (lv_state (fst wit_tick)) = 0"
  by code_simp+

lemma wit_listing_names: "logs_listed wit_reader logs \<Longrightarrow> pass_names gen_tag wit_pass_env (Archivable logs)"
  using wit_tick_facts(2-4) ideal_conditional
  by (auto simp: logs_listed_def wit_reader_def pass_names_def wit_listing_def Archivable_def wit_pass_env_def)

lemma wit_empty_ok: "archive_ok wit_pass_env wit_empty"
  by (simp add: archive_ok_def body_complete_def index_backed_def memos_true_def manifest_at_def listed_files_def wit_empty_def)


lemma reached_loop_at: "map_of (reached_loop held upTo) d = Some s \<Longrightarrow> map_of upTo d = Some s \<or> (\<exists>h \<in> set held. mg_Domain h = d \<and> mg_Seq h = s)"
  by (induction held upTo rule: reached_loop.induct) (fastforce simp: update_conv' split: if_splits)+

lemma surviving_loop_all:
  "surviving_loop timeline upTo gs \<Longrightarrow> g \<in> set gs \<Longrightarrow> Verdict timeline g = (True, True) \<and> mg_Seq g \<le> reached_at upTo (mg_Domain g)"
  by (induction gs) (auto split: prod.splits if_splits)

lemma surviving_held:
  assumes "surviving_loop timeline (reached_loop held []) file" "g \<in> set file"
  shows "Verdict timeline g = (True, True) \<and> (\<exists>h \<in> set held. mg_Domain h = mg_Domain g \<and> mg_Seq g \<le> mg_Seq h)"
proof -
  have v: "Verdict timeline g = (True, True)" "mg_Seq g \<le> reached_at (reached_loop held []) (mg_Domain g)" using surviving_loop_all [OF assms] by auto
  have "mg_Seq g \<noteq> 0" using v(1) by (auto simp: Verdict_def split: if_splits)
  then obtain s where "map_of (reached_loop held []) (mg_Domain g) = Some s" "mg_Seq g \<le> s"
    using v(2) by (auto simp: reached_at_def split: option.splits)
  then show ?thesis using v(1) reached_loop_at by force
qed

text \<open>What the gate proves of a file it admits: the current primary is another instance and its recorded position holds the file's
  transactions; on MariaDB, each last GTID of the file is also on the primary timeline.\<close>

definition held_by_primary :: "loop_options \<Rightarrow> floorView \<Rightarrow> string \<Rightarrow> bool" where
  "held_by_primary opt view gset \<longleftrightarrow> fv_currentPrimary view \<noteq> lc_instance opt \<and>
     (\<exists>position. map_of (fv_positions view) (fv_currentPrimary view) = Some position \<and> (gset = [] \<or>
        (if lc_mariadb opt
         then \<exists>file held. ParseMariaDBPosition gset = Inr file \<and> ParseMariaDBPosition position = Inr held \<and>
           (\<forall>g \<in> set file. Verdict (fv_timeline view) g = (True, True) \<and> (\<exists>h \<in> set held. mg_Domain h = mg_Domain g \<and> mg_Seq g \<le> mg_Seq h))
         else \<exists>A B. mysql_reach gset = Inr A \<and> mysql_reach position = Inr B \<and> A \<subseteq> B)))"

lemma onSurvivingTimeline_held:
  assumes "onSurvivingTimeline opt latest scan = Inr True"
  shows "\<exists>view. latest = Some view \<and> held_by_primary opt view (sr_GTIDSet scan)"
proof -
  obtain primary position where p: "floor_Primary latest = (primary, position, True)" "primary \<noteq> []" "primary \<noteq> lc_instance opt"
    using assms by (auto simp: onSurvivingTimeline_def split: if_splits prod.splits)
  then obtain view where v: "latest = Some view" "primary = fv_currentPrimary view" "map_of (fv_positions view) primary = Some position"
    by (auto simp: floor_Primary_def split: option.splits if_splits)
  have "sr_GTIDSet scan = [] \<or>
        (if lc_mariadb opt
         then \<exists>file held. ParseMariaDBPosition (sr_GTIDSet scan) = Inr file \<and> ParseMariaDBPosition position = Inr held \<and>
           (\<forall>g \<in> set file. Verdict (fv_timeline view) g = (True, True) \<and> (\<exists>h \<in> set held. mg_Domain h = mg_Domain g \<and> mg_Seq g \<le> mg_Seq h))
         else \<exists>A B. mysql_reach (sr_GTIDSet scan) = Inr A \<and> mysql_reach position = Inr B \<and> A \<subseteq> B)"
    using assms p v(1) surviving_held GTIDContains_reach [of position "sr_GTIDSet scan"]
    by (auto simp: onSurvivingTimeline_def floor_Timeline_def split: if_splits option.splits sum.splits)
  then show ?thesis using v p(3) unfolding held_by_primary_def by blast
qed


text \<open>A former primary that archived one file ships the second once the new primary holds it.\<close>

definition wit_former :: archive_world where
  "wit_former = snd (archivePending wit_pass_env mysqlGTIDSet wit_logs None wit_primary wit_empty)"

definition wit_demoted :: "string \<Rightarrow> Loop \<times> archive_world \<times> server_effect list" where
  "wit_demoted position = tick wit_loop_options wit_pass_env mysqlGTIDSet ideal_server
     (Some (wit_view\<lparr>fv_currentPrimary := ''db-2'', fv_positions := [(''db-2'', position)]\<rparr>))
     (wit_reader\<lparr>rd_Writable := Inr False, rd_Streaming := Inr True\<rparr>) wit_clock new_loop wit_former"

lemma wit_demoted_facts:
  "map_option nm_GTIDSet (manifest_at wit_pass_env (fst (snd (wit_demoted ''ab:1-5''))) ''b.000002'') = Some ''ab:1-3''"
  "manifest_at wit_pass_env wit_former ''b.000002'' = None"
  "manifest_at wit_pass_env (fst (snd (wit_demoted ''ab:1-2''))) ''b.000002'' = None"
  "lo_DeferredFile (lv_state (fst (wit_demoted ''ab:1-2''))) = ''b.000002''"
  by code_simp+


section \<open>How far the archive reaches\<close>

text \<open>The size that decides whether the active log has grown is read after the rotation, not with it. A transaction committed between
  the two is already counted in it: while nothing else is written, no later tick rotates the log that holds it, and every
  one of them takes the archive to reach up to its own listing.\<close>

definition same_flush :: "Loop \<Rightarrow> Loop \<Rightarrow> bool" where
  "same_flush l l' \<longleftrightarrow> lv_lastFlush l' = lv_lastFlush l \<and> lv_lastFlushSize l' = lv_lastFlushSize l \<and> lv_flushedAt l' = lv_flushedAt l \<and>
    lv_flushedActive l' = lv_flushedActive l \<and> lv_flushedSize l' = lv_flushedSize l"

lemma same_flush_trans: "same_flush l l1 \<Longrightarrow> same_flush l1 l2 \<Longrightarrow> same_flush l l2"
  by (simp add: same_flush_def)

lemma due_check_same_flush: "due_check opt env srv latest reads clock report through l w = (r, l', w') \<Longrightarrow> same_flush l l'"
  by (auto simp: due_check_def same_flush_def Let_def split: prod.splits option.splits if_splits)

lemma loop_checkForks_same_flush: "loop_checkForks opt env srv latest reads clock report through l w = (r, l', w') \<Longrightarrow> same_flush l l'"
  by (auto simp: loop_checkForks_def Let_def split: prod.splits option.splits if_splits sum.splits dest!: due_check_same_flush) (simp_all add: same_flush_def)

lemma purge_archived_same_flush: "purge_archived opt ops latest reader clock logs result l = (r, l', eff) \<Longrightarrow> same_flush l l'"
  by (auto simp: purge_archived_def fail_def same_flush_def split: option.splits if_splits sum.splits)

lemma ship_same_flush:
  assumes "ship opt env ops srv latest reader clock logs listedAt l w = (l', w', eff)"
  shows "same_flush l l'"
proof -
  obtain result err w1 where a: "ArchivePending env ops (if lc_forks opt then Some (forkSource (lc_mariadb opt) latest (rd_pass reader)) else None)
          (floor_Authority (lc_instance opt) latest) logs w = ((result, err), w1)" by (metis surj_pair)
  obtain st l1 w2 where k: "loop_checkForks opt env srv latest (rd_check reader) clock (re_ForkCheck result) (archivedThrough l logs result listedAt) l w1 = (st, l1, w2)"
    by (metis surj_pair)
  obtain h l2 eff2 where p: "purge_archived opt ops latest reader clock logs result l1 = (h, l2, eff2)" by (metis surj_pair)
  have s: "same_flush l l2" using loop_checkForks_same_flush [OF k] purge_archived_same_flush [OF p] by (rule same_flush_trans)
  show ?thesis
  proof (cases err)
    case None
    then show ?thesis using assms a k p s by (cases st; cases h) (auto simp: ship_def same_flush_def)
  next
    case (Some e)
    then show ?thesis using assms a by (auto simp: ship_def same_flush_def fail_def)
  qed
qed

lemma written_between_flush_and_listing:
  assumes "rotate opt reader clock logs0 l = (Inr (logs, listedAt), l1, [Flushed])" "tc_lastFlush clock \<noteq> zero_time" "bl_Name (activeLog logs) \<noteq> []"
    "activeLog logs' = activeLog logs" "same_flush l1 l2"
  shows "rotate opt reader' clock' logs' l2 = (Inr (logs', tc_listed clock'), l2, []) \<and>
    (re_Deferred result = [] \<longrightarrow> pendingAfter logs' (re_LastArchivedBinlog result) \<le> 0 \<longrightarrow> archivedThrough l2 logs' result t = t)"
proof -
  have "lv_lastFlush l1 = tc_lastFlush clock" "lv_lastFlushSize l1 = bl_SizeBytes (activeLog logs)" "lv_flushedActive l1 = bl_Name (activeLog logs)"
    "lv_flushedSize l1 = bl_SizeBytes (activeLog logs)"
    using assms(1) by (auto simp: rotate_def Let_def split: if_splits option.splits sum.splits)
  then show ?thesis using assms(2-5) by (simp add: rotate_def archivedThrough_def same_flush_def)
qed


section \<open>The state an instance reports\<close>

definition stamp_string :: "gotime \<Rightarrow> string" where
  "stamp_string t = (if t = zero_time then [] else rfc3339 t)"

definition archivingStatus :: "State \<Rightarrow> ArchivingStatus" where
  "archivingStatus s =
     \<lparr>ars_Active = lo_Active s, ars_LastArchivedBinlog = lo_LastArchivedBinlog s, ars_LastArchivedGTID = lo_LastArchivedGTID s,
      ars_LastArchivedTime = stamp_string (lo_LastArchivedTime s), ars_PendingFiles = lo_PendingFiles s, ars_LastError = lo_LastError s,
      ars_LastErrorTime = stamp_string (lo_LastErrorTime s), ars_PurgeHeldBy = lo_PurgeHeldBy s, ars_PurgeHeldSince = stamp_string (lo_PurgeHeldSince s),
      ars_Forks = map (\<lambda>f. \<lparr>afs_Segment = sf_ServerUUID f, afs_InstanceName = sf_InstanceName f, afs_GTIDs = sf_GTIDs f,
        afs_DetectedAt = stamp_string (sf_DetectedAt f)\<rparr>) (lo_Forks s),
      ars_ForkCheckedAt = stamp_string (lo_ForkCheckedAt s),
      ars_ForkCheckGeneration = (if lo_ForkCheckedAt s = zero_time then 0 else lo_ForkCheckGeneration s),
      ars_OldestSegmentPosition = lo_OldestSegmentPosition s, ars_DeferredFile = lo_DeferredFile s, ars_DisownedGTIDs = lo_Disowned s,
      ars_Gaps = lo_Gaps s, ars_CoveredGTIDSet = lo_Covered s,
      ars_MariaDBTimeline = map (\<lambda>e. \<lparr>aes_Instance = ae_Instance e, aes_ServerID = ae_ServerID e, aes_Handoff = ae_Handoff e\<rparr>) (lo_Timeline s)\<rparr>"

text \<open>A tick of an instance that is not writable reports nothing it read from the archive index.\<close>

lemma archivingStatus_not_writable:
  assumes "tick opt env ops srv latest reader clock l w = (l', w', eff)" "rd_Writable reader = Inr False"
  shows "let a = archivingStatus (lv_state l') in \<not> ars_Active a \<and> ars_ForkCheckedAt a = [] \<and> ars_ForkCheckGeneration a = 0 \<and> ars_Forks a = [] \<and>
    ars_DisownedGTIDs a = [] \<and> ars_Gaps a = [] \<and> ars_CoveredGTIDSet a = [] \<and> ars_MariaDBTimeline a = []"
proof -
  obtain l1 where d: "drain opt env ops latest reader clock (not_writable l) w = (l1, w')" "l' = l1" using assms by (auto simp: tick_def split: prod.splits)
  define silent where "silent s \<longleftrightarrow> \<not> lo_Active s \<and> lo_ForkCheckedAt s = zero_time \<and> lo_Forks s = [] \<and> lo_Disowned s = [] \<and> lo_Gaps s = [] \<and>
    lo_Covered s = [] \<and> lo_Timeline s = []" for s :: State
  have "silent (lv_state (not_writable l))" by (simp add: silent_def not_writable_def fork_fields_def zero_state_def)
  then have "silent (lv_state l1)"
    using d(1) by (auto simp: drain_def fail_def silent_def split: if_splits sum.splits bool.splits prod.splits option.splits)
  then show ?thesis unfolding d(2) by (simp add: archivingStatus_def Let_def stamp_string_def silent_def)
qed

end
