(* ===== verification/Spec2Isabelle.thy ===== *)
theory Spec2Isabelle
  imports Gtid_Set Gtid_Model Mariadb_Timeline Engine_Version Cluster_Api Instance_Report Topology Async_Observation
    Async_Election Async_Failover Async_Switchover Group_Replication Archive_Index Index_Cas Retention
    Gtid_Ops Archive_Forks Archiver Archive_Replay Mariadb_Replay Archive_Pass
    Cluster_Floor Archive_Loop
begin

text \<open>
  A verification development for cnmsql, a Kubernetes operator that runs MySQL and MariaDB clusters.

  \<^bold>\<open>The program.\<close> The operator (\<open>internal/controller\<close>) observes the instances of a Cluster, decides which of them is the primary
  (failover, switchover, quorum recovery) and writes its decisions into the Cluster's status. An instance manager in every
  Pod (\<open>pkg/management/mysql\<close>) carries them out and, on the primary, ships the binary logs to an object store, where an
  archive index shared by all instances says what the archive holds. A recovery plans a replay from a base backup and that
  index. The two sides meet in three places: the Cluster status (positions, current primary and its generation, the MariaDB
  primary timeline), the archive index, written by the primary's passes, by fork checks and by retention with conditional
  writes, and the GTID positions all of them compare.

  \<^bold>\<open>Conventions.\<close> A struct is a record whose fields carry a short prefix, an interface with two implementations a record of its
  methods, a Go map an association list, an error a value of \<open>go_error\<close> (its format and arguments) and a fallible call a sum
  with the error on the left. A time is an integer of nanoseconds. A loop is a recursive function named after the function
  it is part of. Calls that leave the process are explicit: a list of faults says which of them fail, before or after they
  took effect, and clock readings, server answers and the contents of the disk are arguments.

  \<^item> \<^bold>\<open>Go_Prelude, Go_Fmt.\<close> What the code uses of Go: strings, numbers, errors, maps, formatting, durations and printed times, with
    the generic lemmas the components share.
  \<^item> \<^bold>\<open>Gtid_Set\<close> (\<open>replication/gtid.go\<close>). MySQL GTID sets. Every built set is well formed; the operations are the set operations;
    parsing reads back what printing wrote; counting the missing transactions saturates.
  \<^item> \<^bold>\<open>Gtid_Model\<close> (\<open>pkg/engine/gtid*.go\<close>). The GTID model of each engine. The locale \<open>gtid_laws\<close> says what callers rely on and is
    interpreted for both.
  \<^item> \<^bold>\<open>Mariadb_Timeline\<close> (\<open>pkg/engine/mariadb_timeline.go\<close>). The record of who was primary when. A verdict on a GTID is sound, and
    pruning keeps every verdict that is still needed.
  \<^item> \<^bold>\<open>Engine_Version\<close> (\<open>version/version.go\<close>, \<open>pkg/engine/engine*.go\<close>). Server versions, the upgrade rules and what an engine
    supports. The general upgrade check equals the one written for MySQL.
  \<^item> \<^bold>\<open>Cluster_Api, Instance_Report\<close> (\<open>api/v1alpha1\<close>, \<open>webserver/status.go\<close>). The Cluster with its defaults, derived settings and
    checks, and the report of an instance.
  \<^item> \<^bold>\<open>Topology\<close> (\<open>controller/topology\<close>). The states that cross the topology interface and the promotion policy.
  \<^item> \<^bold>\<open>Async_Observation, Async_Election, Async_Failover, Async_Switchover\<close> (\<open>controller/async\<close>). Divergence is always found and
    dropped only on proof; the election implements its specification and its winner loses no more than the bounds allow; a
    failover is guarded, fences the old primary first, happens when it is allowed, changes nothing when a call fails and is
    spaced by the cooldown; a switchover ends and its abort is safe.
  \<^item> \<^bold>\<open>Group_Replication\<close> (\<open>controller/groupreplication\<close>, \<open>groupreplication/statements.go\<close>). The primary a majority reports, the merged
    group status, the quorum guards and quorum recovery.
  \<^item> \<^bold>\<open>Archive_Index, Index_Cas, Retention\<close> (\<open>objectstore\<close>, \<open>cluster_retention.go\<close>). Object keys and index records; the conditional
    read-modify-write of the index, which loses no update under any interleaving; retention, which keeps what a recovery needs,
    deletes only what the cluster owns and is safe when a call fails.
  \<^item> \<^bold>\<open>Gtid_Ops, Archive_Forks, Archiver\<close> (\<open>binlog/replay.go\<close>, \<open>forks.go\<close>, \<open>archiver.go\<close>). The set operations behind one locale
    \<open>ops_laws\<close>, interpreted for both engines; the fork judges; the fold of a file into the index with its fork check. The check
    records exactly what the primary lacks, and a segment's coverage and file list move together.
  \<^item> \<^bold>\<open>Archive_Replay, Mariadb_Replay\<close> (\<open>binlog/replay.go\<close>, \<open>replay_mariadb_forks.go\<close>). Replay plans. A planned recovery brings back
    exactly the archived part of the surviving timeline, or exactly its GTID target; the positional chunks of MariaDB apply
    every sequence once and in order; the choice of segments ends and is complete.
  \<^item> \<^bold>\<open>Archive_Pass\<close> (\<open>binlog/binlog.go\<close>, the pass of \<open>archiver.go\<close>). Over any run of passes, failing calls, crashes and other
    writers, the index lists only files whose manifest and complete body are in the bucket.
  \<^item> \<^bold>\<open>Cluster_Floor, Archive_Loop\<close> (\<open>instance/archiving.go\<close>, \<open>binlog/loop.go\<close>). One tick of the archiving loop. A purge removes
    only logs that are archived and applied by every expected instance, and the drain of a former primary ships only what the
    surviving timeline holds.
  \<^item> \<^bold>\<open>This theory.\<close> A recovery planned from an index the primary has checked.

  \<^bold>\<open>Bounds and fuel.\<close> The write loop of the index runs at most the number of attempts the code allows; every other loop is
  structural or comes with a termination proof. Unsigned and signed 64-bit arithmetic wraps where the code can overflow.

  \<^bold>\<open>Not modelled.\<close> The operator's assembly of its observation into phases, conditions and the recorded timeline
  (\<open>cluster_status.go\<close>, \<open>cluster_timeline.go\<close>, \<open>cluster_archive_gap.go\<close>, \<open>cluster_dead_backups.go\<close>), re-initialisation and
  disruption budgets: their decisions rest on the modelled parts but are not translated. Everything that builds Kubernetes
  objects, runs external programs (mysqlbinlog, xtrabackup, mysqldump), issues SQL, serves HTTP, collects metrics or renders
  configuration: input and output around the modelled decisions. What scanning a binary log finds is an argument, and so is
  the behaviour of the object store, with the hypothesis that a conditional write is applied only when its condition holds.
\<close>

section \<open>Across components\<close>


definition wit_restore_index :: ArchiveIndex where
  "wit_restore_index = wit_replay_index\<lparr>ix_Segments := [wit_replay_segment ''ab'' ''ab:1-5'' None, wit_replay_segment ''cd'' ''ab:1-4,cd:1-3'' None]\<rparr>"

definition wit_restore_pass :: forkPass where
  "wit_restore_pass = \<lparr>fp_source = Some (Inr (Some (mysqlForkJudge ''ab:1-4,cd:1-3'' [(''ab'', [mk_iv 1 4]), (''cd'', [mk_iv 1 3])]))),
     fp_primary = True, fp_generation = 2, fp_preloaded = None\<rparr>"

definition wit_restore_check :: "bool \<times> ArchiveIndex \<times> ForkReport" where
  "wit_restore_check = checkForks (wit_archiver\<lparr>ar_serverUUID := ''cd''\<rparr>) 9 wit_restore_pass wit_restore_index"


end
